(* ===== verification/Iscsi_Prelude.thy ===== *)
theory Iscsi_Prelude
  imports Main "HOL-Library.Word" "HOL-Library.Signed_Division"
begin

text \<open>
  What every component of the iSCSI target shares: the machine types of the C program, the ways a
  C statement can fail, memory as byte arrays with checked block operations, C strings, and the
  lemmas on them. A C \<open>int\<close> is a \<open>32 word\<close> whose arithmetic wraps and whose comparisons read it
  with \<open>sint\<close>; an \<open>unsigned char\<close> is an \<open>8 word\<close>.
\<close>

unbundle bit_operations_syntax

named_theorems c_arith \<open>signed arithmetic that does not overflow\<close>
named_theorems blk_simps \<open>reading a byte array after a block was written\<close>

section \<open>Machine types and constants\<close>

type_synonym byte = "8 word"
type_synonym cint = "32 word"

definition ISCSI_BUFFER_SIZE :: int where
  [simp]: "ISCSI_BUFFER_SIZE = 4194304"

definition ISCSI_TARGET_MEMORY_SIZE :: int where
  [simp]: "ISCSI_TARGET_MEMORY_SIZE = 4194304"

definition ISCSI_TARGET_SENSE_BUFFER_SIZE :: int where
  [simp]: "ISCSI_TARGET_SENSE_BUFFER_SIZE = 32"

definition SCSI_CDB_LENGTH :: int where
  [simp]: "SCSI_CDB_LENGTH = 16"

definition ISCSI_TRANSFER_ENTRY_SIZE :: int where
  [simp]: "ISCSI_TRANSFER_ENTRY_SIZE = 4194304"

definition ISCSI_CONNECTION_PARAMETER_BUFFER_SIZE :: int where
  [simp]: "ISCSI_CONNECTION_PARAMETER_BUFFER_SIZE = 1048576"

text \<open>Limits of a session and of the negotiated parameters.\<close>

definition MAX_SUPPORTED_CONNS :: cint where
  [simp]: "MAX_SUPPORTED_CONNS = 4"

definition ISCSI_SESSION_DEFAULT_TSIH :: cint where
  [simp]: "ISCSI_SESSION_DEFAULT_TSIH = 1"

definition ISCSI_MAX_CMD_SN :: cint where
  [simp]: "ISCSI_MAX_CMD_SN = 0xFFFFFFFF"

definition ISCSI_TARGET_TIMEOUT_MS :: cint where
  [simp]: "ISCSI_TARGET_TIMEOUT_MS = 5000"

definition ISCSI_CONNECTION_PARAMETER_MAX_CONNECTIONS :: cint where
  [simp]: "ISCSI_CONNECTION_PARAMETER_MAX_CONNECTIONS = 1"

definition ISCSI_CONNECTION_PARAMETER_INITIAL_R2T :: cint where
  [simp]: "ISCSI_CONNECTION_PARAMETER_INITIAL_R2T = 1"

definition ISCSI_CONNECTION_PARAMETER_IMMEDIATE_DATA :: cint where
  [simp]: "ISCSI_CONNECTION_PARAMETER_IMMEDIATE_DATA = 1"

definition ISCSI_CONNECTION_PARAMETER_MAX_BURST_LENGTH :: cint where
  [simp]: "ISCSI_CONNECTION_PARAMETER_MAX_BURST_LENGTH = 8192"

definition ISCSI_CONNECTION_PARAMETER_FIRST_BURST_LENGTH :: cint where
  [simp]: "ISCSI_CONNECTION_PARAMETER_FIRST_BURST_LENGTH = 8192"

definition ISCSI_CONNECTION_PARAMETER_DATA_PDU_IN_ORDER :: cint where
  [simp]: "ISCSI_CONNECTION_PARAMETER_DATA_PDU_IN_ORDER = 1"

definition ISCSI_CONNECTION_PARAMETER_DATA_SEQUENCE_IN_ORDER :: cint where
  [simp]: "ISCSI_CONNECTION_PARAMETER_DATA_SEQUENCE_IN_ORDER = 1"

definition ISCSI_CONNECTION_PARAMETER_DEFAULT_TIME_2_WAIT :: cint where
  [simp]: "ISCSI_CONNECTION_PARAMETER_DEFAULT_TIME_2_WAIT = 10"

definition ISCSI_CONNECTION_PARAMETER_DEFAULT_TIME_2_RETAIN :: cint where
  [simp]: "ISCSI_CONNECTION_PARAMETER_DEFAULT_TIME_2_RETAIN = 10"

definition ISCSI_CONNECTION_PARAMETER_MAX_OUTSTANDING_R2T :: cint where
  [simp]: "ISCSI_CONNECTION_PARAMETER_MAX_OUTSTANDING_R2T = 10"

section \<open>Failing statements\<close>

text \<open>
  What a statement of the program can do other than go on: an access outside an array, a use of
  the null pointer, an integer division by zero, a failed \<open>assert\<close>, waiting for a lock or for
  buffer space that only another thread can give, a call of \<open>exit\<close>, and a loop that used up its
  fuel (the lemmas of the component that passes the fuel show that this one does not happen).
\<close>

datatype c_error =
    OutOfBounds
  | NullPointer
  | DivideByZero
  | DivideOverflow
  | AssertFailed
  | Blocked
  | ExitProcess cint
  | OutOfFuel

type_synonym 'a result = "c_error + 'a"

fun bindR :: "'a result \<Rightarrow> ('a \<Rightarrow> 'b result) \<Rightarrow> 'b result" where
  "bindR (Inl e) f = Inl e"
| "bindR (Inr x) f = f x"

lemma bindR_eq_Inr [simp]: "bindR m f = Inr y \<longleftrightarrow> (\<exists>x. m = Inr x \<and> f x = Inr y)"
  by (cases m) auto

lemma bindR_eq_Inl: "bindR m f = Inl e \<longleftrightarrow> m = Inl e \<or> (\<exists>x. m = Inr x \<and> f x = Inl e)"
  by (cases m) auto

lemma bindR_cong [fundef_cong]:
  "m = m' \<Longrightarrow> (\<And>x. m' = Inr x \<Longrightarrow> f x = f' x) \<Longrightarrow> bindR m f = bindR m' f'"
  by (cases m') auto

lemma bindR_assoc: "bindR (bindR m f) g = bindR m (\<lambda>x. bindR (f x) g)"
  by (cases m) auto

section \<open>Signed arithmetic\<close>

lemma sint_bounds:
  "- 2147483648 \<le> sint (x :: cint)" "sint (x :: cint) < 2147483648"
  "sint (x :: cint) \<le> 2147483647"
  using sint_ge [of x] sint_lt [of x] by simp_all

lemma sint_plus [c_arith]:
  "- 2147483648 \<le> sint a + sint b \<Longrightarrow> sint a + sint b < 2147483648
   \<Longrightarrow> sint (a + b :: cint) = sint a + sint b"
  by (simp add: sint_word_ariths signed_take_bit_int_eq_self)

lemma sint_minus [c_arith]:
  "- 2147483648 \<le> sint a - sint b \<Longrightarrow> sint a - sint b < 2147483648
   \<Longrightarrow> sint (a - b :: cint) = sint a - sint b"
  by (simp add: sint_word_ariths signed_take_bit_int_eq_self)

lemma sint_of_int [c_arith]:
  "- 2147483648 \<le> k \<Longrightarrow> k < 2147483648 \<Longrightarrow> sint (word_of_int k :: cint) = k"
  by (simp add: sint_sbintrunc' signed_take_bit_int_eq_self)

lemma sint_of_nat [c_arith]: "n < 2147483648 \<Longrightarrow> sint (word_of_nat n :: cint) = int n"
  using sint_of_int [of "int n"] by simp

lemma sint_eq_unat:
  assumes "0 \<le> sint (x :: cint)"
  shows "sint x = int (unat x)"
proof -
  have "uint x = sint x"
    using assms sint_bounds [of x] by (simp add: uint_sint, subst take_bit_int_eq_self) auto
  with assms show ?thesis by (metis unat_eq_nat_uint int_nat_eq)
qed

section \<open>Memory\<close>

text \<open>
  A C array of \<open>n\<close> bytes is a total function on offsets of which the program may touch those below
  \<open>n\<close>. \<open>blit\<close> is the effect of a block write; \<open>c_memset\<close> and \<open>c_memcpy\<close> check both blocks and are
  \<open>OutOfBounds\<close> where the C call would leave an array. A call of length 0 touches no byte.
\<close>

type_synonym mem = "nat \<Rightarrow> byte"

definition blit :: "mem \<Rightarrow> nat \<Rightarrow> (nat \<Rightarrow> byte) \<Rightarrow> nat \<Rightarrow> mem" where
  "blit m off f n = (\<lambda>i. if off \<le> i \<and> i < off + n then f (i - off) else m i)"

text \<open>A pointer to bytes: the array it points into, the size of the array and the position.\<close>

record cptr =
  blk :: mem
  bsz :: nat
  pos :: nat

definition padd :: "cptr \<Rightarrow> nat \<Rightarrow> cptr" where
  "padd p n = p\<lparr>pos := pos p + n\<rparr>"

definition rd :: "cptr \<Rightarrow> nat \<Rightarrow> byte result" where
  "rd p i = (if pos p + i < bsz p then Inr (blk p (pos p + i)) else Inl OutOfBounds)"

definition c_memset :: "mem \<Rightarrow> int \<Rightarrow> int \<Rightarrow> byte \<Rightarrow> int \<Rightarrow> mem result" where
  "c_memset m sz off v n =
     (if n = 0 then Inr m
      else if 0 \<le> off \<and> 0 \<le> n \<and> off + n \<le> sz then Inr (blit m (nat off) (\<lambda>_. v) (nat n))
      else Inl OutOfBounds)"

definition c_memcpy :: "mem \<Rightarrow> int \<Rightarrow> int \<Rightarrow> cptr \<Rightarrow> int \<Rightarrow> mem result" where
  "c_memcpy m sz off src n =
     (if n = 0 then Inr m
      else if 0 \<le> off \<and> 0 \<le> n \<and> off + n \<le> sz \<and> int (pos src) + n \<le> int (bsz src)
        then Inr (blit m (nat off) (\<lambda>i. blk src (pos src + i)) (nat n))
      else Inl OutOfBounds)"

text \<open>The bytes of an array from an offset on, as a list.\<close>

definition bytes_of :: "mem \<Rightarrow> nat \<Rightarrow> nat \<Rightarrow> byte list" where
  "bytes_of m off n = map m [off..<off + n]"

lemma blit_0 [simp]: "blit m off f 0 = m"
  by (rule ext) (auto simp: blit_def)

lemma blit_in [blk_simps]: "off \<le> i \<Longrightarrow> i < off + n \<Longrightarrow> blit m off f n i = f (i - off)"
  by (simp add: blit_def)

lemma blit_out [blk_simps]: "i < off \<or> off + n \<le> i \<Longrightarrow> blit m off f n i = m i"
  by (auto simp: blit_def)

lemma blit_cong: "(\<And>i. i < n \<Longrightarrow> f i = g i) \<Longrightarrow> blit m off f n = blit m off g n"
  by (rule ext) (auto simp: blit_def)

lemma blit_nth_append:
  "blit (blit m off (\<lambda>i. xs ! i) (length xs)) (off + length xs) (\<lambda>i. ys ! i) (length ys)
   = blit m off (\<lambda>i. (xs @ ys) ! i) (length (xs @ ys))"
  by (rule ext) (auto simp: blit_def nth_append)

lemma blit_at [simp]: "blit m off f n (off + i) = (if i < n then f i else m (off + i))"
  by (simp add: blit_def)

lemma c_memset_ok:
  "0 \<le> off \<Longrightarrow> 0 \<le> n \<Longrightarrow> off + n \<le> sz \<Longrightarrow>
   c_memset m sz off v n = Inr (blit m (nat off) (\<lambda>_. v) (nat n))"
  by (simp add: c_memset_def)

lemma c_memcpy_ok:
  "0 \<le> off \<Longrightarrow> 0 \<le> n \<Longrightarrow> off + n \<le> sz \<Longrightarrow> int (pos src) + n \<le> int (bsz src) \<Longrightarrow>
   c_memcpy m sz off src n = Inr (blit m (nat off) (\<lambda>i. blk src (pos src + i)) (nat n))"
  by (simp add: c_memcpy_def)

lemma length_bytes_of [simp]: "length (bytes_of m off n) = n"
  by (simp add: bytes_of_def)

lemma nth_bytes_of [simp]: "i < n \<Longrightarrow> bytes_of m off n ! i = m (off + i)"
  by (simp add: bytes_of_def)

lemma bytes_of_0 [simp]: "bytes_of m off 0 = []"
  by (simp add: bytes_of_def)

lemma bytes_of_cong: "(\<And>i. i < n \<Longrightarrow> m (off + i) = m' (off' + i)) \<Longrightarrow> bytes_of m off n = bytes_of m' off' n"
  by (rule nth_equalityI) auto

lemma bytes_of_append: "bytes_of m off (a + b) = bytes_of m off a @ bytes_of m (off + a) b"
  by (rule nth_equalityI) (auto simp: nth_append)

lemma bytes_of_blit_same [simp]: "bytes_of (blit m off f n) off n = map f [0..<n]"
  by (rule nth_equalityI) auto

lemma drop_bytes_of: "drop k (bytes_of m off n) = bytes_of m (off + k) (n - k)"
  by (rule nth_equalityI) (auto simp: add.assoc)

lemma take_bytes_of: "k \<le> n \<Longrightarrow> take k (bytes_of m off n) = bytes_of m off k"
  by (rule nth_equalityI) auto

section \<open>C strings\<close>

text \<open>
  The bytes of a string literal, without the final NUL; \<open>lit\<close> is the pointer to such a literal,
  an array of its own with the NUL at its end. \<open>strlen\<close> of a literal is the length of the list.
\<close>

definition cstr :: "string \<Rightarrow> byte list" where
  "cstr s = map of_char s"

definition mem_of :: "byte list \<Rightarrow> mem" where
  "mem_of bs = (\<lambda>i. if i < length bs then bs ! i else 0)"

definition lit :: "byte list \<Rightarrow> cptr" where
  "lit bs = \<lparr>blk = mem_of bs, bsz = length bs + 1, pos = 0\<rparr>"

text \<open>\<open>str_at p s\<close>: the C string at \<open>p\<close> is \<open>s\<close>.\<close>

definition str_at :: "cptr \<Rightarrow> byte list \<Rightarrow> bool" where
  "str_at p s \<longleftrightarrow> pos p + length s < bsz p \<and> (\<forall>i < length s. blk p (pos p + i) = s ! i)
     \<and> blk p (pos p + length s) = 0 \<and> 0 \<notin> set s"

lemma padd_sel [simp]:
  "blk (padd p n) = blk p" "bsz (padd p n) = bsz p" "pos (padd p n) = pos p + n"
  by (simp_all add: padd_def)

lemma length_cstr [simp]: "length (cstr s) = length s"
  by (simp add: cstr_def)

lemma str_at_lit: "0 \<notin> set s \<Longrightarrow> str_at (lit s) s"
  by (simp add: str_at_def lit_def mem_of_def)

lemma str_at_Nil: "str_at p [] \<longleftrightarrow> pos p < bsz p \<and> blk p (pos p) = 0"
  by (simp add: str_at_def)

lemma str_at_Cons:
  "str_at p (c # s) \<longleftrightarrow> pos p < bsz p \<and> blk p (pos p) = c \<and> c \<noteq> 0 \<and> str_at (padd p 1) s"
  by (auto simp: str_at_def All_less_Suc2)

lemma str_at_rd:
  "str_at p [] \<Longrightarrow> rd p 0 = Inr 0" "str_at p (c # s) \<Longrightarrow> rd p 0 = Inr c"
  by (simp_all add: str_at_Nil str_at_Cons rd_def)

text \<open>\<open>strlen\<close>: counts the bytes before the first NUL; without one it leaves the array.\<close>

function c_strlen :: "cptr \<Rightarrow> nat result" where
  "c_strlen s =
     (if pos s < bsz s then
        (if blk s (pos s) = 0 then Inr 0 else bindR (c_strlen (padd s 1)) (\<lambda>n. Inr (Suc n)))
      else Inl OutOfBounds)"
  by pat_completeness auto
termination
  by (relation "measure (\<lambda>s. bsz s - pos s)") auto

declare c_strlen.simps [simp del]

lemma c_strlen_str: "str_at p s \<Longrightarrow> c_strlen p = Inr (length s)"
proof (induction s arbitrary: p)
  case Nil
  then show ?case by (subst c_strlen.simps) (simp add: str_at_Nil)
next
  case (Cons c s)
  then show ?case by (subst c_strlen.simps) (simp add: str_at_Cons)
qed

section \<open>Invariants of step relations\<close>

text \<open>The interface of a step relation that keeps a predicate; the process, the server and the two
  threads on the response buffer are its instances.\<close>

locale step_invariant =
  fixes rel :: "'s \<Rightarrow> 's \<Rightarrow> bool" and inv :: "'s \<Rightarrow> bool"
  assumes preserved: "rel s t \<Longrightarrow> inv s \<Longrightarrow> inv t"
begin

lemma always: "rel\<^sup>*\<^sup>* s t \<Longrightarrow> inv s \<Longrightarrow> inv t"
  by (induction rule: rtranclp_induct) (auto intro: preserved)

end

end
