(* ===== verification/Iscsi_Buffer.thy ===== *)
theory Iscsi_Buffer
  imports Iscsi_Prelude
begin

text \<open>
  \<^verbatim>\<open>iscsi_buffer.c\<close>, \<^verbatim>\<open>iscsi_buffer.h\<close>: the byte buffer between the socket and the PDU processing,
  one for each direction, with the semaphore that guards it. \<open>sem_wait\<close> on a semaphore at 0, and
  the retry loop of \<open>iscsi_buffer_acquire_lock_for_length\<close> on a buffer without the space, end only
  when another thread acts: they are \<open>Blocked\<close> (\<open>Iscsi_Interleaving\<close> has the rounds of that loop as
  steps). The lemmas show that the buffer is a bounded queue of
  bytes; the locale \<open>byte_queue\<close> is that contract, and its client lemma is the refinement of any
  run of buffer operations to the same run on a list.
\<close>

section \<open>State and operations\<close>

record iSCSIBuffer =
  blength :: cint
  block :: nat
  bdata :: mem

definition iscsi_buffer_new :: "iSCSIBuffer \<Rightarrow> iSCSIBuffer" where
  "iscsi_buffer_new buffer = buffer\<lparr>block := 1\<rparr>"

definition iscsi_buffer_length :: "iSCSIBuffer \<Rightarrow> cint" where
  "iscsi_buffer_length buffer = blength buffer"

definition iscsi_buffer_free_space :: "iSCSIBuffer \<Rightarrow> cint" where
  "iscsi_buffer_free_space buffer = word_of_int ISCSI_BUFFER_SIZE - blength buffer"

definition iscsi_buffer_data :: "iSCSIBuffer \<Rightarrow> cptr" where
  "iscsi_buffer_data buffer = \<lparr>blk = bdata buffer, bsz = nat ISCSI_BUFFER_SIZE, pos = 0\<rparr>"

definition iscsi_buffer_acquire_lock :: "iSCSIBuffer \<Rightarrow> iSCSIBuffer result" where
  "iscsi_buffer_acquire_lock buffer =
     (if block buffer = 0 then Inl Blocked else Inr (buffer\<lparr>block := block buffer - 1\<rparr>))"

definition iscsi_buffer_release_lock :: "iSCSIBuffer \<Rightarrow> cint \<Rightarrow> iSCSIBuffer" where
  "iscsi_buffer_release_lock buffer offset =
     buffer\<lparr>blength := blength buffer + offset, block := block buffer + 1\<rparr>"

text \<open>
  The result is \<open>None\<close> for the null pointer, otherwise the offset in \<open>data\<close> that the returned
  pointer has. A negative length reaches \<open>memset\<close> as a huge unsigned one.
\<close>

definition iscsi_buffer_acquire_lock_for_length ::
  "iSCSIBuffer \<Rightarrow> cint \<Rightarrow> (nat option \<times> iSCSIBuffer) result" where
  "iscsi_buffer_acquire_lock_for_length buffer len =
     (if sint len > ISCSI_BUFFER_SIZE then Inr (None, buffer)
      else bindR (iscsi_buffer_acquire_lock buffer) (\<lambda>buffer.
        if sint (iscsi_buffer_free_space buffer) < sint len then Inl Blocked
        else bindR (c_memset (bdata buffer) ISCSI_BUFFER_SIZE (sint (blength buffer)) 0 (sint len))
          (\<lambda>m. Inr (Some (nat (sint (blength buffer))), buffer\<lparr>bdata := m\<rparr>))))"

definition iscsi_buffer_receive :: "iSCSIBuffer \<Rightarrow> cptr \<Rightarrow> cint \<Rightarrow> (cint \<times> iSCSIBuffer) result" where
  "iscsi_buffer_receive buffer receive len =
     (if sint len > ISCSI_BUFFER_SIZE then Inr (-1, buffer)
      else bindR (iscsi_buffer_acquire_lock_for_length buffer len) (\<lambda>(p, buffer).
        case p of
          None \<Rightarrow> Inl NullPointer
        | Some p \<Rightarrow>
            bindR (c_memcpy (bdata buffer) ISCSI_BUFFER_SIZE (int p) receive (sint len)) (\<lambda>m.
              Inr (0, iscsi_buffer_release_lock (buffer\<lparr>bdata := m\<rparr>) len))))"

text \<open>The copying loop of \<open>iscsi_buffer_flush\<close> with \<open>k\<close> rounds left, at index \<open>i\<close>.\<close>

fun flush_loop :: "mem \<Rightarrow> nat \<Rightarrow> nat \<Rightarrow> int \<Rightarrow> mem result" where
  "flush_loop m i 0 n = Inr m"
| "flush_loop m i (Suc k) n =
     (if 0 \<le> int i + n \<and> int i + n < ISCSI_BUFFER_SIZE \<and> int i < ISCSI_BUFFER_SIZE
      then flush_loop (m(i := m (nat (int i + n)))) (Suc i) k n
      else Inl OutOfBounds)"

definition iscsi_buffer_flush :: "iSCSIBuffer \<Rightarrow> cint \<Rightarrow> iSCSIBuffer result" where
  "iscsi_buffer_flush buffer len =
     (if \<not> sint len \<le> sint (blength buffer) then Inl AssertFailed
      else bindR (iscsi_buffer_acquire_lock buffer) (\<lambda>buffer.
        bindR (flush_loop (bdata buffer) 0 (nat (sint (blength buffer - len))) (sint len)) (\<lambda>m.
          Inr (iscsi_buffer_release_lock (buffer\<lparr>bdata := m\<rparr>) (- len)))))"

section \<open>Invariant and abstraction\<close>

definition buffer_ok :: "iSCSIBuffer \<Rightarrow> bool" where
  "buffer_ok b \<longleftrightarrow> block b = 1 \<and> 0 \<le> sint (blength b) \<and> sint (blength b) \<le> ISCSI_BUFFER_SIZE"

definition fill :: "iSCSIBuffer \<Rightarrow> nat" where
  "fill b = nat (sint (blength b))"

definition contents :: "iSCSIBuffer \<Rightarrow> byte list" where
  "contents b = bytes_of (bdata b) 0 (fill b)"

definition room :: "iSCSIBuffer \<Rightarrow> nat \<Rightarrow> bool" where
  "room b n \<longleftrightarrow> buffer_ok b \<and> fill b + n \<le> 4194304"

lemma length_contents [simp]: "length (contents b) = fill b"
  by (simp add: contents_def)

lemma contents_nth: "i < fill b \<Longrightarrow> contents b ! i = bdata b i"
  by (simp add: contents_def)

lemma room_buffer_ok [dest]: "room b n \<Longrightarrow> buffer_ok b"
  by (simp add: room_def)

lemma sint_fill: "buffer_ok b \<Longrightarrow> sint (blength b) = int (fill b)"
  by (simp add: buffer_ok_def fill_def)

lemma fill_bound: "buffer_ok b \<Longrightarrow> fill b \<le> 4194304"
  by (simp add: buffer_ok_def fill_def nat_le_iff)

lemma sint_free_space:
  assumes "buffer_ok b"
  shows "sint (iscsi_buffer_free_space b) = 4194304 - int (fill b)"
  unfolding iscsi_buffer_free_space_def
  using fill_bound [OF assms] by (subst sint_minus) (simp_all add: sint_fill assms)

section \<open>Every operation on every branch\<close>

lemma acquire_too_long:
  "4194304 < sint len \<Longrightarrow> iscsi_buffer_acquire_lock_for_length b len = Inr (None, b)"
  by (simp add: iscsi_buffer_acquire_lock_for_length_def)

lemma acquire_ok:
  assumes "room b n" "sint len = int n"
  shows "iscsi_buffer_acquire_lock_for_length b len =
    Inr (Some (fill b), b\<lparr>block := 0, bdata := blit (bdata b) (fill b) (\<lambda>_. 0) n\<rparr>)"
proof -
  have b: "buffer_ok b" "fill b + n \<le> 4194304" using assms(1) by (auto simp: room_def)
  have l: "block b = 1" using b(1) by (simp add: buffer_ok_def)
  have f: "sint (iscsi_buffer_free_space (b\<lparr>block := 0\<rparr>)) = 4194304 - int (fill b)"
    using sint_free_space [OF b(1)] by (simp add: iscsi_buffer_free_space_def)
  show ?thesis
    using b l f assms(2)
    by (simp add: iscsi_buffer_acquire_lock_for_length_def iscsi_buffer_acquire_lock_def
        sint_fill c_memset_ok)
qed

lemma acquire_blocked:
  assumes "buffer_ok b" "sint len \<le> 4194304" "4194304 < int (fill b) + sint len"
  shows "iscsi_buffer_acquire_lock_for_length b len = Inl Blocked"
proof -
  have "sint (iscsi_buffer_free_space (b\<lparr>block := 0\<rparr>)) = 4194304 - int (fill b)"
    using sint_free_space [OF assms(1)] by (simp add: iscsi_buffer_free_space_def)
  then show ?thesis
    using assms by (simp add: iscsi_buffer_acquire_lock_for_length_def
        iscsi_buffer_acquire_lock_def buffer_ok_def)
qed

text \<open>A holder that never posts the semaphore stops every later operation.\<close>

lemma acquire_no_lock:
  "block b = 0 \<Longrightarrow> sint len \<le> 4194304 \<Longrightarrow> iscsi_buffer_acquire_lock_for_length b len = Inl Blocked"
  by (simp add: iscsi_buffer_acquire_lock_for_length_def iscsi_buffer_acquire_lock_def)

lemma release_ok:
  assumes "block b = 0" "0 \<le> sint (blength b)" "fill b + n \<le> 4194304" "sint len = int n"
  shows "buffer_ok (iscsi_buffer_release_lock b len)"
    and "fill (iscsi_buffer_release_lock b len) = fill b + n"
    and "contents (iscsi_buffer_release_lock b len) = contents b @ bytes_of (bdata b) (fill b) n"
proof -
  have s: "sint (blength b) = int (fill b)" using assms(2) by (simp add: fill_def)
  then have *: "sint (blength b + len) = int (fill b) + int n"
    using assms by (simp add: c_arith)
  show "buffer_ok (iscsi_buffer_release_lock b len)"
    using assms * by (simp add: iscsi_buffer_release_lock_def buffer_ok_def)
  show f: "fill (iscsi_buffer_release_lock b len) = fill b + n"
    using * by (simp add: iscsi_buffer_release_lock_def fill_def [of "_ \<lparr> blength := _ , block := _ \<rparr>"])
  show "contents (iscsi_buffer_release_lock b len) = contents b @ bytes_of (bdata b) (fill b) n"
    unfolding contents_def f by (simp add: bytes_of_append iscsi_buffer_release_lock_def)
qed

lemma receive_too_long: "4194304 < sint len \<Longrightarrow> iscsi_buffer_receive b src len = Inr (-1, b)"
  by (simp add: iscsi_buffer_receive_def)

lemma receive_blocked:
  "buffer_ok b \<Longrightarrow> sint len \<le> 4194304 \<Longrightarrow> 4194304 < int (fill b) + sint len
   \<Longrightarrow> iscsi_buffer_receive b src len = Inl Blocked"
  by (simp add: iscsi_buffer_receive_def acquire_blocked)

lemma receive_ok:
  assumes "room b n" "sint len = int n" "pos src + n \<le> bsz src"
  obtains b' where "iscsi_buffer_receive b src len = Inr (0, b')" "buffer_ok b'"
    "contents b' = contents b @ bytes_of (blk src) (pos src) n"
proof -
  have r: "fill b + n \<le> 4194304" "buffer_ok b" using assms(1) by (auto simp: room_def)
  define m where "m = blit (blit (bdata b) (fill b) (\<lambda>_. 0) n) (fill b) (\<lambda>i. blk src (pos src + i)) n"
  define b1 where "b1 = b\<lparr>block := 0, bdata := m\<rparr>"
  have b1: "fill b1 = fill b" "block b1 = 0" "0 \<le> sint (blength b1)" "bdata b1 = m"
    using r(2) by (simp_all add: b1_def fill_def buffer_ok_def)
  have eq: "iscsi_buffer_receive b src len = Inr (0, iscsi_buffer_release_lock b1 len)"
    using assms r by (simp add: iscsi_buffer_receive_def acquire_ok c_memcpy_ok m_def b1_def)
  have "contents b1 = contents b"
    unfolding contents_def b1 by (rule bytes_of_cong) (simp add: m_def blit_out)
  moreover have "bytes_of (bdata b1) (fill b1) n = bytes_of (blk src) (pos src) n"
    unfolding b1 by (rule nth_equalityI) (auto simp: m_def)
  ultimately show thesis
    using that [OF eq] release_ok [of b1 n len] b1 r assms(2) by simp
qed

lemma flush_loop_blit:
  "i + k + n \<le> 4194304 \<Longrightarrow> flush_loop m i k (int n) = Inr (blit m i (\<lambda>j. m (i + j + n)) k)"
proof (induction k arbitrary: i m)
  case (Suc k)
  let ?m = "m(i := m (i + n))"
  have "nat (int i + int n) = i + n" by simp
  then have "flush_loop m i (Suc k) (int n) = flush_loop ?m (Suc i) k (int n)"
    using Suc.prems by simp
  also have "\<dots> = Inr (blit ?m (Suc i) (\<lambda>j. ?m (Suc i + j + n)) k)"
    using Suc.prems by (intro Suc.IH) simp
  also have "blit ?m (Suc i) (\<lambda>j. ?m (Suc i + j + n)) k = blit m i (\<lambda>j. m (i + j + n)) (Suc k)"
    by (rule ext) (auto simp: blit_def)
  finally show ?case .
qed simp

lemma flush_assert:
  "sint (blength b) < sint len \<Longrightarrow> iscsi_buffer_flush b len = Inl AssertFailed"
  by (simp add: iscsi_buffer_flush_def)

lemma flush_ok:
  assumes "buffer_ok b" "sint len = int n" "n \<le> fill b"
  obtains b' where "iscsi_buffer_flush b len = Inr b'" "buffer_ok b'"
    "contents b' = drop n (contents b)"
proof -
  have f: "fill b \<le> 4194304" using assms(1) by (rule fill_bound)
  have d: "sint (blength b - len) = int (fill b - n)"
    using assms f by (simp add: c_arith sint_fill of_nat_diff)
  define m where "m = blit (bdata b) 0 (\<lambda>j. bdata b (j + n)) (fill b - n)"
  define b' where "b' = iscsi_buffer_release_lock (b\<lparr>block := 0, bdata := m\<rparr>) (- len)"
  have loop: "flush_loop (bdata b) 0 (fill b - n) (int n) = Inr m"
    unfolding m_def using f assms(3) by (subst flush_loop_blit) simp_all
  have "block b = 1" using assms(1) by (simp add: buffer_ok_def)
  moreover have "sint len \<le> sint (blength b)" using assms by (simp add: sint_fill)
  ultimately have eq: "iscsi_buffer_flush b len = Inr b'"
    by (simp add: iscsi_buffer_flush_def iscsi_buffer_acquire_lock_def d loop assms(2) b'_def
        del: of_nat_diff)
  have l: "blength b' = blength b - len" "block b' = 1" "bdata b' = m"
    by (simp_all add: b'_def iscsi_buffer_release_lock_def)
  then have fl: "fill b' = fill b - n" using d by (simp add: fill_def)
  have ok: "buffer_ok b'" using l d f by (simp add: buffer_ok_def)
  have "contents b' = drop n (contents b)"
    unfolding contents_def fl l drop_bytes_of
    by (rule bytes_of_cong) (simp add: m_def blit_in add.commute)
  with that eq ok show thesis by blast
qed

section \<open>The contract: a bounded queue of bytes\<close>

text \<open>
  The reference is a list with a capacity. \<open>run_ops\<close> performs a sequence of operations on any
  implementation, \<open>enqueued\<close> and \<open>dequeued\<close> are the bytes put in and the number taken out.
\<close>

datatype qop = Enq "byte list" | Deq nat

fun run_ops :: "('q \<Rightarrow> byte list \<Rightarrow> 'q result) \<Rightarrow> ('q \<Rightarrow> nat \<Rightarrow> 'q result) \<Rightarrow> 'q \<Rightarrow> qop list \<Rightarrow> 'q result" where
  "run_ops enq deq q [] = Inr q"
| "run_ops enq deq q (Enq xs # ops) = bindR (enq q xs) (\<lambda>q. run_ops enq deq q ops)"
| "run_ops enq deq q (Deq n # ops) = bindR (deq q n) (\<lambda>q. run_ops enq deq q ops)"

definition list_put :: "nat \<Rightarrow> byte list \<Rightarrow> byte list \<Rightarrow> byte list result" where
  "list_put cap q xs = (if length q + length xs \<le> cap then Inr (q @ xs) else Inl Blocked)"

definition list_drop :: "byte list \<Rightarrow> nat \<Rightarrow> byte list result" where
  "list_drop q n = (if n \<le> length q then Inr (drop n q) else Inl AssertFailed)"

fun enqueued :: "qop list \<Rightarrow> byte list" where
  "enqueued [] = []"
| "enqueued (Enq xs # ops) = xs @ enqueued ops"
| "enqueued (Deq n # ops) = enqueued ops"

fun dequeued :: "qop list \<Rightarrow> nat" where
  "dequeued [] = 0"
| "dequeued (Enq xs # ops) = dequeued ops"
| "dequeued (Deq n # ops) = n + dequeued ops"

fun short_ops :: "nat \<Rightarrow> qop list \<Rightarrow> bool" where
  "short_ops cap [] = True"
| "short_ops cap (Enq xs # ops) = (length xs \<le> cap \<and> short_ops cap ops)"
| "short_ops cap (Deq n # ops) = (n \<le> cap \<and> short_ops cap ops)"

lemma list_run_fifo:
  "run_ops (list_put cap) list_drop q ops = Inr q' \<Longrightarrow> q' = drop (dequeued ops) (q @ enqueued ops)"
proof (induction "list_put cap" list_drop q ops rule: run_ops.induct)
  case (2 q xs ops)
  then show ?case by (auto simp: list_put_def split: if_splits)
next
  case (3 q n ops)
  then show ?case by (auto simp: list_drop_def add.commute split: if_splits)
qed simp

locale byte_queue =
  fixes bytes :: "'q \<Rightarrow> byte list"
    and inv :: "'q \<Rightarrow> bool"
    and cap :: nat
    and enq :: "'q \<Rightarrow> byte list \<Rightarrow> 'q result"
    and deq :: "'q \<Rightarrow> nat \<Rightarrow> 'q result"
  assumes enq_refines: "inv q \<Longrightarrow> length xs \<le> cap \<Longrightarrow>
      map_sum id bytes (enq q xs) = list_put cap (bytes q) xs"
    and enq_inv: "inv q \<Longrightarrow> length xs \<le> cap \<Longrightarrow> enq q xs = Inr q' \<Longrightarrow> inv q'"
    and deq_refines: "inv q \<Longrightarrow> n \<le> cap \<Longrightarrow> map_sum id bytes (deq q n) = list_drop (bytes q) n"
    and deq_inv: "inv q \<Longrightarrow> n \<le> cap \<Longrightarrow> deq q n = Inr q' \<Longrightarrow> inv q'"
begin

lemma run_refines:
  "inv q \<Longrightarrow> short_ops cap ops \<Longrightarrow>
   map_sum id bytes (run_ops enq deq q ops) = run_ops (list_put cap) list_drop (bytes q) ops"
proof (induction ops arbitrary: q)
  case (Cons op ops)
  show ?case
  proof (cases op)
    case (Enq xs)
    with Cons.prems have r: "map_sum id bytes (enq q xs) = list_put cap (bytes q) xs"
      by (simp add: enq_refines)
    show ?thesis
    proof (cases "enq q xs")
      case (Inr q1)
      with Enq r Cons show ?thesis by (simp add: enq_inv [of q xs q1] flip: r)
    qed (use Enq r [symmetric] in simp)
  next
    case (Deq n)
    with Cons.prems have r: "map_sum id bytes (deq q n) = list_drop (bytes q) n"
      by (simp add: deq_refines)
    show ?thesis
    proof (cases "deq q n")
      case (Inr q1)
      with Deq r Cons show ?thesis by (simp add: deq_inv [of q n q1] flip: r)
    qed (use Deq r [symmetric] in simp)
  qed
qed simp

lemma run_fifo:
  assumes "inv q" "short_ops cap ops" "run_ops enq deq q ops = Inr q'"
  shows "bytes q' = drop (dequeued ops) (bytes q @ enqueued ops)"
  using list_run_fifo [of cap "bytes q" ops "bytes q'"] run_refines [OF assms(1,2)] assms(3)
  by simp

end

text \<open>The operations as the receiver and the transmitter call them, with lengths below the capacity.\<close>

definition buffer_put :: "iSCSIBuffer \<Rightarrow> byte list \<Rightarrow> iSCSIBuffer result" where
  "buffer_put b xs = map_sum id snd (iscsi_buffer_receive b (lit xs) (word_of_nat (length xs)))"

definition buffer_drop :: "iSCSIBuffer \<Rightarrow> nat \<Rightarrow> iSCSIBuffer result" where
  "buffer_drop b n = iscsi_buffer_flush b (word_of_nat n)"

lemma bytes_of_lit: "bytes_of (blk (lit xs)) (pos (lit xs)) (length xs) = xs"
  by (rule nth_equalityI) (auto simp: lit_def mem_of_def)

lemma buffer_put_cases:
  assumes "buffer_ok b" "length xs \<le> 4194304"
  shows "(fill b + length xs \<le> 4194304 \<longrightarrow>
      (\<exists>b'. buffer_put b xs = Inr b' \<and> buffer_ok b' \<and> contents b' = contents b @ xs))
    \<and> (4194304 < fill b + length xs \<longrightarrow> buffer_put b xs = Inl Blocked)"
proof -
  have l: "sint (word_of_nat (length xs) :: cint) = int (length xs)"
    using assms(2) by (intro sint_of_nat) simp
  show ?thesis
  proof (cases "fill b + length xs \<le> 4194304")
    case True
    with assms(1) have r: "room b (length xs)" by (simp add: room_def)
    have p: "pos (lit xs) + length xs \<le> bsz (lit xs)" by (simp add: lit_def)
    from receive_ok [OF r l p] obtain b' where "iscsi_buffer_receive b (lit xs) (word_of_nat (length xs)) = Inr (0, b')"
      "buffer_ok b'" "contents b' = contents b @ bytes_of (blk (lit xs)) (pos (lit xs)) (length xs)"
      by blast
    with True show ?thesis by (simp add: buffer_put_def bytes_of_lit)
  next
    case False
    with assms l have "iscsi_buffer_receive b (lit xs) (word_of_nat (length xs)) = Inl Blocked"
      by (intro receive_blocked) simp_all
    with False show ?thesis by (simp add: buffer_put_def)
  qed
qed

lemma buffer_drop_cases:
  assumes "buffer_ok b" "n \<le> 4194304"
  shows "(n \<le> fill b \<longrightarrow>
      (\<exists>b'. buffer_drop b n = Inr b' \<and> buffer_ok b' \<and> contents b' = drop n (contents b)))
    \<and> (fill b < n \<longrightarrow> buffer_drop b n = Inl AssertFailed)"
proof -
  have l: "sint (word_of_nat n :: cint) = int n"
    using assms(2) by (intro sint_of_nat) simp
  show ?thesis
  proof (cases "n \<le> fill b")
    case True
    with assms(1) l obtain b' where "iscsi_buffer_flush b (word_of_nat n) = Inr b'"
      "buffer_ok b'" "contents b' = drop n (contents b)" by (rule flush_ok)
    with True show ?thesis by (simp add: buffer_drop_def)
  next
    case False
    with assms l show ?thesis by (simp add: buffer_drop_def flush_assert sint_fill)
  qed
qed

interpretation iscsi_queue: byte_queue contents buffer_ok 4194304 buffer_put buffer_drop
proof unfold_locales
  fix b and xs :: "byte list" assume "buffer_ok b" "length xs \<le> 4194304"
  then show "map_sum id contents (buffer_put b xs) = list_put 4194304 (contents b) xs"
    using buffer_put_cases [of b xs]
    by (cases "fill b + length xs \<le> 4194304") (auto simp: list_put_def)
next
  fix b b' and xs :: "byte list" assume "buffer_ok b" "length xs \<le> 4194304" "buffer_put b xs = Inr b'"
  then show "buffer_ok b'"
    using buffer_put_cases [of b xs] by (cases "fill b + length xs \<le> 4194304") auto
next
  fix b and n :: nat assume "buffer_ok b" "n \<le> 4194304"
  then show "map_sum id contents (buffer_drop b n) = list_drop (contents b) n"
    using buffer_drop_cases [of b n] by (cases "n \<le> fill b") (auto simp: list_drop_def)
next
  fix b b' and n :: nat assume "buffer_ok b" "n \<le> 4194304" "buffer_drop b n = Inr b'"
  then show "buffer_ok b'"
    using buffer_drop_cases [of b n] by (cases "n \<le> fill b") auto
qed

end
