(* ===== verification/Iscsi_Utility.thy ===== *)
theory Iscsi_Utility
  imports Iscsi_Prelude
begin

text \<open>
  \<^verbatim>\<open>iscsi_utility.c\<close>: rounding division, minimum and maximum, and the conversions between an \<open>int\<close>
  and its decimal digits. \<open>string_to_int\<close> reads to the NUL wherever it is and checks no digit;
  \<open>int_to_string\<close> writes the static array of 20 bytes. The lemmas read the results as integers,
  and show the conversions to be inverse on the non-negative values.
\<close>

definition c_quot :: "cint \<Rightarrow> cint \<Rightarrow> cint" where
  "c_quot a b = word_of_int (sint a sdiv sint b)"

definition c_rem :: "cint \<Rightarrow> cint \<Rightarrow> cint" where
  "c_rem a b = word_of_int (sint a smod sint b)"

text \<open>The division instruction traps on 0 and on the one quotient that is no \<open>int\<close>.\<close>

definition c_div :: "cint \<Rightarrow> cint \<Rightarrow> cint result" where
  "c_div a b =
     (if b = 0 then Inl DivideByZero
      else if sint a = - 2147483648 \<and> sint b = - 1 then Inl DivideOverflow
      else Inr (c_quot a b))"

definition divide_round_up :: "cint \<Rightarrow> cint \<Rightarrow> cint result" where
  "divide_round_up a b = c_div (a + b - 1) b"

definition c_min :: "cint \<Rightarrow> cint \<Rightarrow> cint" where
  "c_min a b = (if sint a < sint b then a else b)"

definition c_max :: "cint \<Rightarrow> cint \<Rightarrow> cint" where
  "c_max a b = (if sint a > sint b then a else b)"

lemma sint_c_min [simp]: "sint (c_min a b) = min (sint a) (sint b)"
  by (simp add: c_min_def)

lemma sint_c_max [simp]: "sint (c_max a b) = max (sint a) (sint b)"
  by (simp add: c_max_def)

lemma divide_round_up_spec:
  assumes "0 \<le> sint a" "0 < sint b" "sint a + sint b \<le> 2147483647"
  shows "\<exists>q. divide_round_up a b = Inr q \<and> sint q = (sint a + sint b - 1) div sint b"
proof -
  have s: "sint (a + b - 1) = sint a + sint b - 1"
    using assms by (simp add: c_arith)
  have nz: "b \<noteq> 0" using assms(2) by auto
  have "(sint a + sint b - 1) div sint b \<le> sint a + sint b - 1"
    using assms by (intro zdiv_mono2 [where b' = 1, simplified]) auto
  moreover have "0 \<le> (sint a + sint b - 1) div sint b"
    using assms by (simp add: pos_imp_zdiv_nonneg_iff)
  ultimately have "sint (word_of_int ((sint a + sint b - 1) div sint b) :: cint)
      = (sint a + sint b - 1) div sint b"
    using assms by (intro sint_of_int) auto
  then show ?thesis
    using assms nz s by (simp add: divide_round_up_def c_div_def c_quot_def signed_divide_int_def sgn_if)
qed

section \<open>Decimal strings\<close>

function string_to_int_loop :: "cptr \<Rightarrow> cint \<Rightarrow> cint result" where
  "string_to_int_loop s val =
     (if pos s < bsz s then
        (let b = blk s (pos s) in
         if b \<noteq> 0 then string_to_int_loop (padd s 1) (10 * val + ucast b - 48) else Inr val)
      else Inl OutOfBounds)"
  by pat_completeness auto
termination
  by (relation "measure (\<lambda>(s, val). bsz s - pos s)") auto

declare string_to_int_loop.simps [simp del]

definition string_to_int :: "cptr \<Rightarrow> cint result" where
  "string_to_int s = string_to_int_loop s 0"

text \<open>The digit value of a string as C computes it, wrap-around and non-digits included.\<close>

fun digits_value :: "cint \<Rightarrow> byte list \<Rightarrow> cint" where
  "digits_value v [] = v"
| "digits_value v (c # cs) = digits_value (10 * v + ucast c - 48) cs"

lemma digits_value_append: "digits_value v (xs @ ys) = digits_value (digits_value v xs) ys"
  by (induction xs arbitrary: v) auto

lemma string_to_int_loop_str: "str_at p s \<Longrightarrow> string_to_int_loop p v = Inr (digits_value v s)"
proof (induction s arbitrary: p v)
  case Nil
  then show ?case by (subst string_to_int_loop.simps) (simp add: str_at_Nil)
next
  case (Cons c s)
  then show ?case by (subst string_to_int_loop.simps) (simp add: str_at_Cons)
qed

lemma string_to_int_str: "str_at p s \<Longrightarrow> string_to_int p = Inr (digits_value 0 s)"
  by (simp add: string_to_int_def string_to_int_loop_str)

text \<open>Without a NUL before the end of its array the loop runs off the array.\<close>

lemma string_to_int_loop_no_nul:
  "\<forall>i. pos p \<le> i \<and> i < bsz p \<longrightarrow> blk p i \<noteq> 0 \<Longrightarrow> string_to_int_loop p v = Inl OutOfBounds"
proof (induction p v rule: string_to_int_loop.induct)
  case (1 p v)
  then show ?case by (subst string_to_int_loop.simps) auto
qed

section \<open>Decimal output\<close>

text \<open>
  The first loop of \<open>int_to_string\<close> counts the digits, the second writes them backwards from the
  NUL. Neither loop runs for a negative number, whose string is empty.
\<close>

lemma sint_quot_10: "0 \<le> sint i \<Longrightarrow> sint (c_quot i 10) = sint i div 10"
  using sint_bounds [of i]
  by (simp add: c_quot_def signed_divide_int_def sgn_if c_arith)

lemma nat_quot_10: "0 \<le> sint i \<Longrightarrow> nat (sint (c_quot i 10)) = nat (sint i) div 10"
  by (simp add: sint_quot_10 nat_div_distrib)

lemma quot_10_less: "0 < sint i \<Longrightarrow> nat (sint (c_quot i 10)) < nat (sint i)"
  by (simp add: nat_quot_10)

function digit_count :: "cint \<Rightarrow> nat" where
  "digit_count i = (if sint i > 0 then Suc (digit_count (c_quot i 10)) else 0)"
  by pat_completeness auto
termination
  by (relation "measure (\<lambda>i. nat (sint i))") (use quot_10_less in auto)

function put_digits :: "mem \<Rightarrow> nat \<Rightarrow> cint \<Rightarrow> mem" where
  "put_digits buffer len i =
     (if sint i > 0
      then put_digits (buffer(len - 1 := ucast (c_rem i 10 + 48))) (len - 1) (c_quot i 10)
      else buffer)"
  by pat_completeness auto
termination
  by (relation "measure (\<lambda>(buffer, len, i). nat (sint i))") (use quot_10_less in auto)

declare digit_count.simps [simp del] put_digits.simps [simp del]

definition int_to_string :: "mem \<Rightarrow> cint \<Rightarrow> mem" where
  "int_to_string buffer s =
     (if s = 0 then buffer(0 := 48, 1 := 0)
      else (let len = digit_count s in put_digits (buffer(len := 0)) len s))"

text \<open>A pointer to the static array of \<open>int_to_string\<close>.\<close>

definition static_ptr :: "mem \<Rightarrow> cptr" where
  "static_ptr buffer = \<lparr>blk = buffer, bsz = 20, pos = 0\<rparr>"

text \<open>The reference: the decimal digits of a positive number, and no digit for 0.\<close>

fun dec :: "nat \<Rightarrow> byte list" where
  "dec n = (if n = 0 then [] else dec (n div 10) @ [of_nat (n mod 10 + 48)])"

declare dec.simps [simp del]

lemma dec_0 [simp]: "dec 0 = []"
  by (simp add: dec.simps)

lemma dec_pos: "0 < n \<Longrightarrow> dec n = dec (n div 10) @ [of_nat (n mod 10 + 48)]"
  by (subst dec.simps) simp

definition decimal :: "nat \<Rightarrow> byte list" where
  "decimal n = (if n = 0 then [48] else dec n)"

lemma digit_count_dec: "digit_count i = length (dec (nat (sint i)))"
proof (induction i rule: digit_count.induct)
  case (1 i)
  then show ?case
    by (subst digit_count.simps) (auto simp: dec_pos nat_quot_10)
qed

lemma rem_10_digit:
  assumes "0 < sint i"
  shows "(ucast (c_rem i 10 + 48) :: byte) = of_nat (nat (sint i) mod 10 + 48)"
proof -
  have "sint i smod 10 = sint i mod 10"
    using assms
    by (simp add: signed_modulo_int_def signed_divide_int_def sgn_if minus_div_mult_eq_mod)
  also have "\<dots> = int (nat (sint i) mod 10)"
    using assms by (simp add: zmod_int)
  finally have "c_rem i 10 = word_of_nat (nat (sint i) mod 10)"
    by (simp add: c_rem_def)
  then have "c_rem i 10 + 48 = word_of_nat (nat (sint i) mod 10 + 48)"
    by simp
  then show ?thesis
    by (simp only: unsigned_of_nat) (simp add: take_bit_nat_eq_self)
qed

lemma put_digits_dec:
  "put_digits m (length (dec (nat (sint i)))) i
     = blit m 0 (\<lambda>j. dec (nat (sint i)) ! j) (length (dec (nat (sint i))))"
proof (induction "nat (sint i)" arbitrary: i m rule: less_induct)
  case less
  show ?case
  proof (cases "sint i > 0")
    case True
    define L where "L = length (dec (nat (sint i) div 10))"
    have d: "dec (nat (sint i)) = dec (nat (sint i) div 10) @ [of_nat (nat (sint i) mod 10 + 48)]"
      using True by (intro dec_pos) simp
    from less [OF quot_10_less [OF True], of "m(L := of_nat (nat (sint i) mod 10 + 48))"] True
    have "put_digits m (Suc L) i = blit (m(L := of_nat (nat (sint i) mod 10 + 48))) 0
        (\<lambda>j. dec (nat (sint i) div 10) ! j) L"
      by (subst put_digits.simps) (simp add: L_def nat_quot_10 rem_10_digit)
    also have "\<dots> = blit m 0 (\<lambda>j. dec (nat (sint i)) ! j) (Suc L)"
      unfolding d by (rule ext) (auto simp: blit_def L_def nth_append)
    finally show ?thesis by (simp add: d L_def)
  next
    case False
    then show ?thesis by (subst put_digits.simps) simp
  qed
qed

lemma dec_no_nul: "0 \<notin> set (dec n)"
proof (induction n rule: dec.induct)
  case (1 n)
  have "\<not> 256 dvd n mod 10 + 48"
    by (rule nat_dvd_not_less) (auto intro: order_less_le_trans [of _ 58])
  then have "(of_nat (n mod 10 + 48) :: byte) \<noteq> 0"
    by (subst word_of_nat_eq_0_iff) simp
  with 1 show ?case by (subst dec.simps) auto
qed

lemma length_dec: "n < 10 ^ k \<Longrightarrow> length (dec n) \<le> k"
proof (induction k arbitrary: n)
  case (Suc k)
  then have "n div 10 < 10 ^ k" by (simp add: less_mult_imp_div_less mult.commute)
  with Suc.IH show ?case by (subst dec.simps) auto
qed simp

lemma digits_value_dec: "digits_value 0 (dec n) = of_nat n"
proof (induction n rule: dec.induct)
  case (1 n)
  have u: "(ucast (of_nat (n mod 10 + 48) :: byte) :: cint) = of_nat (n mod 10 + 48)"
    by (simp only: unsigned_of_nat) (simp add: take_bit_nat_eq_self)
  have "(10 * of_nat (n div 10) + of_nat (n mod 10) :: cint) = of_nat n"
    by (metis mult_div_mod_eq of_nat_add of_nat_mult of_nat_numeral)
  with 1 u show ?case by (subst dec.simps) (auto simp: digits_value_append)
qed

lemma decimal_no_nul: "0 \<notin> set (decimal n)"
  by (simp add: decimal_def dec_no_nul)

lemma digits_value_decimal: "digits_value 0 (decimal n) = of_nat n"
  by (simp add: decimal_def digits_value_dec)

lemma nat_sint_dec_length: "length (dec (nat (sint (s :: cint)))) \<le> 10"
  using sint_bounds [of s] by (intro length_dec) auto

lemma int_to_string_str:
  assumes "0 \<le> sint s"
  shows "str_at (static_ptr (int_to_string m s)) (decimal (nat (sint s)))"
proof (cases "s = 0")
  case True
  then show ?thesis by (simp add: str_at_def static_ptr_def int_to_string_def decimal_def)
next
  case False
  then have "sint s \<noteq> 0" by (simp add: signed_eq_0_iff)
  with False assms show ?thesis
    using nat_sint_dec_length [of s] dec_no_nul [of "nat (sint s)"]
    by (simp add: str_at_def static_ptr_def int_to_string_def decimal_def Let_def
        digit_count_dec put_digits_dec blit_def)
qed

lemma int_to_string_neg:
  assumes "sint s < 0"
  shows "str_at (static_ptr (int_to_string m s)) []"
  using assms
  by (auto simp: str_at_def static_ptr_def int_to_string_def Let_def digit_count.simps [of s]
      put_digits.simps)

text \<open>A number survives being printed and read back; a negative number comes back as 0.\<close>

lemma string_to_int_int_to_string:
  "string_to_int (static_ptr (int_to_string m s)) = Inr (if 0 \<le> sint s then s else 0)"
proof (cases "0 \<le> sint s")
  case True
  then have "digits_value 0 (decimal (nat (sint s))) = s"
    by (simp add: digits_value_decimal)
  with True string_to_int_str [OF int_to_string_str [OF True]] show ?thesis by simp
next
  case False
  then show ?thesis using string_to_int_str [OF int_to_string_neg] by simp
qed

end
