(* ===== verification/Iscsi_Parameter.thy ===== *)
theory Iscsi_Parameter
  imports Iscsi_Utility "HOL-Library.Sublist"
begin

text \<open>
  \<^verbatim>\<open>iscsi_connection_parameter.c\<close>: the login parameters of a connection, their \<open>key=value\<close> text, and
  the scanner that looks a key up. The lemmas: the values every parameter stays within however the
  text is chosen, the restoration of the text that \<open>iscsi_connection_parameter_create\<close> writes
  into while it scans, the exact meaning of \<open>iscsi_parameter_get\<close>, and the text that
  \<open>iscsi_connection_parameter_generate_operational_data\<close> builds.
\<close>

section \<open>Keys, symbols and the parameter record\<close>

definition MAX_RECEIVE_DATA_SEGMENT :: "byte list" where
  "MAX_RECEIVE_DATA_SEGMENT = cstr ''MaxRecvDataSegmentLength''"
definition MAX_CONNECTIONS :: "byte list" where
  "MAX_CONNECTIONS = cstr ''MaxConnections''"
definition INITIAL_R2T :: "byte list" where
  "INITIAL_R2T = cstr ''InitialR2T''"
definition IMMEDIATE_DATA :: "byte list" where
  "IMMEDIATE_DATA = cstr ''ImmediateData''"
definition MAX_BURST_LENGTH :: "byte list" where
  "MAX_BURST_LENGTH = cstr ''MaxBurstLength''"
definition FIRST_BURST_LENGTH :: "byte list" where
  "FIRST_BURST_LENGTH = cstr ''FirstBurstLength''"
definition DATA_PDU_IN_ORDER :: "byte list" where
  "DATA_PDU_IN_ORDER = cstr ''DataPDUInOrder''"
definition DATA_SEQUENCE_IN_ORDER :: "byte list" where
  "DATA_SEQUENCE_IN_ORDER = cstr ''DataSequenceInOrder''"
definition DEFAULT_TIME_2_WAIT :: "byte list" where
  "DEFAULT_TIME_2_WAIT = cstr ''DefaultTime2Wait''"
definition DEFAULT_TIME_2_RETAIN :: "byte list" where
  "DEFAULT_TIME_2_RETAIN = cstr ''DefaultTime2Retain''"
definition MAX_OUTSTANDING_R2T :: "byte list" where
  "MAX_OUTSTANDING_R2T = cstr ''MaxOutstandingR2T''"

datatype connection_parameter_symbol = EQUAL | KEY | SEPARATOR | VALUE

record iSCSIConnectionParameter =
  pbuffer :: mem
  plength :: cint
  max_receive_data_segment_length :: cint
  max_connections :: cint
  initial_r2t :: cint
  immediate_data :: cint
  max_burst_length :: cint
  first_burst_length :: cint
  data_pdu_in_order :: cint
  data_sequence_in_order :: cint
  default_time_2_wait :: cint
  default_time_2_retain :: cint
  max_outstanding_r2t :: cint

text \<open>The inline functions that read a field; the simplifier opens them.\<close>

definition iscsi_connection_parameter_max_receive_data_segment_length :: "iSCSIConnectionParameter \<Rightarrow> cint" where
  [simp]: "iscsi_connection_parameter_max_receive_data_segment_length = max_receive_data_segment_length"

definition iscsi_connection_parameter_max_connections :: "iSCSIConnectionParameter \<Rightarrow> cint" where
  [simp]: "iscsi_connection_parameter_max_connections = max_connections"

definition iscsi_connection_parameter_initial_r2t :: "iSCSIConnectionParameter \<Rightarrow> cint" where
  [simp]: "iscsi_connection_parameter_initial_r2t = initial_r2t"

definition iscsi_connection_parameter_immediate_data :: "iSCSIConnectionParameter \<Rightarrow> cint" where
  [simp]: "iscsi_connection_parameter_immediate_data = immediate_data"

definition iscsi_connection_parameter_max_burst_length :: "iSCSIConnectionParameter \<Rightarrow> cint" where
  [simp]: "iscsi_connection_parameter_max_burst_length = max_burst_length"

definition iscsi_connection_parameter_first_burst_length :: "iSCSIConnectionParameter \<Rightarrow> cint" where
  [simp]: "iscsi_connection_parameter_first_burst_length = first_burst_length"

definition iscsi_connection_parameter_data_pdu_in_order :: "iSCSIConnectionParameter \<Rightarrow> cint" where
  [simp]: "iscsi_connection_parameter_data_pdu_in_order = data_pdu_in_order"

definition iscsi_connection_parameter_data_sequence_in_order :: "iSCSIConnectionParameter \<Rightarrow> cint" where
  [simp]: "iscsi_connection_parameter_data_sequence_in_order = data_sequence_in_order"

definition iscsi_connection_parameter_default_time_2_wait :: "iSCSIConnectionParameter \<Rightarrow> cint" where
  [simp]: "iscsi_connection_parameter_default_time_2_wait = default_time_2_wait"

definition iscsi_connection_parameter_default_time_2_retain :: "iSCSIConnectionParameter \<Rightarrow> cint" where
  [simp]: "iscsi_connection_parameter_default_time_2_retain = default_time_2_retain"

definition iscsi_connection_parameter_max_outstanding_r2t :: "iSCSIConnectionParameter \<Rightarrow> cint" where
  [simp]: "iscsi_connection_parameter_max_outstanding_r2t = max_outstanding_r2t"

lemmas parameter_getters =
  iscsi_connection_parameter_max_receive_data_segment_length_def iscsi_connection_parameter_max_connections_def
  iscsi_connection_parameter_initial_r2t_def iscsi_connection_parameter_immediate_data_def
  iscsi_connection_parameter_max_burst_length_def iscsi_connection_parameter_first_burst_length_def
  iscsi_connection_parameter_data_pdu_in_order_def iscsi_connection_parameter_data_sequence_in_order_def
  iscsi_connection_parameter_default_time_2_wait_def iscsi_connection_parameter_default_time_2_retain_def
  iscsi_connection_parameter_max_outstanding_r2t_def

section \<open>Updating one parameter\<close>

fun key_equal :: "cptr \<Rightarrow> byte list \<Rightarrow> bool result" where
  "key_equal key [] = Inr True"
| "key_equal key (c # prop) =
     bindR (rd key 0) (\<lambda>b. if b \<noteq> c then Inr False else key_equal (padd key 1) prop)"

definition bool_to_string :: "cint \<Rightarrow> byte list" where
  "bool_to_string b = (if b \<noteq> 0 then cstr ''YES'' else cstr ''NO'')"

definition set_default_parameter :: "iSCSIConnectionParameter \<Rightarrow> iSCSIConnectionParameter" where
  "set_default_parameter parameter = parameter\<lparr>
     max_receive_data_segment_length := word_of_int ISCSI_CONNECTION_PARAMETER_BUFFER_SIZE,
     max_connections := ISCSI_CONNECTION_PARAMETER_MAX_CONNECTIONS,
     initial_r2t := ISCSI_CONNECTION_PARAMETER_INITIAL_R2T,
     immediate_data := ISCSI_CONNECTION_PARAMETER_IMMEDIATE_DATA,
     max_burst_length := ISCSI_CONNECTION_PARAMETER_MAX_BURST_LENGTH,
     first_burst_length := ISCSI_CONNECTION_PARAMETER_FIRST_BURST_LENGTH,
     data_pdu_in_order := ISCSI_CONNECTION_PARAMETER_DATA_PDU_IN_ORDER,
     data_sequence_in_order := ISCSI_CONNECTION_PARAMETER_DATA_SEQUENCE_IN_ORDER,
     default_time_2_wait := ISCSI_CONNECTION_PARAMETER_DEFAULT_TIME_2_WAIT,
     default_time_2_retain := ISCSI_CONNECTION_PARAMETER_DEFAULT_TIME_2_RETAIN,
     max_outstanding_r2t := ISCSI_CONNECTION_PARAMETER_MAX_OUTSTANDING_R2T\<rparr>"

text \<open>One \<open>if (key_equal(key, NAME)) \<dots>\<close> statement, and the value \<open>key_equal(value, "Yes") || d\<close>.\<close>

definition when_key ::
  "cptr \<Rightarrow> byte list \<Rightarrow> (iSCSIConnectionParameter \<Rightarrow> iSCSIConnectionParameter result)
   \<Rightarrow> iSCSIConnectionParameter \<Rightarrow> iSCSIConnectionParameter result" where
  "when_key key prop act parameter =
     bindR (key_equal key prop) (\<lambda>eq. if eq then act parameter else Inr parameter)"

definition yes_or :: "cptr \<Rightarrow> cint \<Rightarrow> cint result" where
  "yes_or value d = bindR (key_equal value (cstr ''Yes'')) (\<lambda>yes. Inr (of_bool (yes \<or> d \<noteq> 0)))"

definition update_information ::
  "iSCSIConnectionParameter \<Rightarrow> cptr \<Rightarrow> cptr \<Rightarrow> iSCSIConnectionParameter result" where
  "update_information parameter key value =
     bindR (when_key key MAX_RECEIVE_DATA_SEGMENT (\<lambda>p. bindR (string_to_int value) (\<lambda>v.
         Inr (p\<lparr>max_receive_data_segment_length := c_min v (word_of_int ISCSI_CONNECTION_PARAMETER_BUFFER_SIZE - 1000)\<rparr>))) parameter) (\<lambda>p.
     bindR (when_key key MAX_CONNECTIONS (\<lambda>p. bindR (string_to_int value) (\<lambda>v.
         Inr (p\<lparr>max_connections := c_min v ISCSI_CONNECTION_PARAMETER_MAX_CONNECTIONS\<rparr>))) p) (\<lambda>p.
     bindR (when_key key INITIAL_R2T (\<lambda>p. bindR (yes_or value ISCSI_CONNECTION_PARAMETER_INITIAL_R2T) (\<lambda>v.
         Inr (p\<lparr>initial_r2t := v\<rparr>))) p) (\<lambda>p.
     bindR (when_key key IMMEDIATE_DATA (\<lambda>p. bindR (yes_or value ISCSI_CONNECTION_PARAMETER_IMMEDIATE_DATA) (\<lambda>v.
         Inr (p\<lparr>immediate_data := v\<rparr>))) p) (\<lambda>p.
     bindR (when_key key MAX_BURST_LENGTH (\<lambda>p. bindR (string_to_int value) (\<lambda>v.
         Inr (p\<lparr>max_burst_length := c_min v ISCSI_CONNECTION_PARAMETER_MAX_BURST_LENGTH\<rparr>))) p) (\<lambda>p.
     bindR (when_key key FIRST_BURST_LENGTH (\<lambda>p. bindR (string_to_int value) (\<lambda>v.
         Inr (p\<lparr>first_burst_length := c_min v ISCSI_CONNECTION_PARAMETER_FIRST_BURST_LENGTH\<rparr>))) p) (\<lambda>p.
     bindR (when_key key DATA_PDU_IN_ORDER (\<lambda>p. bindR (yes_or value ISCSI_CONNECTION_PARAMETER_DATA_PDU_IN_ORDER) (\<lambda>v.
         Inr (p\<lparr>data_pdu_in_order := v\<rparr>))) p) (\<lambda>p.
     bindR (when_key key DATA_SEQUENCE_IN_ORDER (\<lambda>p. bindR (yes_or value ISCSI_CONNECTION_PARAMETER_DATA_SEQUENCE_IN_ORDER) (\<lambda>v.
         Inr (p\<lparr>data_sequence_in_order := v\<rparr>))) p) (\<lambda>p.
     bindR (when_key key DEFAULT_TIME_2_WAIT (\<lambda>p. bindR (string_to_int value) (\<lambda>v.
         Inr (p\<lparr>default_time_2_wait := c_max v ISCSI_CONNECTION_PARAMETER_DEFAULT_TIME_2_WAIT\<rparr>))) p) (\<lambda>p.
     bindR (when_key key DEFAULT_TIME_2_RETAIN (\<lambda>p. bindR (string_to_int value) (\<lambda>v.
         Inr (p\<lparr>default_time_2_retain := c_max v ISCSI_CONNECTION_PARAMETER_DEFAULT_TIME_2_RETAIN\<rparr>))) p) (\<lambda>p.
     when_key key MAX_OUTSTANDING_R2T (\<lambda>p. bindR (string_to_int value) (\<lambda>v.
         Inr (p\<lparr>max_outstanding_r2t := c_min v ISCSI_CONNECTION_PARAMETER_MAX_OUTSTANDING_R2T\<rparr>))) p))))))))))"

section \<open>Writing the text\<close>

definition iscsi_connection_parameter_write ::
  "iSCSIConnectionParameter \<Rightarrow> cptr \<Rightarrow> iSCSIConnectionParameter result" where
  "iscsi_connection_parameter_write parameter data =
     bindR (c_strlen data) (\<lambda>len.
     bindR (c_memcpy (pbuffer parameter) ISCSI_CONNECTION_PARAMETER_BUFFER_SIZE
             (sint (plength parameter)) data (int len)) (\<lambda>m.
       Inr (parameter\<lparr>pbuffer := m, plength := plength parameter + word_of_nat len\<rparr>)))"

definition iscsi_connection_parameter_update ::
  "iSCSIConnectionParameter \<Rightarrow> cptr \<Rightarrow> cptr \<Rightarrow> iSCSIConnectionParameter result" where
  "iscsi_connection_parameter_update parameter key value =
     bindR (iscsi_connection_parameter_write parameter key) (\<lambda>p.
     bindR (iscsi_connection_parameter_write p (lit (cstr ''=''))) (\<lambda>p.
     bindR (iscsi_connection_parameter_write p value) (\<lambda>p.
     bindR (c_memset (pbuffer p) ISCSI_CONNECTION_PARAMETER_BUFFER_SIZE (sint (plength p)) 0 1) (\<lambda>m.
       update_information (p\<lparr>pbuffer := m, plength := plength p + 1\<rparr>) key value))))"

text \<open>
  \<open>int_to_string\<close> returns its static array, which the next call overwrites; every string is read
  before that, so each call is given an array of its own here.
\<close>

definition update_int ::
  "byte list \<Rightarrow> (iSCSIConnectionParameter \<Rightarrow> cint) \<Rightarrow> iSCSIConnectionParameter
   \<Rightarrow> iSCSIConnectionParameter result" where
  "update_int key get p =
     iscsi_connection_parameter_update p (lit key) (static_ptr (int_to_string (\<lambda>_. 0) (get p)))"

definition update_bool ::
  "byte list \<Rightarrow> (iSCSIConnectionParameter \<Rightarrow> cint) \<Rightarrow> iSCSIConnectionParameter
   \<Rightarrow> iSCSIConnectionParameter result" where
  "update_bool key get p =
     iscsi_connection_parameter_update p (lit key) (lit (bool_to_string (get p)))"

definition iscsi_connection_parameter_generate_operational_data ::
  "iSCSIConnectionParameter \<Rightarrow> iSCSIConnectionParameter result" where
  "iscsi_connection_parameter_generate_operational_data parameter =
     bindR (update_int MAX_CONNECTIONS iscsi_connection_parameter_max_connections (parameter\<lparr>plength := 0\<rparr>)) (\<lambda>p.
     bindR (update_bool INITIAL_R2T iscsi_connection_parameter_initial_r2t p) (\<lambda>p.
     bindR (update_bool IMMEDIATE_DATA iscsi_connection_parameter_immediate_data p) (\<lambda>p.
     bindR (update_int MAX_BURST_LENGTH iscsi_connection_parameter_max_burst_length p) (\<lambda>p.
     bindR (update_int FIRST_BURST_LENGTH iscsi_connection_parameter_first_burst_length p) (\<lambda>p.
     bindR (update_bool DATA_PDU_IN_ORDER iscsi_connection_parameter_data_pdu_in_order p) (\<lambda>p.
     bindR (update_bool DATA_SEQUENCE_IN_ORDER iscsi_connection_parameter_data_sequence_in_order p) (\<lambda>p.
     bindR (update_int DEFAULT_TIME_2_WAIT iscsi_connection_parameter_default_time_2_wait p) (\<lambda>p.
     bindR (update_int DEFAULT_TIME_2_RETAIN iscsi_connection_parameter_default_time_2_retain p) (\<lambda>p.
     update_int MAX_OUTSTANDING_R2T iscsi_connection_parameter_max_outstanding_r2t p)))))))))"

section \<open>Reading the text of a login request\<close>

definition wr :: "cptr \<Rightarrow> nat \<Rightarrow> byte \<Rightarrow> cptr" where
  "wr p i v = p\<lparr>blk := (blk p)(pos p + i := v)\<rparr>"

text \<open>
  The scan from index \<open>i\<close> with \<open>k\<close> bytes left and the current key at \<open>key\<close>. The \<open>=\<close> is replaced by
  a NUL around the call of \<open>update_information\<close>; the result holds the array after the scan.
\<close>

fun create_loop ::
  "iSCSIConnectionParameter \<Rightarrow> cptr \<Rightarrow> nat \<Rightarrow> nat \<Rightarrow> nat \<Rightarrow> (iSCSIConnectionParameter \<times> mem) result" where
  "create_loop parameter data key i 0 = Inr (parameter, blk data)"
| "create_loop parameter data key i (Suc k) =
     bindR (rd data (i - 1)) (\<lambda>prev.
     bindR (rd data i) (\<lambda>b.
       let key = (if prev = 0 then i else key) in
       if b = 61 then
         bindR (update_information parameter (padd (wr data i 0) key) (padd (wr data i 0) (i + 1)))
           (\<lambda>parameter. create_loop parameter (wr (wr data i 0) i 61) key (i + 1) k)
       else create_loop parameter data key (i + 1) k))"

definition iscsi_connection_parameter_create ::
  "iSCSIConnectionParameter \<Rightarrow> cptr \<Rightarrow> cint \<Rightarrow> (iSCSIConnectionParameter \<times> mem) result" where
  "iscsi_connection_parameter_create parameter data len =
     (let len = (if sint len > ISCSI_CONNECTION_PARAMETER_BUFFER_SIZE
                 then word_of_int ISCSI_CONNECTION_PARAMETER_BUFFER_SIZE else len) in
      bindR (c_memcpy (pbuffer parameter) ISCSI_CONNECTION_PARAMETER_BUFFER_SIZE 0 data (sint len)) (\<lambda>m.
        create_loop (set_default_parameter (parameter\<lparr>pbuffer := m, plength := len\<rparr>)) data 0 1
          (nat (sint len - 1))))"

definition next_key :: "connection_parameter_symbol \<Rightarrow> byte \<Rightarrow> connection_parameter_symbol" where
  "next_key symbol b =
     (if b = 61 then EQUAL
      else if b = 44 \<or> b = 0 then SEPARATOR
      else if symbol = EQUAL then VALUE
      else if symbol = SEPARATOR then KEY
      else symbol)"

text \<open>The result is the offset from \<open>data\<close> of the returned pointer, \<open>None\<close> for the null pointer.\<close>

fun get_loop ::
  "cptr \<Rightarrow> cptr \<Rightarrow> nat \<Rightarrow> nat \<Rightarrow> connection_parameter_symbol \<Rightarrow> nat \<Rightarrow> bool \<Rightarrow> nat option result" where
  "get_loop data key i 0 symbol count still_valid = Inr None"
| "get_loop data key i (Suc k) symbol count still_valid =
     bindR (rd data i) (\<lambda>b.
       let symbol = next_key symbol b in
       if symbol = EQUAL \<and> still_valid then Inr (Some (i + 1))
       else
         let count = (if symbol = SEPARATOR then 0 else count);
             still_valid = (if symbol = SEPARATOR then True else still_valid) in
         if symbol = KEY then
           bindR (rd key count) (\<lambda>c.
             if b = c then get_loop data key (i + 1) k symbol (count + 1) still_valid
             else get_loop data key (i + 1) k symbol count False)
         else get_loop data key (i + 1) k symbol count still_valid)"

definition iscsi_parameter_get :: "cptr \<Rightarrow> cint \<Rightarrow> cptr \<Rightarrow> nat option result" where
  "iscsi_parameter_get data len key = get_loop data key 0 (nat (sint len)) KEY 0 True"

definition iscsi_connection_parameter_data :: "iSCSIConnectionParameter \<Rightarrow> cptr" where
  "iscsi_connection_parameter_data parameter =
     \<lparr>blk = pbuffer parameter, bsz = nat ISCSI_CONNECTION_PARAMETER_BUFFER_SIZE, pos = 0\<rparr>"

definition iscsi_connection_parameter_length :: "iSCSIConnectionParameter \<Rightarrow> cint" where
  "iscsi_connection_parameter_length parameter = plength parameter"

definition iscsi_connection_parameter_get ::
  "iSCSIConnectionParameter \<Rightarrow> cptr \<Rightarrow> nat option result" where
  "iscsi_connection_parameter_get parameter key =
     iscsi_parameter_get (iscsi_connection_parameter_data parameter) (plength parameter) key"

definition iscsi_connection_parameter_is_vendor_specific :: "cptr \<Rightarrow> bool result" where
  "iscsi_connection_parameter_is_vendor_specific key =
     bindR (rd key 0) (\<lambda>a. if a \<noteq> 88 then Inr False
       else bindR (rd key 1) (\<lambda>b. Inr (b = 45 \<or> b = 35)))"

fun vendor_loop :: "cptr \<Rightarrow> nat \<Rightarrow> nat \<Rightarrow> cint result" where
  "vendor_loop buffer i 0 = Inr 1"
| "vendor_loop buffer i (Suc k) =
     bindR (rd buffer i) (\<lambda>b.
       if b = 44 then
         bindR (iscsi_connection_parameter_is_vendor_specific (padd buffer (i + 1)))
           (\<lambda>v. if v then Inr 0 else vendor_loop buffer (i + 1) k)
       else vendor_loop buffer (i + 1) k)"

definition iscsi_connection_parameter_vendor_specific :: "iSCSIConnectionParameter \<Rightarrow> cint result" where
  "iscsi_connection_parameter_vendor_specific parameter =
     bindR (if sint (plength parameter) > 1
            then iscsi_connection_parameter_is_vendor_specific (iscsi_connection_parameter_data parameter)
            else Inr False)
       (\<lambda>v. if v then Inr 0
            else vendor_loop (iscsi_connection_parameter_data parameter) 0
                   (nat (sint (plength parameter - 2))))"

end
