(* ===== verification/Iscsi_State.thy ===== *)
theory Iscsi_State
  imports Iscsi_Buffer Iscsi_Parameter
begin

text \<open>
  The structures of the target and the operations that touch only them: transfer entries
  (\<^verbatim>\<open>iscsi_transfer_entry\<close>), the SCSI device (\<^verbatim>\<open>iscsi_target\<close>), sessions (\<^verbatim>\<open>iscsi_session\<close>) and
  connections (\<^verbatim>\<open>iscsi_connection\<close>). The program serves each connection in a process of its own, so
  one \<open>world\<close> holds one connection, the two global objects \<open>ISCSI_DEFAULT_SESSION\<close> and
  \<open>ISCSI_DEFAULT_TARGET\<close>, and the state of the SCSI device behind the file descriptor. A session
  pointer is null or points to the default session; likewise a target pointer.
\<close>

section \<open>Transfer entries\<close>

record iSCSITransferEntry =
  entry_data :: mem
  entry_cdb :: mem
  total_length :: cint
  entry_offset :: cint
  r2t_sn :: cint
  total_r2t_sn :: cint
  entry_transfer_tag :: cint

definition iscsi_transfer_entry_cdb :: "iSCSITransferEntry \<Rightarrow> cptr" where
  "iscsi_transfer_entry_cdb entry = \<lparr>blk = entry_cdb entry, bsz = nat SCSI_CDB_LENGTH, pos = 0\<rparr>"

definition iscsi_transfer_entry_data :: "iSCSITransferEntry \<Rightarrow> cptr" where
  "iscsi_transfer_entry_data entry =
     \<lparr>blk = entry_data entry, bsz = nat ISCSI_TRANSFER_ENTRY_SIZE, pos = 0\<rparr>"

definition iscsi_transfer_entry_data_length :: "iSCSITransferEntry \<Rightarrow> cint" where
  [simp]: "iscsi_transfer_entry_data_length = total_length"

definition iscsi_transfer_entry_next_r2t_sn :: "iSCSITransferEntry \<Rightarrow> cint" where
  [simp]: "iscsi_transfer_entry_next_r2t_sn = r2t_sn"

definition iscsi_transfer_entry_total_r2t_sn :: "iSCSITransferEntry \<Rightarrow> cint" where
  [simp]: "iscsi_transfer_entry_total_r2t_sn = total_r2t_sn"

definition iscsi_transfer_entry_transfer_tag :: "iSCSITransferEntry \<Rightarrow> cint" where
  [simp]: "iscsi_transfer_entry_transfer_tag = entry_transfer_tag"

definition iscsi_transfer_entry_next_offset :: "iSCSITransferEntry \<Rightarrow> cint" where
  "iscsi_transfer_entry_next_offset entry = entry_offset entry * r2t_sn entry"

definition iscsi_transfer_entry_increase_r2t_sn :: "iSCSITransferEntry \<Rightarrow> iSCSITransferEntry" where
  "iscsi_transfer_entry_increase_r2t_sn entry = entry\<lparr>r2t_sn := r2t_sn entry + 1\<rparr>"

definition iscsi_transfer_entry_create ::
  "iSCSITransferEntry \<Rightarrow> cptr \<Rightarrow> cint \<Rightarrow> cint \<Rightarrow> cint \<Rightarrow> iSCSITransferEntry result" where
  "iscsi_transfer_entry_create entry cdb total_len max_receive_data_segment transfer_tag =
     bindR (c_memcpy (entry_cdb entry) SCSI_CDB_LENGTH 0 cdb SCSI_CDB_LENGTH) (\<lambda>m.
       Inr (entry\<lparr>entry_cdb := m, total_length := total_len, entry_transfer_tag := transfer_tag\<rparr>))"

section \<open>The SCSI device\<close>

text \<open>
  The fields of \<open>sg_io_hdr_t\<close> the program sets or reads; the two data pointers always point to the
  buffers of the target, \<open>sbp_set\<close> tells whether \<open>sbp\<close> has been set.
\<close>

record sg_io_hdr =
  interface_id :: cint
  cmd_len :: cint
  mx_sb_len :: cint
  dxfer_direction :: cint
  dxfer_len :: int
  timeout :: cint
  flags :: cint
  sbp_set :: bool
  status :: byte
  sb_len_wr :: byte
  resid :: cint

record iSCSITarget =
  fd :: cint
  scsi_response :: cint
  io_hdr :: sg_io_hdr
  tbuffer :: mem
  sense_buffer :: mem

text \<open>
  The operating system: the descriptor \<open>open\<close> returns for the device file, and the \<open>SG_IO\<close> ioctl,
  which sees the header, the command block, the data buffer and the sense buffer, may change all
  but the command block, and drives the device. Both are parameters of the model.
\<close>

record 'd sg_reply =
  reply_ret :: cint
  reply_device :: 'd
  reply_status :: byte
  reply_sb_len_wr :: byte
  reply_resid :: cint
  reply_buffer :: mem
  reply_sense :: mem

record 'd os =
  os_open :: cint
  os_ioctl :: "'d \<Rightarrow> sg_io_hdr \<Rightarrow> byte list \<Rightarrow> mem \<Rightarrow> mem \<Rightarrow> 'd sg_reply"

definition SG_DXFER_FROM_DEV :: cint where
  "SG_DXFER_FROM_DEV = -3"

definition sg_request :: sg_io_hdr where
  "sg_request = \<lparr>interface_id = 83, cmd_len = word_of_int SCSI_CDB_LENGTH,
     mx_sb_len = word_of_int ISCSI_TARGET_SENSE_BUFFER_SIZE, dxfer_direction = SG_DXFER_FROM_DEV,
     dxfer_len = ISCSI_TARGET_MEMORY_SIZE, timeout = ISCSI_TARGET_TIMEOUT_MS, flags = 1, sbp_set = True,
     status = 0, sb_len_wr = 0, resid = 0\<rparr>"

definition iscsi_target_create_default :: "'d os \<Rightarrow> iSCSITarget \<Rightarrow> iSCSITarget result" where
  "iscsi_target_create_default os target =
     (if sint (os_open os) < 0 then Inl (ExitProcess 1) else Inr (target\<lparr>fd := os_open os\<rparr>))"

definition iscsi_target_execute_scsi_command ::
  "'d os \<Rightarrow> 'd \<Rightarrow> iSCSITarget \<Rightarrow> cptr \<Rightarrow> 'd \<times> iSCSITarget" where
  "iscsi_target_execute_scsi_command os dev target cdb =
     (let r = os_ioctl os dev sg_request (bytes_of (blk cdb) (pos cdb) (nat SCSI_CDB_LENGTH))
                (tbuffer target) (sense_buffer target);
          hdr = sg_request\<lparr>status := reply_status r, sb_len_wr := reply_sb_len_wr r,
                  resid := reply_resid r\<rparr>;
          target = target\<lparr>io_hdr := hdr, tbuffer := reply_buffer r, sense_buffer := reply_sense r\<rparr> in
      (reply_device r,
       if sint (reply_ret r) < 0 then target\<lparr>scsi_response := 1\<rparr> else target\<lparr>scsi_response := 0\<rparr>))"

definition iscsi_target_sg_io_hdr :: "iSCSITarget \<Rightarrow> sg_io_hdr" where
  [simp]: "iscsi_target_sg_io_hdr = io_hdr"

definition iscsi_target_buffer :: "iSCSITarget \<Rightarrow> cptr" where
  "iscsi_target_buffer target =
     \<lparr>blk = tbuffer target, bsz = nat ISCSI_TARGET_MEMORY_SIZE, pos = 0\<rparr>"

section \<open>Sessions, connections, the world\<close>

datatype target_ptr = NoTarget | DefaultTarget

record iSCSISession =
  num_connections :: cint
  session_max_connections :: cint
  TSIH :: cint
  ExpCmdSN :: cint
  command_numbering_start :: cint
  is_full_feature_phase :: cint
  is_discovery :: cint
  error_recovery_level :: cint
  session_transfer_tag :: cint
  session_target :: target_ptr
  transfer_entry :: iSCSITransferEntry

datatype session_ptr = NoSession | DefaultSession

record iSCSIConnection =
  session_reference :: session_ptr
  receive_buffer :: iSCSIBuffer
  response_buffer :: iSCSIBuffer
  conn_parameter :: iSCSIConnectionParameter
  socket_fd :: cint
  so_far_in_order :: cint
  connection_id :: cint
  conn_state :: cint
  current_timeout :: cint
  stat_sn :: cint
  expected_cmd_sn :: cint
  conn_max_cmd_sn :: cint
  perform_connection_cleanup :: cint

record 'd world =
  connection :: iSCSIConnection
  default_session :: iSCSISession
  default_target :: iSCSITarget
  device :: 'd

text \<open>\<open>malloc\<close> gives the connection unspecified contents: the argument holds them.\<close>

definition iscsi_connection_create :: "iSCSIConnection \<Rightarrow> cint \<Rightarrow> session_ptr \<Rightarrow> iSCSIConnection" where
  "iscsi_connection_create c socket session =
     c\<lparr>session_reference := session, socket_fd := socket, so_far_in_order := 1,
       connection_id := 0, current_timeout := 0, stat_sn := 0, expected_cmd_sn := 0,
       conn_max_cmd_sn := ISCSI_MAX_CMD_SN, perform_connection_cleanup := 0,
       receive_buffer := iscsi_buffer_new (receive_buffer c),
       response_buffer := iscsi_buffer_new (response_buffer c)\<rparr>"

definition iscsi_connection_advance_stat_sn :: "iSCSIConnection \<Rightarrow> iSCSIConnection" where
  "iscsi_connection_advance_stat_sn c = c\<lparr>stat_sn := stat_sn c + 1\<rparr>"

definition iscsi_connection_advance_expected_cmd_sn :: "iSCSIConnection \<Rightarrow> iSCSIConnection" where
  "iscsi_connection_advance_expected_cmd_sn c = c\<lparr>expected_cmd_sn := expected_cmd_sn c + 1\<rparr>"

definition iscsi_connection_stat_sn :: "iSCSIConnection \<Rightarrow> cint" where
  [simp]: "iscsi_connection_stat_sn = stat_sn"

definition iscsi_connection_exp_cmd_sn :: "iSCSIConnection \<Rightarrow> cint" where
  [simp]: "iscsi_connection_exp_cmd_sn = expected_cmd_sn"

definition iscsi_connection_max_cmd_sn :: "iSCSIConnection \<Rightarrow> cint" where
  "iscsi_connection_max_cmd_sn c = expected_cmd_sn c"

definition iscsi_connection_parameter :: "iSCSIConnection \<Rightarrow> iSCSIConnectionParameter" where
  [simp]: "iscsi_connection_parameter = conn_parameter"

definition iscsi_session_full :: "iSCSISession \<Rightarrow> bool" where
  "iscsi_session_full s \<longleftrightarrow> sint (num_connections s) \<ge> sint (session_max_connections s)"

definition iscsi_session_transfer_entry :: "iSCSISession \<Rightarrow> iSCSITransferEntry" where
  [simp]: "iscsi_session_transfer_entry = transfer_entry"

definition iscsi_session_create :: "'d os \<Rightarrow> 'd world \<Rightarrow> 'd world result" where
  "iscsi_session_create os w =
     bindR (iscsi_target_create_default os (default_target w)) (\<lambda>t.
       Inr (w\<lparr>default_session := (default_session w)\<lparr>num_connections := 0,
                session_max_connections := MAX_SUPPORTED_CONNS, TSIH := ISCSI_SESSION_DEFAULT_TSIH, ExpCmdSN := 0, error_recovery_level := 0,
                session_transfer_tag := 0, session_target := DefaultTarget\<rparr>,
              default_target := t\<rparr>))"

definition iscsi_session_add_connection :: "session_ptr \<Rightarrow> iSCSIConnection \<Rightarrow> iSCSIConnection" where
  "iscsi_session_add_connection s c = c\<lparr>session_reference := s\<rparr>"

definition iscsi_session_next_transfer_tag :: "iSCSISession \<Rightarrow> cint \<times> iSCSISession" where
  "iscsi_session_next_transfer_tag s =
     (session_transfer_tag s + 1, s\<lparr>session_transfer_tag := session_transfer_tag s + 1\<rparr>)"

definition iscsi_session_get_transfer_entry :: "iSCSISession \<Rightarrow> cint \<Rightarrow> iSCSITransferEntry option" where
  "iscsi_session_get_transfer_entry s tag =
     (if iscsi_transfer_entry_transfer_tag (transfer_entry s) = tag then Some (transfer_entry s) else None)"

text \<open>Uses of the session of the connection and of the target of the session dereference the pointers.\<close>

definition the_session :: "'d world \<Rightarrow> iSCSISession result" where
  "the_session w = (case session_reference (connection w) of
     NoSession \<Rightarrow> Inl NullPointer | DefaultSession \<Rightarrow> Inr (default_session w))"

definition the_target :: "'d world \<Rightarrow> iSCSITarget result" where
  "the_target w = bindR (the_session w) (\<lambda>s. case session_target s of
     NoTarget \<Rightarrow> Inl NullPointer | DefaultTarget \<Rightarrow> Inr (default_target w))"

definition iscsi_session_execute_command :: "'d os \<Rightarrow> 'd world \<Rightarrow> cptr \<Rightarrow> 'd world result" where
  "iscsi_session_execute_command os w cdb =
     bindR (the_target w) (\<lambda>t.
       let (dev, t) = iscsi_target_execute_scsi_command os (device w) t cdb in
       Inr (w\<lparr>device := dev, default_target := t\<rparr>))"

definition iscsi_session_execute_transfer_entry ::
  "'d os \<Rightarrow> 'd world \<Rightarrow> iSCSITransferEntry \<Rightarrow> 'd world result" where
  "iscsi_session_execute_transfer_entry os w entry =
     bindR (the_target w) (\<lambda>t.
     bindR (c_memcpy (tbuffer t) ISCSI_TARGET_MEMORY_SIZE 0 (iscsi_transfer_entry_data entry)
             (sint (iscsi_transfer_entry_data_length entry))) (\<lambda>m.
       iscsi_session_execute_command os (w\<lparr>default_target := t\<lparr>tbuffer := m\<rparr>\<rparr>)
         (iscsi_transfer_entry_cdb entry)))"

end
