(* ===== verification/Iscsi_Byte.thy ===== *)
theory Iscsi_Byte
  imports Iscsi_Prelude
begin

text \<open>
  The bit and big-endian accessors of \<^verbatim>\<open>iscsi_byte.h\<close>. A \<open>byte* buffer\<close> argument is an array and
  the offset it points to; C promotes a byte to \<open>int\<close> before it shifts, \<open>>>\<close> on an \<open>int\<close> is
  arithmetic, and a store into a byte keeps the low eight bits. The lemmas are the round trips of
  each setter with its getter and the bytes each setter leaves alone.
\<close>

definition iscsi_byte_byte2bit :: "byte \<Rightarrow> nat \<Rightarrow> cint" where
  "iscsi_byte_byte2bit b p = drop_bit (7 - p) (ucast b) AND 0x01"

definition iscsi_byte_bit2byte :: "mem \<Rightarrow> nat \<Rightarrow> nat \<Rightarrow> cint \<Rightarrow> mem" where
  "iscsi_byte_bit2byte m a p val =
     m(a := ucast (push_bit (7 - p) (val AND 0x01) OR (ucast (m a) AND NOT (push_bit (7 - p) 0x01))))"

definition iscsi_byte_byte2int :: "mem \<Rightarrow> nat \<Rightarrow> cint" where
  "iscsi_byte_byte2int m a =
     push_bit 24 (ucast (m a)) OR push_bit 16 (ucast (m (a + 1)))
       OR push_bit 8 (ucast (m (a + 2))) OR ucast (m (a + 3))"

definition byte_at :: "cint \<Rightarrow> nat \<Rightarrow> byte" where
  "byte_at value k = ucast (signed_drop_bit k value AND 0xFF)"

definition iscsi_byte_int2byte :: "mem \<Rightarrow> nat \<Rightarrow> cint \<Rightarrow> mem" where
  "iscsi_byte_int2byte m a value =
     m(a := byte_at value 24, a + 1 := byte_at value 16, a + 2 := byte_at value 8,
       a + 3 := byte_at value 0)"

definition iscsi_byte_short2byte :: "mem \<Rightarrow> nat \<Rightarrow> cint \<Rightarrow> mem" where
  "iscsi_byte_short2byte m a value = m(a := byte_at value 8, a + 1 := byte_at value 0)"

section \<open>Bits of a byte\<close>

lemma bit_0xFF: "bit (0xFF :: cint) n \<longleftrightarrow> n < 8"
proof -
  have "(0xFF :: cint) = mask 8" by (simp add: mask_eq_exp_minus_1)
  then show ?thesis by (simp only: bit_mask_iff) auto
qed

lemma bit_byte_at: "k \<le> 24 \<Longrightarrow> n < 8 \<Longrightarrow> bit (byte_at v k) n \<longleftrightarrow> bit v (k + n)"
  using bit_0xFF [of n]
  by (auto simp: byte_at_def bit_ucast_iff bit_and_iff bit_signed_drop_bit_iff)

lemma byte2int_eqI:
  assumes "m a = byte_at v 24" "m (a + 1) = byte_at v 16" "m (a + 2) = byte_at v 8"
    "m (a + 3) = byte_at v 0"
  shows "iscsi_byte_byte2int m a = v"
proof (rule bit_word_eqI)
  fix n assume "n < LENGTH(32)"
  then have n: "n < 32" by simp
  have low: "\<not> bit (b :: byte) k" if "8 \<le> k" for b k
    using that bit_imp_le_length [of b k] by auto
  consider "n < 8" | "8 \<le> n" "n < 16" | "16 \<le> n" "n < 24" | "24 \<le> n" by linarith
  then show "bit (iscsi_byte_byte2int m a) n = bit v n"
    unfolding iscsi_byte_byte2int_def assms using n
    by cases (auto simp: bit_or_iff bit_push_bit_iff bit_ucast_iff bit_byte_at low)
qed

theorem byte2int_int2byte [simp]: "iscsi_byte_byte2int (iscsi_byte_int2byte m a v) a = v"
  by (rule byte2int_eqI) (simp_all add: iscsi_byte_int2byte_def)

lemma byte_at_byte2int:
  "byte_at (iscsi_byte_byte2int m a) 24 = m a" "byte_at (iscsi_byte_byte2int m a) 16 = m (a + 1)"
  "byte_at (iscsi_byte_byte2int m a) 8 = m (a + 2)" "byte_at (iscsi_byte_byte2int m a) 0 = m (a + 3)"
proof -
  have low: "\<not> bit (b :: byte) k" if "8 \<le> k" for b k
    using that bit_imp_le_length [of b k] by auto
  note s = iscsi_byte_byte2int_def bit_or_iff bit_push_bit_iff bit_ucast_iff bit_byte_at low
  show "byte_at (iscsi_byte_byte2int m a) 24 = m a"
    by (rule bit_word_eqI) (simp add: s)
  show "byte_at (iscsi_byte_byte2int m a) 16 = m (a + 1)"
    by (rule bit_word_eqI) (simp add: s)
  show "byte_at (iscsi_byte_byte2int m a) 8 = m (a + 2)"
    by (rule bit_word_eqI) (simp add: s)
  show "byte_at (iscsi_byte_byte2int m a) 0 = m (a + 3)"
    by (rule bit_word_eqI) (simp add: s)
qed

theorem int2byte_byte2int [simp]: "iscsi_byte_int2byte m a (iscsi_byte_byte2int m a) = m"
  by (rule ext) (simp add: iscsi_byte_int2byte_def byte_at_byte2int)

lemma int2byte_apply:
  "iscsi_byte_int2byte m a v i =
     (if i = a then byte_at v 24 else if i = a + 1 then byte_at v 16
      else if i = a + 2 then byte_at v 8 else if i = a + 3 then byte_at v 0 else m i)"
  by (simp add: iscsi_byte_int2byte_def)

lemma short2byte_apply:
  "iscsi_byte_short2byte m a v i =
     (if i = a then byte_at v 8 else if i = a + 1 then byte_at v 0 else m i)"
  by (simp add: iscsi_byte_short2byte_def)

section \<open>Masks\<close>

text \<open>The bits of the masks of the header fields; the simplifier reads the bits of words as these.\<close>

lemma bit_masks:
  "bit (128 :: int) n \<longleftrightarrow> n = 7" "bit (127 :: int) n \<longleftrightarrow> n < 7" "bit (191 :: int) n \<longleftrightarrow> n < 8 \<and> n \<noteq> 6"
  "bit (63 :: int) n \<longleftrightarrow> n < 6" "bit (192 :: int) n \<longleftrightarrow> n = 6 \<or> n = 7" "bit (16777215 :: int) n \<longleftrightarrow> n < 24"
proof -
  have m: "(128 :: int) = 2 ^ 7" "(127 :: int) = mask 7" "(191 :: int) = mask 8 AND NOT (2 ^ 6)"
    "(63 :: int) = mask 6" "(192 :: int) = mask 8 AND NOT (mask 6)" "(16777215 :: int) = mask 24"
    by (simp_all add: mask_eq_exp_minus_1)
  show "bit (128 :: int) n \<longleftrightarrow> n = 7" unfolding m(1) by (simp only: bit_exp_iff) auto
  show "bit (127 :: int) n \<longleftrightarrow> n < 7" unfolding m(2) by (simp only: bit_mask_iff) auto
  show "bit (191 :: int) n \<longleftrightarrow> n < 8 \<and> n \<noteq> 6"
    unfolding m(3) by (simp only: bit_and_iff bit_mask_iff bit_not_iff bit_exp_iff) auto
  show "bit (63 :: int) n \<longleftrightarrow> n < 6" unfolding m(4) by (simp only: bit_mask_iff) auto
  show "bit (192 :: int) n \<longleftrightarrow> n = 6 \<or> n = 7"
    unfolding m(5) by (simp only: bit_and_iff bit_mask_iff bit_not_iff) auto
  show "bit (16777215 :: int) n \<longleftrightarrow> n < 24" unfolding m(6) by (simp only: bit_mask_iff) auto
qed

section \<open>Single bits\<close>

lemma bit_bit2byte:
  assumes "p < 8" "n < 8"
  shows "bit (iscsi_byte_bit2byte m a p v a) n = (if n = 7 - p then bit v 0 else bit (m a) n)"
  using assms
  by (auto simp: iscsi_byte_bit2byte_def bit_ucast_iff bit_or_iff bit_and_iff bit_not_iff
      bit_push_bit_iff bit_1_iff bit_exp_iff)

lemma byte2bit_eq: "p < 8 \<Longrightarrow> iscsi_byte_byte2bit b p = of_bool (bit b (7 - p))"
  by (rule bit_word_eqI)
    (auto simp: iscsi_byte_byte2bit_def bit_and_iff bit_drop_bit_eq bit_ucast_iff bit_1_iff
      bit_of_bool_iff)

lemma and_1_eq: "(v :: cint) AND 1 = of_bool (bit v 0)"
  by (rule bit_word_eqI) (auto simp: bit_and_iff bit_1_iff bit_of_bool_iff)

theorem byte2bit_bit2byte:
  assumes "p < 8" "q < 8"
  shows "iscsi_byte_byte2bit (iscsi_byte_bit2byte m a p v a) q =
     (if q = p then v AND 1 else iscsi_byte_byte2bit (m a) q)"
proof -
  have "7 - q = 7 - p \<longleftrightarrow> q = p" using assms by auto
  then show ?thesis using assms by (simp add: byte2bit_eq bit_bit2byte and_1_eq del: bit_0)
qed

lemma bit2byte_other [simp]: "i \<noteq> a \<Longrightarrow> iscsi_byte_bit2byte m a p v i = m i"
  by (simp add: iscsi_byte_bit2byte_def)

end
