(* ===== verification/Iscsi_Pdu.thy ===== *)
theory Iscsi_Pdu
  imports Iscsi_State Iscsi_Byte
begin

text \<open>
  \<^verbatim>\<open>iscsi_pdu.h\<close>, \<^verbatim>\<open>iscsi_pdu.c\<close>: reading and writing the 48-byte header of a protocol data unit that
  starts at an offset of a byte array. The lemmas give the length arithmetic as integers, the round
  trips of the setters, and the byte lists the setters build.
\<close>

definition BASIC_HEADER_SEGMENT_LENGTH :: cint where
  [simp]: "BASIC_HEADER_SEGMENT_LENGTH = 48"

definition DEFAULT_TARGET_TRANSFER_TAG :: cint where
  "DEFAULT_TARGET_TRANSFER_TAG = 0xFFFFFFFF"

definition DEFAULT_INITIAL_TASK_TAG :: cint where
  "DEFAULT_INITIAL_TASK_TAG = 0xFFFFFFFF"

datatype opcode =
    NOP_OUT | SCSI_CMD | SCSI_TASK_MANAGE | LOGIN | TEXT | SCSI_DATA_OUT | LOGOUT | SNACK
  | NOP_IN | SCSI_CMD_RES | SCSI_TASK_MANAGE_RES | LOGIN_RES | TEXT_RES | SCSI_DATA_IN | LOGOUT_RES
  | R2T | ASYNC_MSG | REJECT

fun opcode_value :: "opcode \<Rightarrow> cint" where
  "opcode_value NOP_OUT = 0x00"
| "opcode_value SCSI_CMD = 0x01"
| "opcode_value SCSI_TASK_MANAGE = 0x02"
| "opcode_value LOGIN = 0x03"
| "opcode_value TEXT = 0x04"
| "opcode_value SCSI_DATA_OUT = 0x05"
| "opcode_value LOGOUT = 0x06"
| "opcode_value SNACK = 0x07"
| "opcode_value NOP_IN = 0x20"
| "opcode_value SCSI_CMD_RES = 0x21"
| "opcode_value SCSI_TASK_MANAGE_RES = 0x22"
| "opcode_value LOGIN_RES = 0x23"
| "opcode_value TEXT_RES = 0x24"
| "opcode_value SCSI_DATA_IN = 0x25"
| "opcode_value LOGOUT_RES = 0x26"
| "opcode_value R2T = 0x31"
| "opcode_value ASYNC_MSG = 0x32"
| "opcode_value REJECT = 0x3f"

section \<open>Getters\<close>

definition iscsi_pdu_immediate :: "mem \<Rightarrow> nat \<Rightarrow> cint" where
  "iscsi_pdu_immediate m a = iscsi_byte_byte2bit (m a) 0"

definition iscsi_pdu_opcode :: "mem \<Rightarrow> nat \<Rightarrow> cint" where
  "iscsi_pdu_opcode m a = ucast (m a) AND 0x3F"

definition iscsi_pdu_final :: "mem \<Rightarrow> nat \<Rightarrow> cint" where
  "iscsi_pdu_final m a = iscsi_byte_byte2bit (m (a + 1)) 0"

definition iscsi_pdu_padded_length :: "cint \<Rightarrow> cint" where
  "iscsi_pdu_padded_length len = (len + 0x03) AND NOT 0x03"

definition iscsi_pdu_calc_size :: "cint \<Rightarrow> cint \<Rightarrow> cint" where
  "iscsi_pdu_calc_size total_ahs_length data_segment_length =
     iscsi_pdu_padded_length (BASIC_HEADER_SEGMENT_LENGTH + total_ahs_length + data_segment_length)"

definition iscsi_pdu_ahs_length :: "mem \<Rightarrow> nat \<Rightarrow> cint" where
  "iscsi_pdu_ahs_length m a = ucast (m (a + 4))"

definition iscsi_pdu_data_segment_length :: "mem \<Rightarrow> nat \<Rightarrow> cint" where
  "iscsi_pdu_data_segment_length m a =
     push_bit 16 (ucast (m (a + 5))) OR push_bit 8 (ucast (m (a + 6))) OR ucast (m (a + 7))"

definition iscsi_pdu_length :: "mem \<Rightarrow> nat \<Rightarrow> cint" where
  "iscsi_pdu_length m a =
     iscsi_pdu_calc_size (iscsi_pdu_ahs_length m a) (iscsi_pdu_data_segment_length m a)"

definition iscsi_pdu_cmdSN :: "mem \<Rightarrow> nat \<Rightarrow> cint" where
  "iscsi_pdu_cmdSN m a = iscsi_byte_byte2int m (a + 24)"

definition iscsi_pdu_initiator_task_tag :: "mem \<Rightarrow> nat \<Rightarrow> cint" where
  "iscsi_pdu_initiator_task_tag m a = iscsi_byte_byte2int m (a + 16)"

definition iscsi_pdu_target_transfer_tag :: "mem \<Rightarrow> nat \<Rightarrow> cint" where
  "iscsi_pdu_target_transfer_tag m a = iscsi_byte_byte2int m (a + 20)"

definition iscsi_pdu_has_cmdSN :: "mem \<Rightarrow> nat \<Rightarrow> bool" where
  "iscsi_pdu_has_cmdSN m a \<longleftrightarrow>
     (let opc = iscsi_pdu_opcode m a in
      opc = opcode_value NOP_OUT \<or> opc = opcode_value SCSI_CMD \<or> opc = opcode_value LOGIN
      \<or> opc = opcode_value TEXT \<or> opc = opcode_value LOGOUT)"

definition iscsi_pdu_valid :: "mem \<Rightarrow> nat \<Rightarrow> cint \<Rightarrow> bool" where
  "iscsi_pdu_valid m a len \<longleftrightarrow>
     max (sint (iscsi_pdu_length m a)) (sint BASIC_HEADER_SEGMENT_LENGTH) \<le> sint len"

section \<open>Setters\<close>

definition iscsi_pdu_set_bit :: "mem \<Rightarrow> nat \<Rightarrow> nat \<Rightarrow> cint \<Rightarrow> mem" where
  "iscsi_pdu_set_bit m a b val = iscsi_byte_bit2byte m a b val"

definition iscsi_pdu_set_immediate :: "mem \<Rightarrow> nat \<Rightarrow> cint \<Rightarrow> mem" where
  "iscsi_pdu_set_immediate m a i = m(a := ucast (push_bit 6 (i AND 0x01) OR (ucast (m a) AND 0xBF)))"

definition iscsi_pdu_set_opcode :: "mem \<Rightarrow> nat \<Rightarrow> opcode \<Rightarrow> mem" where
  "iscsi_pdu_set_opcode m a opc =
     m(a := ucast ((opcode_value opc AND 0x3F) OR (ucast (m a) AND 0xC0)))"

definition iscsi_pdu_set_final :: "mem \<Rightarrow> nat \<Rightarrow> cint \<Rightarrow> mem" where
  "iscsi_pdu_set_final m a f = iscsi_byte_bit2byte m (a + 1) 0 f"

definition iscsi_pdu_set_ahs_length :: "mem \<Rightarrow> nat \<Rightarrow> cint \<Rightarrow> mem" where
  "iscsi_pdu_set_ahs_length m a ahs = m(a + 4 := byte_at ahs 0)"

definition iscsi_pdu_set_data_segment_length :: "mem \<Rightarrow> nat \<Rightarrow> cint \<Rightarrow> mem" where
  "iscsi_pdu_set_data_segment_length m a len =
     m(a + 5 := byte_at len 16, a + 6 := byte_at len 8, a + 7 := byte_at len 0)"

text \<open>The array that holds the header has \<open>ISCSI_BUFFER_SIZE\<close> bytes.\<close>

definition iscsi_pdu_set_data_segment :: "mem \<Rightarrow> nat \<Rightarrow> cptr \<Rightarrow> cint \<Rightarrow> mem result" where
  "iscsi_pdu_set_data_segment m a data len =
     c_memcpy (iscsi_pdu_set_data_segment_length m a len) ISCSI_BUFFER_SIZE (int a + 48) data (sint len)"

definition iscsi_pdu_set_initiator_task_tag :: "mem \<Rightarrow> nat \<Rightarrow> cint \<Rightarrow> mem" where
  "iscsi_pdu_set_initiator_task_tag m a tag = iscsi_byte_int2byte m (a + 16) tag"

definition iscsi_pdu_set_target_transfer_tag :: "mem \<Rightarrow> nat \<Rightarrow> cint \<Rightarrow> mem" where
  "iscsi_pdu_set_target_transfer_tag m a tag = iscsi_byte_int2byte m (a + 20) tag"

definition iscsi_pdu_generate_from_buffer :: "mem \<Rightarrow> nat \<Rightarrow> mem \<Rightarrow> nat \<Rightarrow> mem" where
  "iscsi_pdu_generate_from_buffer m a request b = blit m a (\<lambda>i. request (b + i)) 48"

definition iscsi_pdu_set_response_header ::
  "mem \<Rightarrow> nat \<Rightarrow> iSCSIConnection \<Rightarrow> mem \<times> iSCSIConnection" where
  "iscsi_pdu_set_response_header m a c =
     (iscsi_byte_int2byte
        (iscsi_byte_int2byte
          (iscsi_byte_int2byte m (a + 24) (iscsi_connection_stat_sn c))
          (a + 28) (iscsi_connection_exp_cmd_sn c))
        (a + 32) (iscsi_connection_max_cmd_sn c),
      iscsi_connection_advance_stat_sn c)"

definition iscsi_pdu_pad0 :: "mem \<Rightarrow> nat \<Rightarrow> cint \<Rightarrow> mem result" where
  "iscsi_pdu_pad0 m a len =
     (let pad_size = (iscsi_pdu_padded_length len - len) AND 0x03 in
      c_memset m ISCSI_BUFFER_SIZE (int a + sint len) 0 (sint pad_size))"

section \<open>Lengths as integers\<close>

lemma int_and_not_3: "(k :: int) AND NOT 3 = 4 * (k div 4)"
proof -
  have m: "(3 :: int) = mask 2" by (simp add: mask_eq_exp_minus_1)
  have "(k AND mask 2) + (k AND NOT (mask 2)) = k"
    by (subst disjunctive_add) (auto simp: bit_and_iff bit_not_iff bit_or_iff simp flip: bit_eq_iff
        intro: bit_eqI)
  moreover have "k AND mask 2 = k mod 4"
    by (simp flip: take_bit_eq_mask add: take_bit_eq_mod)
  moreover have "k = 4 * (k div 4) + k mod 4" by simp
  ultimately show ?thesis unfolding m by linarith
qed

lemma sint_padded [c_arith]:
  assumes "0 \<le> sint x" "sint x \<le> 2147483644"
  shows "sint (iscsi_pdu_padded_length x) = 4 * ((sint x + 3) div 4)"
proof -
  have "sint (x + 3) = sint x + 3" using assms by (simp add: c_arith)
  moreover have "sint ((x + 3) AND NOT 3) = sint (x + 3) AND NOT 3"
    by (simp add: signed_and_eq signed_not_eq)
  ultimately show ?thesis by (simp add: iscsi_pdu_padded_length_def int_and_not_3 flip: int_and_not_3)
qed

text \<open>The same on natural numbers: \<open>padn n\<close> is \<open>n\<close> rounded up to a multiple of 4.\<close>

definition padn :: "nat \<Rightarrow> nat" where
  "padn n = 4 * ((n + 3) div 4)"

lemma padn_bounds: "n \<le> padn n" "padn n \<le> n + 3"
  unfolding padn_def by presburger+

lemma padn_mono: "m \<le> n \<Longrightarrow> padn m \<le> padn n"
  unfolding padn_def by (intro mult_le_mono div_le_mono) simp_all

lemma padn_self [simp]: "4 dvd n \<Longrightarrow> padn n = n"
  unfolding padn_def by presburger

lemma sint_padded_nat:
  "sint x = int n \<Longrightarrow> n \<le> 2147483644 \<Longrightarrow> sint (iscsi_pdu_padded_length x) = int (padn n)"
  by (simp add: sint_padded padn_def zdiv_int)

lemma uint_byte_bound: "uint (b :: byte) < 256" "0 \<le> uint (b :: byte)"
  using uint_lt2p [of b] by simp_all

lemma unat_byte_bound: "unat (b :: byte) < 256"
  using uint_byte_bound [of b] by (simp add: unat_eq_nat_uint nat_less_iff del: nat_uint_eq)

lemma sint_ucast_byte [simp]: "sint (ucast (b :: byte) :: cint) = uint b"
proof -
  have "ucast b = (word_of_int (uint b) :: cint)" by simp
  then show ?thesis using uint_byte_bound [of b] by (simp only: sint_of_int)
qed

lemma data_segment_length_sum:
  "iscsi_pdu_data_segment_length m a =
     word_of_int (65536 * uint (m (a + 5)) + 256 * uint (m (a + 6)) + uint (m (a + 7)))"
proof -
  define x y z where "x = push_bit 16 (ucast (m (a + 5)) :: cint)"
    and "y = push_bit 8 (ucast (m (a + 6)) :: cint)" and "z = (ucast (m (a + 7)) :: cint)"
  have high: "\<not> bit (b :: byte) k" if "8 \<le> k" for b k
    using that bit_imp_le_length [of b k] by auto
  have "y + z = y OR z"
    by (rule disjunctive_add) (auto simp: y_def z_def bit_push_bit_iff bit_ucast_iff high)
  moreover have "x + (y OR z) = x OR (y OR z)"
    by (rule disjunctive_add)
      (auto simp: x_def y_def z_def bit_push_bit_iff bit_or_iff bit_ucast_iff high)
  moreover have "x = word_of_int (65536 * uint (m (a + 5)))" "y = word_of_int (256 * uint (m (a + 6)))"
    "z = word_of_int (uint (m (a + 7)))"
    by (simp_all add: x_def y_def z_def push_bit_eq_mult)
  ultimately have "x OR (y OR z) =
      word_of_int (65536 * uint (m (a + 5)) + (256 * uint (m (a + 6)) + uint (m (a + 7))))"
    by (simp only: of_int_add)
  then show ?thesis
    by (simp only: iscsi_pdu_data_segment_length_def x_def y_def z_def or.assoc add.assoc)
qed

lemma sint_data_segment_length:
  "sint (iscsi_pdu_data_segment_length m a) =
     65536 * uint (m (a + 5)) + 256 * uint (m (a + 6)) + uint (m (a + 7))"
  unfolding data_segment_length_sum
  using uint_byte_bound [of "m (a + 5)"] uint_byte_bound [of "m (a + 6)"] uint_byte_bound [of "m (a + 7)"]
  by (intro sint_of_int) linarith+

text \<open>The lengths a header declares, as natural numbers.\<close>

definition dsl :: "mem \<Rightarrow> nat \<Rightarrow> nat" where
  "dsl m a = nat (sint (iscsi_pdu_data_segment_length m a))"

definition plen :: "mem \<Rightarrow> nat \<Rightarrow> nat" where
  "plen m a = padn (48 + unat (m (a + 4)) + dsl m a)"

lemma sint_dsl: "sint (iscsi_pdu_data_segment_length m a) = int (dsl m a)"
  using uint_byte_bound [of "m (a + 5)"] uint_byte_bound [of "m (a + 6)"] uint_byte_bound [of "m (a + 7)"]
  by (simp add: dsl_def sint_data_segment_length)

lemma dsl_bound: "dsl m a < 16777216"
  using uint_byte_bound [of "m (a + 5)"] uint_byte_bound [of "m (a + 6)"] uint_byte_bound [of "m (a + 7)"]
  unfolding dsl_def sint_data_segment_length by auto

lemma sint_pdu_length: "sint (iscsi_pdu_length m a) = int (plen m a)"
proof -
  have u: "uint (m (a + 4)) = int (unat (m (a + 4)))" "unat (m (a + 4)) < 256"
    using unat_byte_bound by simp_all
  have "sint (48 + ucast (m (a + 4)) :: cint) = 48 + int (unat (m (a + 4)))"
    using u uint_byte_bound [of "m (a + 4)"] by (subst sint_plus) auto
  then have "sint (48 + ucast (m (a + 4)) + iscsi_pdu_data_segment_length m a)
      = int (48 + unat (m (a + 4)) + dsl m a)"
    using dsl_bound [of m a] uint_byte_bound [of "m (a + 4)"]
    by (subst sint_plus) (auto simp: sint_dsl)
  then show ?thesis
    using dsl_bound [of m a] u(2)
    by (simp add: iscsi_pdu_length_def iscsi_pdu_calc_size_def iscsi_pdu_ahs_length_def
        plen_def sint_padded_nat)
qed

lemma plen_bounds: "48 \<le> plen m a" "48 + dsl m a \<le> plen m a" "plen m a \<le> 16777600"
  using padn_bounds [of "48 + unat (m (a + 4)) + dsl m a"] dsl_bound [of m a]
    unat_byte_bound [of "m (a + 4)"] by (simp_all add: plen_def)

lemma pdu_valid_iff: "iscsi_pdu_valid m a len \<longleftrightarrow> int (plen m a) \<le> sint len"
  using plen_bounds(1) [of m a] by (auto simp: iscsi_pdu_valid_def sint_pdu_length)

lemma dsl_cong: "(\<And>i. i < 8 \<Longrightarrow> m (a + i) = m' (b + i)) \<Longrightarrow> dsl m a = dsl m' b"
  by (simp add: dsl_def iscsi_pdu_data_segment_length_def)

lemma plen_cong: "(\<And>i. i < 8 \<Longrightarrow> m (a + i) = m' (b + i)) \<Longrightarrow> plen m a = plen m' b"
  using dsl_cong [of m a m' b] by (simp add: plen_def)

text \<open>The setter of the data segment length stores the low 24 bits.\<close>

lemma data_segment_length_eqI:
  assumes "m (a + 5) = byte_at v 16" "m (a + 6) = byte_at v 8" "m (a + 7) = byte_at v 0"
    "0 \<le> sint v" "sint v < 16777216"
  shows "iscsi_pdu_data_segment_length m a = v"
proof (rule bit_word_eqI)
  fix n assume "n < LENGTH(32)"
  then have n: "n < 32" by simp
  have high: "\<not> bit (b :: byte) k" if "8 \<le> k" for b k
    using that bit_imp_le_length [of b k] by auto
  have "int (unat v) < 16777216" using assms(4,5) sint_eq_unat [of v] by linarith
  then have "unat v < 16777216" by linarith
  then have "unat v < 2 ^ 24" by simp
  then have v: "\<not> bit v n" if "24 \<le> n"
    using that by (metis bit_take_bit_iff not_le take_bit_nat_eq_self unsigned_take_bit_eq
        word_eq_iff_unsigned take_bit_word_eq_self unsigned_word_eqI)
  consider "n < 8" | "8 \<le> n" "n < 16" | "16 \<le> n" "n < 24" | "24 \<le> n" by linarith
  then show "bit (iscsi_pdu_data_segment_length m a) n = bit v n"
    unfolding iscsi_pdu_data_segment_length_def assms using n
    by cases (auto simp: bit_or_iff bit_push_bit_iff bit_ucast_iff bit_byte_at high v)
qed

lemma and_3_small:
  assumes "0 \<le> sint y" "sint y < 4"
  shows "y AND 3 = (y :: cint)"
proof -
  have "int (unat y) < 4" using assms sint_eq_unat [of y] by linarith
  then have "unat y < 4" by linarith
  then have "unat y < 2 ^ 2" by simp
  then have "take_bit 2 y = y"
    by (metis take_bit_nat_eq_self unsigned_take_bit_eq unsigned_word_eqI)
  then show ?thesis by (simp add: take_bit_eq_mask mask_eq_exp_minus_1)
qed

lemma pad0_ok:
  assumes "sint len = int n" "a + padn n \<le> 4194304"
  shows "iscsi_pdu_pad0 m a len = Inr (blit m (a + n) (\<lambda>_. 0) (padn n - n))"
proof -
  note b = padn_bounds [of n]
  have "sint (iscsi_pdu_padded_length len) = int (padn n)"
    using assms b by (intro sint_padded_nat) simp_all
  then have d: "sint (iscsi_pdu_padded_length len - len) = int (padn n) - int n"
    using assms b by (subst sint_minus) simp_all
  then have "(iscsi_pdu_padded_length len - len) AND 3 = iscsi_pdu_padded_length len - len"
    using b by (intro and_3_small) simp_all
  then show ?thesis
    using d b assms by (simp add: iscsi_pdu_pad0_def c_memset_ok nat_add_distrib nat_diff_distrib')
qed

section \<open>Fields read back\<close>

lemma opcode_low: "opcode_value opc AND 0x3F = opcode_value opc"
  by (cases opc) simp_all

lemma bit_opcode: "bit (opcode_value opc) n \<Longrightarrow> n < 6"
  by (subst (asm) opcode_low [symmetric]) (simp add: bit_and_iff bit_masks)

lemma set_opcode_bit:
  "n < 8 \<Longrightarrow> bit (iscsi_pdu_set_opcode m a opc a) n = (if n < 6 then bit (opcode_value opc) n else bit (m a) n)"
  by (auto simp: iscsi_pdu_set_opcode_def opcode_low bit_simps bit_masks dest: bit_opcode)

lemma opcode_set_opcode: "iscsi_pdu_opcode (iscsi_pdu_set_opcode m a opc) a = opcode_value opc"
proof (rule bit_word_eqI)
  fix n assume "n < LENGTH(32)"
  then show "bit (iscsi_pdu_opcode (iscsi_pdu_set_opcode m a opc) a) n = bit (opcode_value opc) n"
    using bit_opcode [of opc n] set_opcode_bit [of n m a opc]
    by (cases "n < 6") (auto simp: iscsi_pdu_opcode_def bit_simps bit_masks)
qed

lemma immediate_set_opcode:
  "iscsi_pdu_immediate (iscsi_pdu_set_opcode m a opc) a = iscsi_pdu_immediate m a"
  by (simp add: iscsi_pdu_immediate_def byte2bit_eq set_opcode_bit)

lemma data_segment_length_low:
  "iscsi_pdu_data_segment_length (iscsi_pdu_set_data_segment_length m a v) a = v AND 0xFFFFFF"
proof (rule bit_word_eqI)
  fix n assume "n < LENGTH(32)"
  then have n: "n < 32" by simp
  have high: "\<not> bit (b :: byte) k" if "8 \<le> k" for b k
    using that bit_imp_le_length [of b k] by auto
  consider "n < 8" | "8 \<le> n" "n < 16" | "16 \<le> n" "n < 24" | "24 \<le> n" by linarith
  then show "bit (iscsi_pdu_data_segment_length (iscsi_pdu_set_data_segment_length m a v) a) n = bit (v AND 0xFFFFFF) n"
    unfolding iscsi_pdu_data_segment_length_def iscsi_pdu_set_data_segment_length_def using n
    by cases (auto simp: bit_simps bit_byte_at high bit_masks)
qed
end
