(* ===== verification/Iscsi_Control.thy ===== *)
theory Iscsi_Control
  imports Iscsi_Pdu
begin

text \<open>
  The responses that need no SCSI device: \<^verbatim>\<open>request/reject.c\<close>, \<^verbatim>\<open>request/logout.c\<close>,
  \<^verbatim>\<open>request/nop.c\<close> and \<^verbatim>\<open>request/text.c\<close>. A request is the start of the receive buffer of the
  connection; the response is built in place after the bytes that wait in the response buffer, while
  its semaphore is held, and is appended when the semaphore is posted.
\<close>

section \<open>The request and the response under construction\<close>

definition request_of :: "iSCSIConnection \<Rightarrow> mem" where
  "request_of c = bdata (receive_buffer c)"

definition request_ptr :: "iSCSIConnection \<Rightarrow> nat \<Rightarrow> cptr" where
  "request_ptr c a = padd (iscsi_buffer_data (receive_buffer c)) a"

definition iscsi_pdu_data :: "iSCSIConnection \<Rightarrow> cptr" where
  "iscsi_pdu_data c = request_ptr c 48"

text \<open>
  \<open>iscsi_buffer_acquire_lock_for_length\<close> and the first use of the pointer it returns: the setters
  write the 48 bytes from there on. The result is the position, the array and the connection.
\<close>

definition response_acquire :: "iSCSIConnection \<Rightarrow> cint \<Rightarrow> (nat \<times> mem \<times> iSCSIConnection) result" where
  "response_acquire c len =
     bindR (iscsi_buffer_acquire_lock_for_length (response_buffer c) len) (\<lambda>(p, b).
       case p of
         None \<Rightarrow> Inl NullPointer
       | Some p \<Rightarrow>
           if int p + 48 \<le> ISCSI_BUFFER_SIZE then Inr (p, bdata b, c\<lparr>response_buffer := b\<rparr>)
           else Inl OutOfBounds)"

definition response_release :: "iSCSIConnection \<Rightarrow> mem \<Rightarrow> cint \<Rightarrow> iSCSIConnection" where
  "response_release c m len =
     c\<lparr>response_buffer := iscsi_buffer_release_lock ((response_buffer c)\<lparr>bdata := m\<rparr>) len\<rparr>"

section \<open>Reject\<close>

datatype reject_reason =
    RESERVED | DATA_DIGEST_ERROR | SNACK_REJECT | PROTOCOL_ERROR | CMD_NOT_SUPPORTED
  | IMM_CMD_REJECTED | TASK_IN_PROGRESS | INVALID_DATA_ACK | INVALID_PDU_FIELD | LONG_OP_REJECT
  | DEPRECATED | WAITING_FOR_LOGOUT

fun reject_reason_value :: "reject_reason \<Rightarrow> cint" where
  "reject_reason_value RESERVED = 0x01"
| "reject_reason_value DATA_DIGEST_ERROR = 0x02"
| "reject_reason_value SNACK_REJECT = 0x03"
| "reject_reason_value PROTOCOL_ERROR = 0x04"
| "reject_reason_value CMD_NOT_SUPPORTED = 0x05"
| "reject_reason_value IMM_CMD_REJECTED = 0x06"
| "reject_reason_value TASK_IN_PROGRESS = 0x07"
| "reject_reason_value INVALID_DATA_ACK = 0x08"
| "reject_reason_value INVALID_PDU_FIELD = 0x09"
| "reject_reason_value LONG_OP_REJECT = 0x0A"
| "reject_reason_value DEPRECATED = 0x0B"
| "reject_reason_value WAITING_FOR_LOGOUT = 0x0C"

definition iscsi_pdu_request_reject_set_reason :: "mem \<Rightarrow> nat \<Rightarrow> reject_reason \<Rightarrow> mem" where
  "iscsi_pdu_request_reject_set_reason m a reason = m(a + 2 := ucast (reject_reason_value reason))"

text \<open>The data of a reject may be the null pointer (\<open>None\<close>), of which no byte can be copied.\<close>

definition iscsi_request_reject ::
  "iSCSIConnection \<Rightarrow> reject_reason \<Rightarrow> cptr option \<Rightarrow> cint \<Rightarrow> (cint \<times> iSCSIConnection) result" where
  "iscsi_request_reject c reason data len =
     (let total_len = BASIC_HEADER_SEGMENT_LENGTH + len;
          padded_len = iscsi_pdu_padded_length total_len in
      bindR (response_acquire c padded_len) (\<lambda>(p, m, c).
        let m = iscsi_pdu_set_opcode m p REJECT;
            m = iscsi_pdu_set_final m p 1;
            (m, c) = iscsi_pdu_set_response_header m p c;
            m = iscsi_pdu_request_reject_set_reason m p reason;
            m = iscsi_pdu_set_initiator_task_tag m p DEFAULT_INITIAL_TASK_TAG in
        bindR (case data of
                 None \<Rightarrow> if len = 0 then Inr (iscsi_pdu_set_data_segment_length m p len)
                         else Inl NullPointer
               | Some d \<Rightarrow> iscsi_pdu_set_data_segment m p d len) (\<lambda>m.
        bindR (iscsi_pdu_pad0 m p total_len) (\<lambda>m.
          Inr (0, response_release c m padded_len)))))"

section \<open>Logout\<close>

datatype logout_response_code =
    LOGOUT_SUCCESS | LOGOUT_CID_NOT_FOUND | LOGOUT_CONNECTION_RECOVERY_NOT_SUPPORT
  | LOGOUT_CLEANUP_FAIL

fun logout_response_value :: "logout_response_code \<Rightarrow> cint" where
  "logout_response_value LOGOUT_SUCCESS = 0x00"
| "logout_response_value LOGOUT_CID_NOT_FOUND = 0x01"
| "logout_response_value LOGOUT_CONNECTION_RECOVERY_NOT_SUPPORT = 0x02"
| "logout_response_value LOGOUT_CLEANUP_FAIL = 0x03"

definition iscsi_pdu_request_logout_set_response :: "mem \<Rightarrow> nat \<Rightarrow> logout_response_code \<Rightarrow> mem" where
  "iscsi_pdu_request_logout_set_response m a code = m(a + 2 := ucast (logout_response_value code))"

definition iscsi_pdu_request_logout_set_time2wait :: "mem \<Rightarrow> nat \<Rightarrow> cint \<Rightarrow> mem" where
  "iscsi_pdu_request_logout_set_time2wait m a t = iscsi_byte_short2byte m (a + 40) t"

definition iscsi_pdu_request_logout_set_time2retain :: "mem \<Rightarrow> nat \<Rightarrow> cint \<Rightarrow> mem" where
  "iscsi_pdu_request_logout_set_time2retain m a t = iscsi_byte_short2byte m (a + 42) t"

definition iscsi_request_logout_process :: "iSCSIConnection \<Rightarrow> (cint \<times> iSCSIConnection) result" where
  "iscsi_request_logout_process c =
     (if session_reference c = NoSession
      then iscsi_request_reject c PROTOCOL_ERROR (Some (request_ptr c 0)) BASIC_HEADER_SEGMENT_LENGTH
      else bindR (response_acquire c BASIC_HEADER_SEGMENT_LENGTH) (\<lambda>(p, m, c).
        let m = iscsi_pdu_set_opcode m p LOGOUT_RES;
            m = iscsi_pdu_set_final m p 1;
            (m, c) = iscsi_pdu_set_response_header m p c;
            m = iscsi_pdu_request_logout_set_response m p LOGOUT_SUCCESS;
            m = iscsi_pdu_request_logout_set_time2wait m p 0;
            m = iscsi_pdu_request_logout_set_time2retain m p 0 in
        Inr (BASIC_HEADER_SEGMENT_LENGTH, response_release c m BASIC_HEADER_SEGMENT_LENGTH)))"

section \<open>NOP-Out\<close>

definition iscsi_request_nop_out_process :: "iSCSIConnection \<Rightarrow> (cint \<times> iSCSIConnection) result" where
  "iscsi_request_nop_out_process c =
     (let request = request_of c;
          max_receive = iscsi_connection_parameter_max_receive_data_segment_length (iscsi_connection_parameter c);
          data_length = c_min max_receive (iscsi_pdu_data_segment_length request 0);
          total_len = BASIC_HEADER_SEGMENT_LENGTH + data_length;
          valid = True in
      bindR (response_acquire c total_len) (\<lambda>(p, m, c).
        let m = iscsi_pdu_set_opcode m p NOP_IN;
            m = iscsi_pdu_set_final m p 1;
            m = (if valid then
                   iscsi_pdu_set_target_transfer_tag
                     (iscsi_pdu_set_initiator_task_tag m p (iscsi_pdu_initiator_task_tag request 0))
                     p (iscsi_pdu_target_transfer_tag request 0)
                 else
                   iscsi_pdu_set_target_transfer_tag
                     (iscsi_pdu_set_initiator_task_tag m p DEFAULT_INITIAL_TASK_TAG)
                     p DEFAULT_TARGET_TRANSFER_TAG);
            (m, c) = iscsi_pdu_set_response_header m p c in
        bindR (iscsi_pdu_set_data_segment m p (iscsi_pdu_data c) data_length) (\<lambda>m.
        bindR (iscsi_pdu_pad0 m p (total_len - BASIC_HEADER_SEGMENT_LENGTH
                 - iscsi_pdu_data_segment_length request 0)) (\<lambda>m.
          Inr (total_len, response_release c m total_len)))))"

section \<open>Text\<close>

definition iscsi_pdu_text_continue :: "mem \<Rightarrow> nat \<Rightarrow> cint" where
  "iscsi_pdu_text_continue m a = iscsi_byte_byte2bit (m (a + 2)) 1"

definition iscsi_pdu_text_initiator_task_tag :: "mem \<Rightarrow> nat \<Rightarrow> cint" where
  "iscsi_pdu_text_initiator_task_tag m a = iscsi_byte_byte2int m (a + 16)"

text \<open>
  \<open>int_to_byte\<close>, which only code in comments calls: the static array of 20 bytes after \<open>snprintf\<close> with
  the conversion \<open>%d\<close>.
\<close>

definition signed_decimal :: "cint \<Rightarrow> byte list" where
  "signed_decimal v = (if sint v < 0 then 45 # decimal (nat (- sint v)) else decimal (nat (sint v)))"

definition int_to_byte :: "mem \<Rightarrow> cint \<Rightarrow> mem" where
  "int_to_byte int_value v =
     (let s = take 19 (signed_decimal v) @ [0] in blit int_value 0 (\<lambda>i. s ! i) (length s))"

text \<open>The reply to \<open>SendTargets\<close>, with the NUL that \<open>sizeof\<close> counts.\<close>

definition ISCSI_TARGET_IQN :: "byte list" where
  "ISCSI_TARGET_IQN = cstr ''iqn.2019-10.chula.ac.th:iscsi-disk.sn.12345''"

definition response_text :: "byte list" where
  "response_text = cstr ''TargetName='' @ ISCSI_TARGET_IQN @ [0]"

definition iscsi_request_text_process ::
  "iSCSISession \<Rightarrow> iSCSIConnection \<Rightarrow> (cint \<times> iSCSIConnection) result" where
  "iscsi_request_text_process session c =
     (let request = request_of c in
      if iscsi_pdu_text_continue request 0 \<noteq> 0 then
        bindR (response_acquire c BASIC_HEADER_SEGMENT_LENGTH) (\<lambda>(p, m, c).
          let m = iscsi_pdu_generate_from_buffer m p request 0;
              m = iscsi_pdu_set_opcode m p TEXT_RES;
              m = iscsi_pdu_set_final m p 1 in
          Inr (BASIC_HEADER_SEGMENT_LENGTH, response_release c m BASIC_HEADER_SEGMENT_LENGTH))
      else
        bindR (iscsi_parameter_get (iscsi_pdu_data c) (iscsi_pdu_data_segment_length request 0)
                 (lit (cstr ''SendTargets''))) (\<lambda>found.
          if found \<noteq> None then
            (let text_length = word_of_nat (length response_text);
                 len = BASIC_HEADER_SEGMENT_LENGTH + text_length;
                 padded_len = iscsi_pdu_padded_length len in
             bindR (response_acquire c padded_len) (\<lambda>(p, m, c).
               let m = iscsi_pdu_generate_from_buffer m p request 0;
                   m = iscsi_pdu_set_opcode m p TEXT_RES;
                   m = iscsi_pdu_set_final m p 1;
                   m = iscsi_pdu_set_data_segment_length m p text_length in
               bindR (c_memcpy m ISCSI_BUFFER_SIZE (int p + 48) (lit response_text) (sint text_length)) (\<lambda>m.
               bindR (iscsi_pdu_pad0 m p len) (\<lambda>m.
                 Inr (padded_len, response_release c m padded_len)))))
          else if is_discovery session \<noteq> 0 then Inr (0, c)
          else bindR (iscsi_connection_parameter_vendor_specific (iscsi_connection_parameter c)) (\<lambda>_. Inr (0, c))))"

end
