(* ===== verification/Iscsi_Response.thy ===== *)
theory Iscsi_Response
  imports Iscsi_Control
begin

text \<open>
  What the handlers put on the wire. Every response with sequence numbers is a \<open>response_bhs\<close>, a
  header of 48 bytes, followed by its data segment and zeros up to a multiple of 4; \<open>frame\<close> says that
  the length a receiver reads from the header is the length of the message. The locale \<open>sender\<close> is
  the contract of such a handler: with room in the response buffer it appends its message and
  advances StatSN, without room it waits and changes nothing. Its client lemmas are about a series
  of messages; each handler is an interpretation.
\<close>

section \<open>Reserving and committing\<close>

definition reserved :: "iSCSIConnection \<Rightarrow> nat \<Rightarrow> mem" where
  "reserved c n = blit (bdata (response_buffer c)) (fill (response_buffer c)) (\<lambda>_. 0) n"

definition committed :: "iSCSIConnection \<Rightarrow> mem \<Rightarrow> nat \<Rightarrow> iSCSIConnection" where
  "committed c m n = c\<lparr>response_buffer := (response_buffer c)\<lparr>
     blength := blength (response_buffer c) + word_of_nat n, block := 1, bdata := m\<rparr>\<rparr>"

definition untouched :: "iSCSIConnection \<Rightarrow> mem \<Rightarrow> bool" where
  "untouched c m \<longleftrightarrow> (\<forall>i < fill (response_buffer c). m i = bdata (response_buffer c) i)"

lemma response_acquire_ok:
  assumes "room (response_buffer c) n" "sint len = int n" "48 \<le> n"
  shows "response_acquire c len = Inr (fill (response_buffer c), reserved c n,
    c\<lparr>response_buffer := (response_buffer c)\<lparr>block := 0, bdata := reserved c n\<rparr>\<rparr>)"
proof -
  have "int (fill (response_buffer c)) + 48 \<le> 4194304" using assms(1,3) by (simp add: room_def)
  then show ?thesis by (simp add: response_acquire_def acquire_ok [OF assms(1,2)] reserved_def)
qed

lemma response_acquire_blocked:
  assumes "buffer_ok (response_buffer c)" "sint len = int n" "n \<le> 4194304"
    "\<not> room (response_buffer c) n"
  shows "response_acquire c len = Inl Blocked"
  using assms by (simp add: response_acquire_def acquire_blocked room_def)

lemma sint_word_of_nat: 
  assumes "sint (len :: cint) = int n"
  shows "len = word_of_nat n"
proof -
  have "len = word_of_int (sint len)" by simp
  also have "\<dots> = word_of_int (int n)" by (simp only: assms)
  finally show ?thesis by simp
qed

lemma response_release_committed:
  "sint len = int n \<Longrightarrow>
   response_release (c\<lparr>response_buffer := (response_buffer c)\<lparr>block := 0, bdata := x\<rparr>\<rparr>) m len = committed c m n"
  "sint len = int n \<Longrightarrow>
   response_release (c\<lparr>response_buffer := (response_buffer c)\<lparr>block := 0, bdata := x\<rparr>, stat_sn := s\<rparr>) m len
     = (committed c m n)\<lparr>stat_sn := s\<rparr>"
  by (simp_all add: response_release_def iscsi_buffer_release_lock_def committed_def sint_word_of_nat)

lemma committed_ok:
  assumes "room (response_buffer c) n" "untouched c m"
  shows "buffer_ok (response_buffer (committed c m n))"
    and "contents (response_buffer (committed c m n))
      = contents (response_buffer c) @ bytes_of m (fill (response_buffer c)) n"
proof -
  let ?b = "(response_buffer c)\<lparr>block := 0, bdata := m\<rparr>"
  have r: "buffer_ok (response_buffer c)" "fill (response_buffer c) + n \<le> 4194304"
    using assms(1) by (simp_all add: room_def)
  then have l: "sint (word_of_nat n :: cint) = int n" by (intro sint_of_nat) simp
  have f: "fill ?b = fill (response_buffer c)" by (simp add: fill_def)
  have "contents ?b = contents (response_buffer c)"
    using assms(2) unfolding contents_def f by (intro bytes_of_cong) (simp add: untouched_def)
  moreover have e: "response_buffer (committed c m n) = iscsi_buffer_release_lock ?b (word_of_nat n)"
    by (simp add: committed_def iscsi_buffer_release_lock_def)
  ultimately show "buffer_ok (response_buffer (committed c m n))"
    "contents (response_buffer (committed c m n))
      = contents (response_buffer c) @ bytes_of m (fill (response_buffer c)) n"
    using r release_ok [of ?b n "word_of_nat n"] l f by (simp_all add: buffer_ok_def)
qed

section \<open>Messages as byte lists\<close>

definition be32 :: "cint \<Rightarrow> byte list" where
  "be32 v = [byte_at v 24, byte_at v 16, byte_at v 8, byte_at v 0]"

definition be24 :: "cint \<Rightarrow> byte list" where
  "be24 v = [byte_at v 16, byte_at v 8, byte_at v 0]"

definition response_bhs ::
  "byte list \<Rightarrow> cint \<Rightarrow> cint \<Rightarrow> cint \<Rightarrow> cint \<Rightarrow> cint \<Rightarrow> byte list \<Rightarrow> byte list" where
  "response_bhs start len itt ttt sn ec trailer =
     start @ [0] @ be24 len @ replicate 8 0 @ be32 itt @ be32 ttt @ be32 sn @ be32 ec @ be32 ec @ trailer"

definition pad_zeros :: "nat \<Rightarrow> byte list" where
  "pad_zeros n = replicate (padn n - n) 0"

text \<open>The message is as long as the PDU length that its own header gives.\<close>

definition frame :: "byte list \<Rightarrow> bool" where
  "frame bs \<longleftrightarrow> plen (mem_of bs) 0 = length bs"

lemma length_be [simp]: "length (be32 v) = 4" "length (be24 v) = 3"
  by (simp_all add: be32_def be24_def)

lemma length_response_bhs [simp]:
  "length (response_bhs start len itt ttt sn ec trailer) = length start + 32 + length trailer"
  by (simp add: response_bhs_def)

lemma length_pad_zeros [simp]: "length (pad_zeros n) = padn n - n"
  by (simp add: pad_zeros_def)

lemma bytes_of_48:
  "bytes_of m p 48 =
     [m p, m (p + 1), m (p + 2), m (p + 3), m (p + 4), m (p + 5), m (p + 6), m (p + 7), m (p +
      8), m (p + 9), m (p + 10), m (p + 11), m (p + 12), m (p + 13), m (p + 14), m (p + 15), m
      (p + 16), m (p + 17), m (p + 18), m (p + 19), m (p + 20), m (p + 21), m (p + 22), m (p +
      23), m (p + 24), m (p + 25), m (p + 26), m (p + 27), m (p + 28), m (p + 29), m (p + 30), m
      (p + 31), m (p + 32), m (p + 33), m (p + 34), m (p + 35), m (p + 36), m (p + 37), m (p +
      38), m (p + 39), m (p + 40), m (p + 41), m (p + 42), m (p + 43), m (p + 44), m (p + 45), m
      (p + 46), m (p + 47)]"
proof -
  have "bytes_of m p 48 = map (\<lambda>i. m (p + i)) [0..<48]"
    by (rule nth_equalityI) auto
  also have "[0..<48] = ([0, 1, 2, 3, 4, 5, 6, 7, 8, 9, 10, 11, 12, 13, 14, 15, 16, 17, 18, 19, 20, 21, 22, 23, 24,
      25, 26, 27, 28, 29, 30, 31, 32, 33, 34, 35, 36, 37, 38, 39, 40, 41, 42, 43, 44, 45, 46,
      47] :: nat list)"
    by code_simp
  finally show ?thesis by simp
qed

text \<open>A header, its data and the padding, where the header gives the length of the data.\<close>

lemma frame_bytes:
  assumes h: "length h = 48" "h ! 4 = 0" "h ! 5 = byte_at len 16" "h ! 6 = byte_at len 8" "h ! 7 = byte_at len 0"
    and d: "sint len = int (length d)" "length d < 16777216"
  shows "frame (h @ d @ pad_zeros (48 + length d))"
proof -
  let ?m = "mem_of (h @ d @ pad_zeros (48 + length d))"
  have b: "?m 4 = 0" "?m 5 = byte_at len 16" "?m 6 = byte_at len 8" "?m 7 = byte_at len 0"
    using h by (simp_all add: mem_of_def nth_append)
  then have "iscsi_pdu_data_segment_length ?m 0 = len"
    using d by (intro data_segment_length_eqI) simp_all
  then have "dsl ?m 0 = length d" using d(1) by (simp add: dsl_def)
  then show ?thesis
    using padn_bounds [of "48 + length d"] by (simp add: frame_def plen_def b h)
qed

lemma frame_response:
  assumes "length start = 4" "length trailer = 12" "sint len = int (length d)" "length d < 16777216"
  shows "frame (response_bhs start len itt ttt sn ec trailer @ d @ pad_zeros (48 + length d))"
proof -
  obtain a0 a1 a2 a3 where st: "start = [a0, a1, a2, a3]"
    using assms(1) by (auto simp: numeral_eq_Suc length_Suc_conv)
  show ?thesis
    using assms by (intro frame_bytes) (simp_all add: st response_bhs_def be24_def nth_Cons')
qed

section \<open>The contract of a handler that responds\<close>

fun send_all ::
  "(iSCSIConnection \<Rightarrow> 'a \<Rightarrow> iSCSIConnection result) \<Rightarrow> iSCSIConnection \<Rightarrow> 'a list \<Rightarrow> iSCSIConnection result" where
  "send_all send c [] = Inr c"
| "send_all send c (a # as) = bindR (send c a) (\<lambda>c. send_all send c as)"

fun messages :: "(iSCSIConnection \<Rightarrow> 'a \<Rightarrow> byte list) \<Rightarrow> iSCSIConnection \<Rightarrow> 'a list \<Rightarrow> byte list list" where
  "messages msg c [] = []"
| "messages msg c (a # as) = msg c a # messages msg (c\<lparr>stat_sn := stat_sn c + 1\<rparr>) as"

definition after :: "iSCSIConnection \<Rightarrow> byte list \<Rightarrow> nat \<Rightarrow> iSCSIConnection result \<Rightarrow> bool" where
  "after c bs k r \<longleftrightarrow> (\<exists>b. r = Inr (c\<lparr>response_buffer := b, stat_sn := stat_sn c + word_of_nat k\<rparr>)
     \<and> buffer_ok b \<and> contents b = contents (response_buffer c) @ bs)"

text \<open>What \<open>after\<close> says of a handler that also returns a status.\<close>

lemma after_pairD:
  assumes "after c bs k (map_sum id snd r)"
  shows "\<exists>v b. r = Inr (v, c\<lparr>response_buffer := b, stat_sn := stat_sn c + word_of_nat k\<rparr>) \<and> buffer_ok b
    \<and> contents b = contents (response_buffer c) @ bs"
  using assms by (cases r) (auto simp: after_def)

lemma stat_sn_response_buffer [simp]:
  "c\<lparr>stat_sn := s, response_buffer := b\<rparr> = (c :: iSCSIConnection)\<lparr>response_buffer := b, stat_sn := s\<rparr>"
  by (cases c) simp

lemma fill_length: "fill b = length (contents b)"
  by simp

locale sender =
  fixes send :: "iSCSIConnection \<Rightarrow> 'a \<Rightarrow> iSCSIConnection result"
    and msg :: "iSCSIConnection \<Rightarrow> 'a \<Rightarrow> byte list"
    and good :: "iSCSIConnection \<Rightarrow> 'a \<Rightarrow> bool"
  assumes sends: "good c a \<Longrightarrow> room (response_buffer c) (length (msg c a)) \<Longrightarrow> after c (msg c a) (Suc 0) (send c a)"
    and waits: "good c a \<Longrightarrow> buffer_ok (response_buffer c) \<Longrightarrow> \<not> room (response_buffer c) (length (msg c a))
      \<Longrightarrow> send c a = Inl Blocked"
    and framed: "good c a \<Longrightarrow> frame (msg c a)"
    and good_stable: "good (c\<lparr>response_buffer := b, stat_sn := s\<rparr>) a = good c a"
    and msg_stable: "msg (c\<lparr>response_buffer := b\<rparr>) a = msg c a"
begin

lemma messages_stable: "messages msg (c\<lparr>response_buffer := b\<rparr>) as = messages msg c as"
proof (induction as arbitrary: c)
  case (Cons a as)
  show ?case using Cons [of "c\<lparr>stat_sn := stat_sn c + 1\<rparr>"] by (simp add: msg_stable)
qed simp

lemma good_sn: "good (c\<lparr>stat_sn := s\<rparr>) a = good c a"
  using good_stable [where c = c and b = "response_buffer c"] by simp

text \<open>A series of messages that fits is appended in order, each with the next StatSN.\<close>

lemma send_all_ok:
  assumes "\<forall>a \<in> set as. good c a" "room (response_buffer c) (length (concat (messages msg c as)))"
  shows "after c (concat (messages msg c as)) (length as) (send_all send c as)"
  using assms
proof (induction as arbitrary: c)
  case Nil
  have "c\<lparr>response_buffer := response_buffer c, stat_sn := stat_sn c\<rparr> = c" by simp
  then show ?case using Nil by (auto simp: after_def room_def intro!: exI [of _ "response_buffer c"])
next
  case (Cons a as)
  let ?c = "c\<lparr>stat_sn := stat_sn c + 1\<rparr>"
  have "room (response_buffer c) (length (msg c a))"
    using Cons.prems(2) by (simp add: room_def)
  with Cons.prems(1) have "after c (msg c a) (Suc 0) (send c a)" by (intro sends) simp_all
  then obtain b where b: "send c a = Inr (?c\<lparr>response_buffer := b\<rparr>)" "buffer_ok b"
    "contents b = contents (response_buffer c) @ msg c a"
    by (auto simp: after_def)
  have f: "fill b = fill (response_buffer c) + length (msg c a)"
    using b(3) unfolding fill_length by simp
  have "after (?c\<lparr>response_buffer := b\<rparr>) (concat (messages msg (?c\<lparr>response_buffer := b\<rparr>) as)) (length as)
      (send_all send (?c\<lparr>response_buffer := b\<rparr>) as)"
  proof (rule Cons.IH)
    show "\<forall>a \<in> set as. good (?c\<lparr>response_buffer := b\<rparr>) a"
      using Cons.prems(1) good_stable by simp
    show "room (response_buffer (?c\<lparr>response_buffer := b\<rparr>))
        (length (concat (messages msg (?c\<lparr>response_buffer := b\<rparr>) as)))"
      using Cons.prems(2) b(2) f unfolding messages_stable by (simp add: room_def)
  qed
  then show ?case
    unfolding messages_stable by (auto simp: after_def b ac_simps)
qed

text \<open>A series that does not fit stops, for whoever empties the buffer.\<close>

lemma send_all_blocked:
  assumes "\<forall>a \<in> set as. good c a" "buffer_ok (response_buffer c)"
    "\<not> room (response_buffer c) (length (concat (messages msg c as)))"
  shows "send_all send c as = Inl Blocked"
  using assms
proof (induction as arbitrary: c)
  case Nil
  then show ?case using fill_bound by (simp add: room_def)
next
  case (Cons a as)
  let ?c = "c\<lparr>stat_sn := stat_sn c + 1\<rparr>"
  show ?case
  proof (cases "room (response_buffer c) (length (msg c a))")
    case False
    with Cons.prems show ?thesis by (simp add: waits)
  next
    case True
    with Cons.prems(1) have "after c (msg c a) (Suc 0) (send c a)" by (intro sends) simp_all
    then obtain b where b: "send c a = Inr (?c\<lparr>response_buffer := b\<rparr>)" "buffer_ok b"
      "contents b = contents (response_buffer c) @ msg c a"
      by (auto simp: after_def)
    have f: "fill b = fill (response_buffer c) + length (msg c a)"
      using b(3) unfolding fill_length by simp
    have "send_all send (?c\<lparr>response_buffer := b\<rparr>) as = Inl Blocked"
    proof (rule Cons.IH)
      show "\<forall>a \<in> set as. good (?c\<lparr>response_buffer := b\<rparr>) a"
        using Cons.prems(1) good_stable by simp
      show "\<not> room (response_buffer (?c\<lparr>response_buffer := b\<rparr>))
          (length (concat (messages msg (?c\<lparr>response_buffer := b\<rparr>) as)))"
        using Cons.prems(2,3) b(2) f unfolding messages_stable by (simp add: room_def)
    qed (simp add: b(2))
    then show ?thesis by (simp add: b(1))
  qed
qed

lemma messages_framed: "\<forall>a \<in> set as. good c a \<Longrightarrow> \<forall>m \<in> set (messages msg c as). frame m"
proof (induction as arbitrary: c)
  case (Cons a as)
  then show ?case using Cons.IH [of "c\<lparr>stat_sn := stat_sn c + 1\<rparr>"] by (simp add: framed good_sn)
qed simp

end

section \<open>From a handler's last step to the contract\<close>

named_theorems pdu_setters \<open>the writes behind the setters of header fields\<close>

lemmas [pdu_setters] =
  iscsi_pdu_set_opcode_def iscsi_pdu_set_final_def iscsi_pdu_set_ahs_length_def
  iscsi_pdu_set_data_segment_length_def iscsi_pdu_set_initiator_task_tag_def
  iscsi_pdu_set_target_transfer_tag_def iscsi_byte_int2byte_def iscsi_byte_short2byte_def
  iscsi_byte_bit2byte_def iscsi_pdu_set_bit_def

lemmas respond_simps = iscsi_pdu_set_response_header_def iscsi_connection_advance_stat_sn_def
  iscsi_connection_max_cmd_sn_def response_release_committed

lemma untouched_reserved [simp]: "untouched c (reserved c n)"
  by (simp add: untouched_def reserved_def blit_out)

lemma untouched_upd [simp]: "fill (response_buffer c) \<le> i \<Longrightarrow> untouched c (m(i := v)) \<longleftrightarrow> untouched c m"
  by (auto simp: untouched_def)

lemma untouched_blit [simp]:
  "fill (response_buffer c) \<le> off \<Longrightarrow> untouched c (blit m off f n) \<longleftrightarrow> untouched c m"
  by (auto simp: untouched_def blit_out)

lemma reserved_at:
  "k < n \<Longrightarrow> reserved c n (fill (response_buffer c) + k) = 0"
  "0 < n \<Longrightarrow> reserved c n (fill (response_buffer c)) = 0"
  using blit_at [of _ "fill (response_buffer c)" _ _ 0] by (simp_all add: reserved_def)

lemma reserved_at_Suc:
  "1 < n \<Longrightarrow> reserved c n (Suc (fill (response_buffer c))) = 0"
  "2 < n \<Longrightarrow> reserved c n (Suc (Suc (fill (response_buffer c)))) = 0"
  using reserved_at(1) [of 1 n c] reserved_at(1) [of 2 n c] by simp_all

lemma ucast_ucast_byte [simp]: "ucast (ucast (b :: byte) :: cint) = b"
  by (rule bit_word_eqI) (auto simp: bit_ucast_iff)

lemma byte_at_0 [simp]: "byte_at 0 k = 0"
  by (simp add: byte_at_def)

lemma replicate_8: "replicate 8 x = [x, x, x, x, x, x, x, x]"
  by (simp add: numeral_eq_Suc)

lemma replicate_12: "replicate 12 x = [x, x, x, x, x, x, x, x, x, x, x, x]"
  by (simp add: numeral_eq_Suc)

lemmas message_simps =
  bytes_of_48 reserved_at reserved_at_Suc response_bhs_def be32_def be24_def replicate_8 replicate_12

lemma after_committed:
  assumes "r = Inr ((committed c m n)\<lparr>stat_sn := stat_sn c + 1\<rparr>)" "room (response_buffer c) n"
    "untouched c m" "bytes_of m (fill (response_buffer c)) n = bs"
  shows "after c bs (Suc 0) r"
  using committed_ok [OF assms(2,3)] assms(1,4)
  by (auto simp: after_def committed_def)

lemma bytes_of_map: "map (\<lambda>i. m (p + i)) [0..<n] = bytes_of m p n"
  by (rule nth_equalityI) auto

lemma bytes_of_upd [simp]: "i < off \<Longrightarrow> bytes_of (m(i := v)) off n = bytes_of m off n"
  by (rule bytes_of_cong) simp

lemma bytes_of_blit_below [simp]: "a + k \<le> off \<Longrightarrow> bytes_of (blit m a f k) off n = bytes_of m off n"
  by (rule bytes_of_cong) (simp add: blit_out)

lemma bytes_of_reserved:
  "i + j \<le> n \<Longrightarrow> bytes_of (reserved c n) (fill (response_buffer c) + i) j = replicate j 0"
  by (rule nth_equalityI) (auto simp: add.assoc reserved_at)

lemma bytes_of_from_0: "map m [0..<n] = bytes_of m 0 n"
  using bytes_of_map [of m 0] by simp

text \<open>The bytes of a message with data: the header, the copied data, the zeros.\<close>

lemma bytes_of_padded:
  assumes "padn (48 + n) = k"
  shows "bytes_of (blit (blit m (p + 48) f n) (p + (48 + n)) (\<lambda>_. 0) (k - (48 + n))) p k
    = bytes_of m p 48 @ map f [0..<n] @ pad_zeros (48 + n)"
proof -
  have k: "48 + n \<le> k" using assms padn_bounds by metis
  let ?m = "blit (blit m (p + 48) f n) (p + (48 + n)) (\<lambda>_. 0) (k - (48 + n))"
  have "bytes_of ?m p (48 + n + (k - (48 + n)))
      = (bytes_of ?m p 48 @ bytes_of ?m (p + 48) n) @ bytes_of ?m (p + (48 + n)) (k - (48 + n))"
    by (simp only: bytes_of_append)
  moreover have "bytes_of ?m p 48 = bytes_of m p 48"
    by (rule bytes_of_cong) (simp add: blit_out)
  moreover have "bytes_of ?m (p + 48) n = map f [0..<n]"
    by (rule nth_equalityI) (auto simp: blit_out blit_in)
  moreover have "bytes_of ?m (p + (48 + n)) (k - (48 + n)) = pad_zeros (48 + n)"
    by (rule nth_equalityI) (auto simp: assms pad_zeros_def blit_in)
  ultimately show ?thesis using k by simp
qed

end
