(* ===== verification/Iscsi_Scsi.thy ===== *)
theory Iscsi_Scsi
  imports Iscsi_Control
begin

text \<open>
  The SCSI requests: \<^verbatim>\<open>request/r2t.c\<close>, \<^verbatim>\<open>request/data_in.c\<close>, \<^verbatim>\<open>request/cmd.c\<close> and
  \<^verbatim>\<open>request/data_out.c\<close>. A read command is executed at once and answered with Data-In PDUs; a write
  command whose data did not all come with it opens a transfer entry and asks for data with R2T
  PDUs; the Data-Out that completes the entry executes the command.
\<close>

section \<open>R2T\<close>

definition iscsi_pdu_r2t_set_r2t_sn :: "mem \<Rightarrow> nat \<Rightarrow> cint \<Rightarrow> mem" where
  "iscsi_pdu_r2t_set_r2t_sn m a sn = iscsi_byte_int2byte m (a + 36) sn"

definition iscsi_pdu_r2t_set_buffer_offset :: "mem \<Rightarrow> nat \<Rightarrow> cint \<Rightarrow> mem" where
  "iscsi_pdu_r2t_set_buffer_offset m a offset = iscsi_byte_int2byte m (a + 40) offset"

definition iscsi_pdu_r2t_set_desired_data_transfer_length :: "mem \<Rightarrow> nat \<Rightarrow> cint \<Rightarrow> mem" where
  "iscsi_pdu_r2t_set_desired_data_transfer_length m a len = iscsi_byte_int2byte m (a + 44) len"

definition iscsi_request_r2t_send ::
  "iSCSIConnection \<Rightarrow> cint \<Rightarrow> cint \<Rightarrow> cint \<Rightarrow> cint \<Rightarrow> cint \<Rightarrow> iSCSIConnection result" where
  "iscsi_request_r2t_send c initiator_task_tag target_transfer_tag sn offset desired =
     bindR (response_acquire c BASIC_HEADER_SEGMENT_LENGTH) (\<lambda>(p, m, c).
       let m = iscsi_pdu_set_opcode m p R2T;
           m = iscsi_pdu_set_final m p 1;
           m = iscsi_pdu_set_ahs_length m p 0;
           m = iscsi_pdu_set_data_segment_length m p 0;
           m = iscsi_pdu_set_initiator_task_tag m p initiator_task_tag;
           m = iscsi_pdu_set_target_transfer_tag m p target_transfer_tag;
           (m, c) = iscsi_pdu_set_response_header m p c;
           m = iscsi_pdu_r2t_set_r2t_sn m p sn;
           m = iscsi_pdu_r2t_set_buffer_offset m p offset;
           m = iscsi_pdu_r2t_set_desired_data_transfer_length m p desired in
       Inr (response_release c m BASIC_HEADER_SEGMENT_LENGTH))"

section \<open>Data-In\<close>

definition iscsi_request_data_in_set_status :: "mem \<Rightarrow> nat \<Rightarrow> byte \<Rightarrow> mem" where
  "iscsi_request_data_in_set_status m a s = (iscsi_byte_bit2byte m (a + 1) 7 1)(a + 3 := s)"

definition iscsi_request_data_in_set_acknowledge :: "mem \<Rightarrow> nat \<Rightarrow> cint \<Rightarrow> mem" where
  "iscsi_request_data_in_set_acknowledge m a acknowledge = iscsi_byte_bit2byte m (a + 1) 1 acknowledge"

definition iscsi_request_data_in_set_data_sn :: "mem \<Rightarrow> nat \<Rightarrow> cint \<Rightarrow> mem" where
  "iscsi_request_data_in_set_data_sn m a sn = iscsi_byte_int2byte m (a + 36) sn"

definition iscsi_request_data_in_set_buffer_offset :: "mem \<Rightarrow> nat \<Rightarrow> cint \<Rightarrow> mem" where
  "iscsi_request_data_in_set_buffer_offset m a offset = iscsi_byte_int2byte m (a + 40) offset"

text \<open>
  \<open>data_in_pdu\<close> is the body of the loop of \<open>iscsi_request_data_in_send\<close>: PDU number \<open>i\<close>, with the data
  at \<open>offset\<close>. A negative offset into the data of the target leaves its array.
\<close>

definition data_in_pdu ::
  "iSCSIConnection \<Rightarrow> cint \<Rightarrow> cint \<Rightarrow> cint \<Rightarrow> cptr \<Rightarrow> cint \<Rightarrow> cint \<Rightarrow> iSCSIConnection result" where
  "data_in_pdu c initiator_task_tag expected max_receive_length target_data i offset =
     (let data_length = c_min (expected - offset) max_receive_length;
          final = (if offset + data_length = expected then 1 else 0);
          pdu_length = BASIC_HEADER_SEGMENT_LENGTH + data_length;
          total_len = iscsi_pdu_padded_length pdu_length in
      bindR (response_acquire c total_len) (\<lambda>(p, m, c).
        let m = iscsi_pdu_set_opcode m p SCSI_DATA_IN;
            m = iscsi_pdu_set_final m p final;
            m = iscsi_request_data_in_set_acknowledge m p 0;
            m = iscsi_request_data_in_set_status m p 0;
            m = iscsi_pdu_set_initiator_task_tag m p initiator_task_tag;
            m = iscsi_pdu_set_target_transfer_tag m p DEFAULT_TARGET_TRANSFER_TAG;
            (m, c) = iscsi_pdu_set_response_header m p c;
            m = iscsi_request_data_in_set_data_sn m p i;
            m = iscsi_request_data_in_set_buffer_offset m p offset in
        bindR (if sint offset < 0 then Inl OutOfBounds
               else iscsi_pdu_set_data_segment m p (padd target_data (nat (sint offset))) data_length) (\<lambda>m.
        bindR (iscsi_pdu_pad0 m p pdu_length) (\<lambda>m.
          Inr (response_release c m total_len)))))"

fun data_in_loop ::
  "nat \<Rightarrow> iSCSIConnection \<Rightarrow> cint \<Rightarrow> cint \<Rightarrow> cint \<Rightarrow> cptr \<Rightarrow> cint \<Rightarrow> cint \<Rightarrow> iSCSIConnection result" where
  "data_in_loop fuel c tag expected max_receive_length target_data i offset =
     (if i = 0 \<or> sint offset < sint expected then
        (case fuel of
           0 \<Rightarrow> Inl OutOfFuel
         | Suc fuel \<Rightarrow>
             bindR (data_in_pdu c tag expected max_receive_length target_data i offset) (\<lambda>c.
               data_in_loop fuel c tag expected max_receive_length target_data (i + 1)
                 (offset + c_min (expected - offset) max_receive_length)))
      else Inr c)"

declare data_in_loop.simps [simp del]

text \<open>
  Every round but the first moves the offset on by at least one byte, so the expected length and one
  round more bound the rounds; the quotient \<open>num_pdu\<close> is computed and not used.
\<close>

definition iscsi_request_data_in_send ::
  "iSCSIConnection \<Rightarrow> cint \<Rightarrow> cint \<Rightarrow> iSCSITarget \<Rightarrow> iSCSIConnection result" where
  "iscsi_request_data_in_send c initiator_task_tag expected target =
     (let max_receive_length = iscsi_connection_parameter_max_receive_data_segment_length (iscsi_connection_parameter c) in
      bindR (divide_round_up expected max_receive_length) (\<lambda>num_pdu.
        data_in_loop (nat (sint expected) + 1) c initiator_task_tag expected max_receive_length
          (iscsi_target_buffer target) 0 0))"

section \<open>SCSI commands\<close>

definition iscsi_request_cmd_read :: "mem \<Rightarrow> nat \<Rightarrow> cint" where
  "iscsi_request_cmd_read m a = iscsi_byte_byte2bit (m (a + 1)) 1"

definition iscsi_request_cmd_write :: "mem \<Rightarrow> nat \<Rightarrow> cint" where
  "iscsi_request_cmd_write m a = iscsi_byte_byte2bit (m (a + 1)) 2"

definition iscsi_request_cmd_exp_data_transfer :: "mem \<Rightarrow> nat \<Rightarrow> cint" where
  "iscsi_request_cmd_exp_data_transfer m a = iscsi_byte_byte2int m (a + 20)"

definition iscsi_request_cmd_cdb :: "iSCSIConnection \<Rightarrow> cptr" where
  "iscsi_request_cmd_cdb c = request_ptr c 32"

definition iscsi_request_cmd_set_response :: "mem \<Rightarrow> nat \<Rightarrow> cint \<Rightarrow> mem" where
  "iscsi_request_cmd_set_response m a response = m(a + 2 := ucast response)"

definition iscsi_request_cmd_set_status :: "mem \<Rightarrow> nat \<Rightarrow> cint \<Rightarrow> mem" where
  "iscsi_request_cmd_set_status m a st = m(a + 3 := ucast st)"

text \<open>The sense data is copied after the two bytes of its length.\<close>

definition iscsi_request_cmd_set_sense_buffer ::
  "mem \<Rightarrow> nat \<Rightarrow> cptr option \<Rightarrow> cint \<Rightarrow> mem result" where
  "iscsi_request_cmd_set_sense_buffer m a sense len =
     (let m = iscsi_pdu_set_data_segment_length m a (2 + len);
          m = iscsi_byte_short2byte m (a + 48) len in
      case sense of
        None \<Rightarrow> if len = 0 then Inr m else Inl NullPointer
      | Some s \<Rightarrow> c_memcpy m ISCSI_BUFFER_SIZE (int a + 50) s (sint len))"

definition sense_ptr :: "iSCSITarget \<Rightarrow> cptr option" where
  "sense_ptr target =
     (if sbp_set (iscsi_target_sg_io_hdr target)
      then Some \<lparr>blk = sense_buffer target, bsz = nat ISCSI_TARGET_SENSE_BUFFER_SIZE, pos = 0\<rparr>
      else None)"

definition iscsi_request_cmd_send_response :: "'d world \<Rightarrow> 'd world result" where
  "iscsi_request_cmd_send_response w =
     bindR (the_target w) (\<lambda>target.
       let request = request_of (connection w);
           target_status = ucast (status (iscsi_target_sg_io_hdr target));
           sense_buffer_length = ucast (sb_len_wr (iscsi_target_sg_io_hdr target));
           total_len = iscsi_pdu_calc_size 0 (2 + sense_buffer_length) in
       bindR (response_acquire (connection w) total_len) (\<lambda>(p, m, c).
         let m = iscsi_pdu_set_opcode m p SCSI_CMD_RES;
             m = iscsi_pdu_set_final m p 1;
             m = iscsi_request_cmd_set_response m p (scsi_response target);
             m = iscsi_request_cmd_set_status m p target_status;
             m = iscsi_pdu_set_initiator_task_tag m p (iscsi_pdu_initiator_task_tag request 0) in
         bindR (iscsi_request_cmd_set_sense_buffer m p (sense_ptr target) sense_buffer_length) (\<lambda>m.
           let (m, c) = iscsi_pdu_set_response_header m p c in
           Inr (w\<lparr>connection := response_release c m total_len\<rparr>))))"

text \<open>The R2T loop with \<open>k\<close> rounds left.\<close>

fun r2t_loop ::
  "nat \<Rightarrow> iSCSIConnection \<Rightarrow> cint \<Rightarrow> cint \<Rightarrow> cint \<Rightarrow> cint \<Rightarrow> cint \<Rightarrow> cint \<Rightarrow> iSCSIConnection result" where
  "r2t_loop 0 c task_tag transfer_tag max_receive exp_data_transfer i next_offset = Inr c"
| "r2t_loop (Suc k) c task_tag transfer_tag max_receive exp_data_transfer i next_offset =
     bindR (iscsi_request_r2t_send c task_tag transfer_tag i next_offset
             (c_min max_receive (exp_data_transfer - next_offset))) (\<lambda>c.
       r2t_loop k c task_tag transfer_tag max_receive exp_data_transfer (i + 1)
         (next_offset + max_receive))"

definition iscsi_request_cmd_process :: "'d os \<Rightarrow> 'd world \<Rightarrow> (cint \<times> 'd world) result" where
  "iscsi_request_cmd_process os w =
     (let c = iscsi_connection_advance_expected_cmd_sn (connection w);
          request = request_of c; parameter = iscsi_connection_parameter c in
      bindR (the_session w) (\<lambda>session.
      let (transfer_tag, session) = iscsi_session_next_transfer_tag session;
          w = w\<lparr>connection := c, default_session := session\<rparr>;
          data_seg_length = iscsi_pdu_data_segment_length request 0;
          exp_data_transfer = iscsi_request_cmd_exp_data_transfer request 0 in
      if iscsi_request_cmd_write request 0 \<noteq> 0 \<and> sint data_seg_length < sint exp_data_transfer then
        (let first_data_pdu_length =
               (if iscsi_connection_parameter_initial_r2t parameter = 0
                then c_min (iscsi_connection_parameter_first_burst_length parameter) exp_data_transfer - data_seg_length else 0);
             byte_left = exp_data_transfer - data_seg_length - first_data_pdu_length;
             next_offset = data_seg_length + first_data_pdu_length;
             max_receive = iscsi_connection_parameter_max_receive_data_segment_length parameter in
         bindR (divide_round_up byte_left max_receive) (\<lambda>total_r2t.
         let outgoing_r2t = c_min (iscsi_connection_parameter_max_outstanding_r2t parameter) total_r2t in
         bindR (iscsi_transfer_entry_create (iscsi_session_transfer_entry session) (iscsi_request_cmd_cdb c)
                  exp_data_transfer max_receive transfer_tag) (\<lambda>entry.
         let w = w\<lparr>default_session := session\<lparr>transfer_entry := entry\<rparr>\<rparr> in
         bindR (r2t_loop (nat (sint outgoing_r2t)) c (iscsi_pdu_initiator_task_tag request 0)
                  transfer_tag max_receive exp_data_transfer 0 next_offset) (\<lambda>c.
           Inr (0, w\<lparr>connection := c\<rparr>)))))
      else
        bindR (iscsi_session_execute_command os w (iscsi_request_cmd_cdb c)) (\<lambda>w.
          if iscsi_request_cmd_read request 0 \<noteq> 0 then
            bindR (the_target w) (\<lambda>target.
            bindR (iscsi_request_data_in_send (connection w) (iscsi_pdu_initiator_task_tag request 0)
                     (c_min (iscsi_request_cmd_exp_data_transfer request 0)
                        (word_of_int ISCSI_TARGET_MEMORY_SIZE - resid (io_hdr target))) target) (\<lambda>c.
              Inr (0, w\<lparr>connection := c\<rparr>)))
          else bindR (iscsi_request_cmd_send_response w) (\<lambda>w. Inr (0, w)))))"

section \<open>Data-Out\<close>

definition iscsi_request_data_out_buffer_offset :: "mem \<Rightarrow> nat \<Rightarrow> cint" where
  "iscsi_request_data_out_buffer_offset m a = iscsi_byte_byte2int m (a + 40)"

definition iscsi_request_data_out_process :: "'d os \<Rightarrow> 'd world \<Rightarrow> (cint \<times> 'd world) result" where
  "iscsi_request_data_out_process os w =
     (let c = connection w; request = request_of c;
          tag = iscsi_pdu_target_transfer_tag request 0 in
      bindR (if tag \<noteq> DEFAULT_TARGET_TRANSFER_TAG
             then bindR (the_session w) (\<lambda>s. Inr (iscsi_session_get_transfer_entry s tag))
             else Inr None) (\<lambda>found.
      case found of
        None \<Rightarrow> Inr (0, w)
      | Some entry \<Rightarrow>
          (let offset = iscsi_request_data_out_buffer_offset request 0;
               data_length = iscsi_pdu_data_segment_length request 0;
               total_len = iscsi_transfer_entry_data_length entry in
           bindR (c_memcpy (entry_data entry) ISCSI_TRANSFER_ENTRY_SIZE (sint offset)
                    (iscsi_pdu_data c) (sint data_length)) (\<lambda>m.
           let entry = entry\<lparr>entry_data := m\<rparr>;
               w = w\<lparr>default_session := (default_session w)\<lparr>transfer_entry := entry\<rparr>\<rparr> in
           if offset + data_length = total_len then
             bindR (iscsi_session_execute_transfer_entry os w entry) (\<lambda>w.
             bindR (iscsi_request_cmd_send_response w) (\<lambda>w. Inr (0, w)))
           else if iscsi_pdu_final request 0 \<noteq> 0 \<and> sint (iscsi_transfer_entry_next_r2t_sn entry) < sint (iscsi_transfer_entry_total_r2t_sn entry) then
             (let next_offset = iscsi_transfer_entry_next_offset entry in
              bindR (iscsi_request_r2t_send c (iscsi_pdu_initiator_task_tag request 0) tag (iscsi_transfer_entry_next_r2t_sn entry)
                       next_offset
                       (c_min (iscsi_connection_parameter_max_receive_data_segment_length (iscsi_connection_parameter c)) (total_len - next_offset)))
                (\<lambda>c. Inr (0, w\<lparr>connection := c,
                       default_session := (default_session w)\<lparr>
                         transfer_entry := iscsi_transfer_entry_increase_r2t_sn entry\<rparr>\<rparr>)))
           else Inr (0, w)))))"

end
