(* ===== verification/Iscsi_Login.thy ===== *)
theory Iscsi_Login
  imports Iscsi_Control
begin

text \<open>
  \<^verbatim>\<open>request/login.c\<close>: the login phase. A login request sets the parameters of the connection from its
  text, then either continues the negotiation, or sets the session up the first time and answers
  according to the stages (CSG, NSG) and the transit bit of the request.
\<close>

datatype login_status =
    SUCCESS | TARGET_MOVED_TEMPORARILY | TARGET_MOVED_PERMANENTLY | INITIATOR_ERROR
  | AUTHENTICATION_ERROR | AUTHORIZATION_ERROR | NOT_FOUND | TARGET_MOVED | UNSUPPORTED_VERSION
  | TOO_MANY_CONNECTION | MISSING_PARAMETER | CANT_INCLUDE_SESSION | SESSION_NOT_SUPPORTED
  | SESSION_NOT_EXIST | INVALID_DURING_LOGIN | TARGET_ERROR | SERVICE_UNAVAILABLE | OUT_OF_RESOURCE

fun login_status_value :: "login_status \<Rightarrow> cint" where
  "login_status_value SUCCESS = 0x0000"
| "login_status_value TARGET_MOVED_TEMPORARILY = 0x0101"
| "login_status_value TARGET_MOVED_PERMANENTLY = 0x0102"
| "login_status_value INITIATOR_ERROR = 0x0200"
| "login_status_value AUTHENTICATION_ERROR = 0x0201"
| "login_status_value AUTHORIZATION_ERROR = 0x0202"
| "login_status_value NOT_FOUND = 0x0203"
| "login_status_value TARGET_MOVED = 0x0204"
| "login_status_value UNSUPPORTED_VERSION = 0x0205"
| "login_status_value TOO_MANY_CONNECTION = 0x0206"
| "login_status_value MISSING_PARAMETER = 0x0207"
| "login_status_value CANT_INCLUDE_SESSION = 0x0208"
| "login_status_value SESSION_NOT_SUPPORTED = 0x0209"
| "login_status_value SESSION_NOT_EXIST = 0x020A"
| "login_status_value INVALID_DURING_LOGIN = 0x020B"
| "login_status_value TARGET_ERROR = 0x0300"
| "login_status_value SERVICE_UNAVAILABLE = 0x0301"
| "login_status_value OUT_OF_RESOURCE = 0x0302"

datatype login_state = SECURITY_NEGOTIATION | LOGIN_OPERATIONAL | FULL_FEATURE

fun login_state_value :: "login_state \<Rightarrow> cint" where
  "login_state_value SECURITY_NEGOTIATION = 0"
| "login_state_value LOGIN_OPERATIONAL = 1"
| "login_state_value FULL_FEATURE = 3"

datatype pdu_status = SOCKET_TERMINATE | BUFFER_FULL | PDU_INCOMPLETE | PDU_IGNORE | PDU_ERROR

fun pdu_status_value :: "pdu_status \<Rightarrow> cint" where
  "pdu_status_value SOCKET_TERMINATE = -1"
| "pdu_status_value BUFFER_FULL = -2"
| "pdu_status_value PDU_INCOMPLETE = -3"
| "pdu_status_value PDU_IGNORE = -4"
| "pdu_status_value PDU_ERROR = -5"

section \<open>The fields of a login request and response\<close>

definition iscsi_pdu_login_transit :: "mem \<Rightarrow> nat \<Rightarrow> cint" where
  "iscsi_pdu_login_transit m a = drop_bit 7 (ucast (m (a + 1)))"

definition iscsi_pdu_login_continue :: "mem \<Rightarrow> nat \<Rightarrow> cint" where
  "iscsi_pdu_login_continue m a = drop_bit 6 (ucast (m (a + 1))) AND 0x1"

definition iscsi_pdu_login_csg :: "mem \<Rightarrow> nat \<Rightarrow> cint" where
  "iscsi_pdu_login_csg m a = drop_bit 2 (ucast (m (a + 1))) AND 0x3"

definition iscsi_pdu_login_nsg :: "mem \<Rightarrow> nat \<Rightarrow> cint" where
  "iscsi_pdu_login_nsg m a = ucast (m (a + 1)) AND 0x3"

definition iscsi_pdu_login_ISID :: "mem \<Rightarrow> nat \<Rightarrow> 64 word" where
  "iscsi_pdu_login_ISID m a =
     push_bit 40 (ucast (m (a + 8))) OR push_bit 32 (ucast (m (a + 9))) OR push_bit 24 (ucast (m (a + 10)))
       OR push_bit 16 (ucast (m (a + 11))) OR push_bit 8 (ucast (m (a + 12))) OR ucast (m (a + 13))"

definition iscsi_pdu_login_TSIH :: "mem \<Rightarrow> nat \<Rightarrow> cint" where
  "iscsi_pdu_login_TSIH m a = push_bit 8 (ucast (m (a + 14))) OR ucast (m (a + 15))"

definition iscsi_pdu_login_CID :: "mem \<Rightarrow> nat \<Rightarrow> cint" where
  "iscsi_pdu_login_CID m a = push_bit 8 (ucast (m (a + 20))) OR ucast (m (a + 21))"

definition iscsi_pdu_login_ExpCmdSN :: "mem \<Rightarrow> nat \<Rightarrow> cint" where
  "iscsi_pdu_login_ExpCmdSN m a =
     push_bit 24 (ucast (m (a + 28))) OR push_bit 16 (ucast (m (a + 29)))
       OR push_bit 8 (ucast (m (a + 30))) OR ucast (m (a + 31))"

definition iscsi_pdu_login_set_TSIH :: "mem \<Rightarrow> nat \<Rightarrow> cint \<Rightarrow> mem" where
  "iscsi_pdu_login_set_TSIH m a tsih = m(a + 14 := byte_at tsih 8, a + 15 := byte_at tsih 0)"

definition iscsi_pdu_login_set_response_ExpCmdSN :: "mem \<Rightarrow> nat \<Rightarrow> cint \<Rightarrow> mem" where
  "iscsi_pdu_login_set_response_ExpCmdSN m a exp_cmd_sn =
     m(a + 28 := byte_at exp_cmd_sn 24, a + 29 := byte_at exp_cmd_sn 16, a + 30 := byte_at exp_cmd_sn 8,
       a + 31 := byte_at exp_cmd_sn 0)"

definition iscsi_pdu_login_set_response_status :: "mem \<Rightarrow> nat \<Rightarrow> login_status \<Rightarrow> mem" where
  "iscsi_pdu_login_set_response_status m a st =
     m(a + 36 := byte_at (login_status_value st) 8, a + 37 := byte_at (login_status_value st) 0)"

section \<open>Setting up the session\<close>

definition setup_normal_session :: "'d world \<Rightarrow> login_status \<times> 'd world" where
  "setup_normal_session w =
     (SUCCESS, w\<lparr>default_session := (default_session w)\<lparr>is_discovery := 0,
                   session_target := DefaultTarget\<rparr>\<rparr>)"

text \<open>\<open>strcmp\<close> with a literal: equal when the literal and its NUL match byte by byte.\<close>

definition c_strcmp_eq :: "cptr \<Rightarrow> byte list \<Rightarrow> bool result" where
  "c_strcmp_eq s literal = key_equal s (literal @ [0])"

definition setup_session :: "'d os \<Rightarrow> 'd world \<Rightarrow> (login_status \<times> 'd world) result" where
  "setup_session os w =
     (let request = request_of (connection w); par = iscsi_connection_parameter (connection w) in
      bindR (iscsi_connection_parameter_get par (lit (cstr ''InitiatorName''))) (\<lambda>initiator.
      if initiator = None then Inr (INITIATOR_ERROR, w)
      else if iscsi_pdu_login_TSIH request 0 = 0 then
        bindR (iscsi_session_create os w) (\<lambda>w.
        let w = w\<lparr>connection := (connection w)\<lparr>session_reference := DefaultSession,
                    connection_id := iscsi_pdu_login_CID request 0\<rparr>,
                  default_session := (default_session w)\<lparr>
                    ExpCmdSN := iscsi_pdu_login_ExpCmdSN request 0\<rparr>\<rparr> in
        bindR (iscsi_connection_parameter_get par (lit (cstr ''SessionType''))) (\<lambda>session_type.
        case session_type of
          None \<Rightarrow> Inl NullPointer
        | Some v \<Rightarrow>
            bindR (c_strcmp_eq (padd (iscsi_connection_parameter_data par) v) (cstr ''Discovery'')) (\<lambda>eq.
            if eq then
              Inr (SUCCESS, w\<lparr>default_session := (default_session w)\<lparr>is_discovery := 1\<rparr>\<rparr>)
            else
              bindR (iscsi_connection_parameter_get par (lit (cstr ''TargetName''))) (\<lambda>target_name.
              if target_name \<noteq> None then Inr (setup_normal_session w)
              else Inr (INITIATOR_ERROR, w)))))
      else if iscsi_session_full (default_session w) then Inr (TOO_MANY_CONNECTION, w)
      else
        Inr (SUCCESS, w\<lparr>connection := (iscsi_session_add_connection DefaultSession (connection w))\<lparr>
                        connection_id := iscsi_pdu_login_CID request 0\<rparr>\<rparr>)))"

section \<open>The responses\<close>

definition response_partial_login :: "iSCSIConnection \<Rightarrow> (cint \<times> iSCSIConnection) result" where
  "response_partial_login c =
     (let request = request_of c in
      bindR (response_acquire c BASIC_HEADER_SEGMENT_LENGTH) (\<lambda>(p, m, c).
        let m = iscsi_pdu_generate_from_buffer m p request 0;
            (m, c) = iscsi_pdu_set_response_header m p c;
            m = iscsi_pdu_set_opcode m p LOGIN_RES;
            m = iscsi_pdu_set_final m p 0;
            m = iscsi_pdu_login_set_response_status m p
                  (if iscsi_pdu_login_transit request 0 \<noteq> 0 then INITIATOR_ERROR else SUCCESS) in
        Inr (BASIC_HEADER_SEGMENT_LENGTH, response_release c m BASIC_HEADER_SEGMENT_LENGTH)))"

definition response_final_with_parameters ::
  "iSCSISession \<Rightarrow> iSCSIConnection \<Rightarrow> login_status \<Rightarrow> cptr \<Rightarrow> cint \<Rightarrow> (cint \<times> iSCSIConnection) result" where
  "response_final_with_parameters session c st parameter len =
     (let request = request_of c;
          total_packet_size = BASIC_HEADER_SEGMENT_LENGTH + len;
          total_padded_size = iscsi_pdu_padded_length total_packet_size in
      bindR (response_acquire c total_padded_size) (\<lambda>(p, m, c).
        let m = iscsi_pdu_generate_from_buffer m p request 0;
            (m, c) = iscsi_pdu_set_response_header m p c;
            m = iscsi_pdu_set_bit m p 1 0;
            m = iscsi_pdu_set_opcode m p LOGIN_RES;
            m = iscsi_pdu_set_final m p 1;
            m = iscsi_pdu_login_set_response_status m p st;
            m = iscsi_pdu_login_set_TSIH m p (TSIH session);
            m = iscsi_pdu_set_data_segment_length m p len in
        bindR (iscsi_pdu_pad0 m p total_packet_size) (\<lambda>m.
        bindR (c_memcpy m ISCSI_BUFFER_SIZE (int p + 48) parameter (sint len)) (\<lambda>m.
          Inr (total_padded_size, response_release c m total_padded_size)))))"

text \<open>A response that is the header of the request with the opcode and the status replaced.\<close>

definition response_status_only :: "iSCSIConnection \<Rightarrow> login_status \<Rightarrow> (cint \<times> iSCSIConnection) result" where
  "response_status_only c st =
     (let request = request_of c in
      bindR (response_acquire c BASIC_HEADER_SEGMENT_LENGTH) (\<lambda>(p, m, c).
        let m = iscsi_pdu_generate_from_buffer m p request 0;
            m = iscsi_pdu_set_opcode m p LOGIN_RES;
            m = iscsi_pdu_login_set_response_status m p st in
        Inr (BASIC_HEADER_SEGMENT_LENGTH, response_release c m BASIC_HEADER_SEGMENT_LENGTH)))"

definition with_connection ::
  "'d world \<Rightarrow> (cint \<times> iSCSIConnection) result \<Rightarrow> (cint \<times> 'd world) result" where
  "with_connection w r = bindR r (\<lambda>(v, c). Inr (v, w\<lparr>connection := c\<rparr>))"

definition enter_full_feature_phase :: "'d world \<Rightarrow> 'd world result" where
  "enter_full_feature_phase w =
     bindR (the_session w) (\<lambda>s. Inr (w\<lparr>default_session := s\<lparr>is_full_feature_phase := 1\<rparr>\<rparr>))"

definition security_negotiation_response :: "byte list" where
  "security_negotiation_response = cstr ''AuthMethod=None''"

definition response_final_login :: "'d world \<Rightarrow> (cint \<times> 'd world) result" where
  "response_final_login w =
     (let request = request_of (connection w);
          csg = iscsi_pdu_login_csg request 0;
          nsg = iscsi_pdu_login_nsg request 0;
          transit = iscsi_pdu_login_transit request 0 in
      if csg = login_state_value SECURITY_NEGOTIATION then
        bindR (if transit \<noteq> 0 then
                 (if nsg = login_state_value FULL_FEATURE then
                    bindR (enter_full_feature_phase w) (\<lambda>w. Inr (SUCCESS, w))
                  else if transit \<noteq> login_state_value SECURITY_NEGOTIATION then Inr (INITIATOR_ERROR, w)
                  else Inr (SUCCESS, w))
               else Inr (SUCCESS, w)) (\<lambda>(st, w).
        bindR (the_session w) (\<lambda>s.
          with_connection w (response_final_with_parameters s (connection w) st
            (lit security_negotiation_response) (word_of_nat (length security_negotiation_response)))))
      else if csg = login_state_value LOGIN_OPERATIONAL then
        bindR (if transit \<noteq> 0 then
                 (if nsg = login_state_value FULL_FEATURE then
                    bindR (enter_full_feature_phase w) (\<lambda>w. Inr (SUCCESS, w))
                  else Inr (INITIATOR_ERROR, w))
               else Inr (SUCCESS, w)) (\<lambda>(st, w).
        bindR (iscsi_connection_parameter_generate_operational_data (iscsi_connection_parameter (connection w))) (\<lambda>par.
        let w = w\<lparr>connection := (connection w)\<lparr>conn_parameter := par\<rparr>\<rparr> in
        bindR (the_session w) (\<lambda>s.
          with_connection w (response_final_with_parameters s (connection w) st
            (iscsi_connection_parameter_data par) (iscsi_connection_parameter_length par)))))
      else if csg = login_state_value FULL_FEATURE then
        with_connection w (response_status_only (connection w) INITIATOR_ERROR)
      else Inr (-1, w))"

definition iscsi_request_login_reject :: "'d world \<Rightarrow> (cint \<times> 'd world) result" where
  "iscsi_request_login_reject w =
     (if session_reference (connection w) = NoSession then Inr (pdu_status_value PDU_ERROR, w)
      else bindR (response_acquire (connection w) BASIC_HEADER_SEGMENT_LENGTH) (\<lambda>(p, m, c).
        let m = iscsi_pdu_set_opcode m p LOGIN_RES;
            m = iscsi_pdu_login_set_TSIH m p (TSIH (default_session w)) in
        Inr (BASIC_HEADER_SEGMENT_LENGTH,
             w\<lparr>connection := response_release c m BASIC_HEADER_SEGMENT_LENGTH\<rparr>)))"

definition iscsi_request_login_process :: "'d os \<Rightarrow> 'd world \<Rightarrow> (cint \<times> 'd world) result" where
  "iscsi_request_login_process os w =
     (let c = connection w; request = request_of c in
      bindR (iscsi_connection_parameter_create (iscsi_connection_parameter c) (iscsi_pdu_data c)
               (iscsi_pdu_data_segment_length request 0)) (\<lambda>(par, m).
      let w = w\<lparr>connection := c\<lparr>conn_parameter := par,
                  receive_buffer := (receive_buffer c)\<lparr>bdata := m\<rparr>\<rparr>\<rparr> in
      if iscsi_pdu_login_continue request 0 \<noteq> 0 then
        with_connection w (response_partial_login (connection w))
      else if session_reference (connection w) = NoSession then
        bindR (setup_session os w) (\<lambda>(st, w).
          if st \<noteq> SUCCESS then with_connection w (response_status_only (connection w) st)
          else response_final_login w)
      else response_final_login w))"

end
