(* ===== verification/Iscsi_Server.thy ===== *)
theory Iscsi_Server
  imports Iscsi_Scsi Iscsi_Login
begin

text \<open>
  The dispatcher \<^verbatim>\<open>iscsi_server.c\<close> and the operations of \<^verbatim>\<open>iscsi_connection.c\<close> on the receive buffer:
  bytes from the socket are appended, a complete PDU at its start is processed, then flushed.
\<close>

section \<open>The dispatcher\<close>

text \<open>The result is the truth value and the world with the updated command numbers.\<close>

definition valid_command_numbering :: "'d world \<Rightarrow> bool \<times> 'd world" where
  "valid_command_numbering w =
     (let c = connection w; request = request_of c; s = default_session w in
      if session_reference c = NoSession then (True, w)
      else if iscsi_pdu_has_cmdSN request 0 then (True, w)
      else
        let cmdSN = iscsi_pdu_cmdSN request 0 in
        if command_numbering_start s \<noteq> 0 \<and> cmdSN \<noteq> ExpCmdSN s then (False, w)
        else
          let s = (if command_numbering_start s \<noteq> 0 then s
                   else s\<lparr>ExpCmdSN := cmdSN, command_numbering_start := 1\<rparr>);
              opc = iscsi_pdu_opcode request 0;
              s = (if (opc = opcode_value LOGOUT \<or> opc = opcode_value TEXT \<or> opc = opcode_value SCSI_CMD
                       \<or> opc = opcode_value REJECT) \<and> iscsi_pdu_immediate request 0 = 0
                   then s\<lparr>ExpCmdSN := ExpCmdSN s + 1\<rparr> else s) in
          (True, w\<lparr>default_session := s\<rparr>))"

definition iscsi_server_process :: "'d os \<Rightarrow> 'd world \<Rightarrow> (cint \<times> 'd world) result" where
  "iscsi_server_process os w =
     (let (valid, w) = valid_command_numbering w;
          c = connection w; s = default_session w; request = request_of c;
          opc = iscsi_pdu_opcode request 0 in
      if \<not> valid then Inr (pdu_status_value PDU_IGNORE, w)
      else if session_reference c = NoSession \<or> is_full_feature_phase s = 0 then
        (if opc = opcode_value LOGIN then iscsi_request_login_process os w
         else if session_reference c = NoSession then Inr (pdu_status_value SOCKET_TERMINATE, w)
         else iscsi_request_login_reject w)
      else if opc = opcode_value LOGOUT then with_connection w (iscsi_request_logout_process c)
      else if opc = opcode_value TEXT then with_connection w (iscsi_request_text_process s c)
      else if is_discovery s \<noteq> 0 then with_connection w (iscsi_request_reject c PROTOCOL_ERROR None 0)
      else if opc = opcode_value NOP_OUT then with_connection w (iscsi_request_nop_out_process c)
      else if opc = opcode_value SCSI_DATA_OUT then iscsi_request_data_out_process os w
      else if opc = opcode_value SCSI_CMD then iscsi_request_cmd_process os w
      else if opc = opcode_value LOGIN then with_connection w (iscsi_request_reject c PROTOCOL_ERROR None 0)
      else with_connection w (iscsi_request_reject c CMD_NOT_SUPPORTED None 0))"

section \<open>Receiving\<close>

definition incoming_request :: "'d os \<Rightarrow> 'd world \<Rightarrow> cptr \<Rightarrow> cint \<Rightarrow> (cint \<times> 'd world) result" where
  "incoming_request os w buffer len =
     bindR (iscsi_buffer_receive (receive_buffer (connection w)) buffer len) (\<lambda>(error, b).
       let w = w\<lparr>connection := (connection w)\<lparr>receive_buffer := b\<rparr>\<rparr> in
       if error \<noteq> 0 then Inr (error, w)
       else if \<not> iscsi_pdu_valid (bdata b) 0 (iscsi_buffer_length b)
         then Inr (pdu_status_value PDU_INCOMPLETE, w)
       else
         bindR (iscsi_server_process os w) (\<lambda>(response_pdu_status, w).
         let b = receive_buffer (connection w) in
         bindR (iscsi_buffer_flush b (iscsi_pdu_length (bdata b) 0)) (\<lambda>b.
           Inr (response_pdu_status, w\<lparr>connection := (connection w)\<lparr>receive_buffer := b\<rparr>\<rparr>))))"

definition clear_buffer :: "iSCSIConnection \<Rightarrow> cint \<Rightarrow> iSCSIConnection result" where
  "clear_buffer c len =
     bindR (iscsi_buffer_flush (receive_buffer c) len) (\<lambda>b. Inr (c\<lparr>receive_buffer := b\<rparr>))"

end
