(* ===== verification/Iscsi_Senders.thy ===== *)
theory Iscsi_Senders
  imports Iscsi_Response Iscsi_Server
begin

text \<open>
  The handlers that answer with sequence numbers, each as an instance of the contract \<open>sender\<close>:
  the message it builds byte by byte, the condition under which it builds it, and the proof that
  the code does so.
\<close>

section \<open>Logout\<close>

lemmas [pdu_setters] = iscsi_pdu_request_logout_set_time2retain_def
  iscsi_pdu_request_logout_set_time2wait_def iscsi_pdu_request_logout_set_response_def

definition logout_message :: "iSCSIConnection \<Rightarrow> unit \<Rightarrow> byte list" where
  "logout_message c a =
     response_bhs [0x26, 0x80, 0, 0] 0 0 0 (stat_sn c) (expected_cmd_sn c) (replicate 12 0)"

definition logout_send :: "iSCSIConnection \<Rightarrow> unit \<Rightarrow> iSCSIConnection result" where
  "logout_send c a = map_sum id snd (iscsi_request_logout_process c)"

definition logout_good :: "iSCSIConnection \<Rightarrow> unit \<Rightarrow> bool" where
  "logout_good c a \<longleftrightarrow> session_reference c \<noteq> NoSession"

lemma logout_sends:
  assumes "logout_good c a" "room (response_buffer c) (length (logout_message c a))"
  shows "after c (logout_message c a) (Suc 0) (logout_send c a)"
proof -
  have r: "room (response_buffer c) 48" using assms(2) by (simp add: logout_message_def)
  show ?thesis
    using assms(1)
    apply (simp add: logout_good_def logout_send_def iscsi_request_logout_process_def
        response_acquire_ok [OF r] respond_simps)
    apply (rule after_committed [OF refl r])
     apply (simp add: pdu_setters)
    by (simp add: pdu_setters message_simps logout_message_def)
qed

interpretation logout: sender logout_send logout_message logout_good
proof unfold_locales
  fix c :: iSCSIConnection and a
  assume "logout_good c a" "buffer_ok (response_buffer c)"
    "\<not> room (response_buffer c) (length (logout_message c a))"
  then show "logout_send c a = Inl Blocked"
    using response_acquire_blocked [of c 48 48]
    by (simp add: logout_good_def logout_send_def iscsi_request_logout_process_def logout_message_def)
next
  fix c :: iSCSIConnection and a
  show "frame (logout_message c a)"
    using frame_response [of "[0x26, 0x80, 0, 0]" "replicate 12 0" 0 "[]"]
    by (simp add: logout_message_def pad_zeros_def)
qed (rule logout_sends; assumption | simp add: logout_good_def logout_message_def)+

section \<open>R2T\<close>

lemmas [pdu_setters] = iscsi_pdu_r2t_set_r2t_sn_def iscsi_pdu_r2t_set_buffer_offset_def
  iscsi_pdu_r2t_set_desired_data_transfer_length_def

record r2t =
  r2t_task_tag :: cint
  r2t_transfer_tag :: cint
  r2t_number :: cint
  r2t_offset :: cint
  r2t_desired :: cint

definition r2t_message :: "iSCSIConnection \<Rightarrow> r2t \<Rightarrow> byte list" where
  "r2t_message c r =
     response_bhs [0x31, 0x80, 0, 0] 0 (r2t_task_tag r) (r2t_transfer_tag r) (stat_sn c)
       (expected_cmd_sn c) (be32 (r2t_number r) @ be32 (r2t_offset r) @ be32 (r2t_desired r))"

definition r2t_send :: "iSCSIConnection \<Rightarrow> r2t \<Rightarrow> iSCSIConnection result" where
  "r2t_send c r = iscsi_request_r2t_send c (r2t_task_tag r) (r2t_transfer_tag r) (r2t_number r)
     (r2t_offset r) (r2t_desired r)"

lemma r2t_sends:
  assumes "room (response_buffer c) (length (r2t_message c a))"
  shows "after c (r2t_message c a) (Suc 0) (r2t_send c a)"
proof -
  have r: "room (response_buffer c) 48" using assms by (simp add: r2t_message_def)
  show ?thesis
    apply (simp add: r2t_send_def iscsi_request_r2t_send_def response_acquire_ok [OF r] respond_simps)
    apply (rule after_committed [OF refl r])
     apply (simp add: pdu_setters)
    by (simp add: pdu_setters message_simps r2t_message_def)
qed

interpretation r2t: sender r2t_send r2t_message "\<lambda>c a. True"
proof unfold_locales
  fix c :: iSCSIConnection and a
  assume "buffer_ok (response_buffer c)" "\<not> room (response_buffer c) (length (r2t_message c a))"
  then show "r2t_send c a = Inl Blocked"
    using response_acquire_blocked [of c 48 48]
    by (simp add: r2t_send_def iscsi_request_r2t_send_def r2t_message_def)
next
  fix c :: iSCSIConnection and a
  show "frame (r2t_message c a)"
    using frame_response [of "[0x31, 0x80, 0, 0]" _ 0 "[]"]
    by (simp add: r2t_message_def pad_zeros_def)
qed (rule r2t_sends; assumption | simp add: r2t_message_def)+

section \<open>Data-In\<close>

lemmas [pdu_setters] = iscsi_request_data_in_set_status_def iscsi_request_data_in_set_acknowledge_def
  iscsi_request_data_in_set_data_sn_def iscsi_request_data_in_set_buffer_offset_def

record data_in =
  di_task_tag :: cint
  di_expected :: cint
  di_max :: cint
  di_data :: cptr
  di_number :: cint
  di_offset :: cint

definition di_length :: "data_in \<Rightarrow> cint" where
  "di_length d = c_min (di_expected d - di_offset d) (di_max d)"

definition di_size :: "data_in \<Rightarrow> nat" where
  "di_size d = nat (sint (di_length d))"

definition di_bytes :: "data_in \<Rightarrow> byte list" where
  "di_bytes d = bytes_of (blk (di_data d)) (pos (di_data d) + nat (sint (di_offset d))) (di_size d)"

definition data_in_message :: "iSCSIConnection \<Rightarrow> data_in \<Rightarrow> byte list" where
  "data_in_message c d =
     response_bhs [0x25, if di_offset d + di_length d = di_expected d then 0x81 else 0x01, 0, 0]
       (di_length d) (di_task_tag d) 0xFFFFFFFF (stat_sn c) (expected_cmd_sn c)
       (be32 (di_number d) @ be32 (di_offset d) @ be32 0)
     @ di_bytes d @ pad_zeros (48 + di_size d)"

definition data_in_send :: "iSCSIConnection \<Rightarrow> data_in \<Rightarrow> iSCSIConnection result" where
  "data_in_send c d =
     data_in_pdu c (di_task_tag d) (di_expected d) (di_max d) (di_data d) (di_number d) (di_offset d)"

text \<open>The offset and the length are within the expected data, which is within the array of the target.\<close>

definition data_in_good :: "iSCSIConnection \<Rightarrow> data_in \<Rightarrow> bool" where
  "data_in_good c d \<longleftrightarrow> 0 \<le> sint (di_offset d) \<and> 0 \<le> sint (di_length d)
     \<and> padn (48 + di_size d) \<le> 4194304
     \<and> pos (di_data d) + nat (sint (di_offset d)) + di_size d \<le> bsz (di_data d)"

lemma data_in_lengths:
  assumes "data_in_good c d"
  shows "sint (di_length d) = int (di_size d)"
    and "sint (BASIC_HEADER_SEGMENT_LENGTH + di_length d) = int (48 + di_size d)"
    and "sint (iscsi_pdu_padded_length (BASIC_HEADER_SEGMENT_LENGTH + di_length d))
      = int (padn (48 + di_size d))"
    and "length (data_in_message c d) = padn (48 + di_size d)"
proof -
  note b = padn_bounds [of "48 + di_size d"]
  show l: "sint (di_length d) = int (di_size d)"
    using assms by (simp add: data_in_good_def di_size_def)
  have n: "di_size d \<le> 4194304" using assms b by (simp add: data_in_good_def)
  show h: "sint (BASIC_HEADER_SEGMENT_LENGTH + di_length d) = int (48 + di_size d)"
    using l n by (simp add: c_arith)
  show "sint (iscsi_pdu_padded_length (BASIC_HEADER_SEGMENT_LENGTH + di_length d))
      = int (padn (48 + di_size d))"
    using n by (intro sint_padded_nat [OF h]) simp
  show "length (data_in_message c d) = padn (48 + di_size d)"
    using b by (simp add: data_in_message_def di_bytes_def)
qed

lemma data_in_sends:
  assumes "data_in_good c a" "room (response_buffer c) (length (data_in_message c a))"
  shows "after c (data_in_message c a) (Suc 0) (data_in_send c a)"
proof -
  let ?k = "padn (48 + di_size a)" and ?p = "fill (response_buffer c)"
  note l = data_in_lengths [OF assms(1)] and b = padn_bounds [of "48 + di_size a"]
  have r: "room (response_buffer c) ?k" using assms(2) l by simp
  then have p: "?p + ?k \<le> 4194304" by (simp add: room_def)
  have z: "\<not> sint (di_offset a) < 0"
    "int (pos (di_data a) + nat (sint (di_offset a))) + int (di_size a) \<le> int (bsz (di_data a))"
    using assms(1) by (auto simp: data_in_good_def)
  have pad: "iscsi_pdu_pad0 m ?p (48 + di_length a) =
      Inr (blit m (?p + (48 + di_size a)) (\<lambda>_. 0) (?k - (48 + di_size a)))" for m
    using l(2) p by (intro pad0_ok) simp_all
  have nat_p: "nat (int ?p + 48) = ?p + 48" by simp
  show ?thesis
    using p z l b
    apply (simp add: data_in_send_def data_in_pdu_def Let_def response_acquire_ok [OF r] respond_simps
        iscsi_pdu_set_data_segment_def c_memcpy_ok pad nat_p split del: if_split flip: di_length_def)
    apply (rule after_committed [OF refl r])
     apply (simp add: pdu_setters)
    apply (simp add: bytes_of_padded bytes_of_map data_in_message_def split del: if_split flip: di_bytes_def)
    by (simp add: pdu_setters message_simps DEFAULT_TARGET_TRANSFER_TAG_def)
qed

lemma data_in_waits:
  assumes "data_in_good c a" "buffer_ok (response_buffer c)"
    "\<not> room (response_buffer c) (length (data_in_message c a))"
  shows "data_in_send c a = Inl Blocked"
proof -
  note l = data_in_lengths [OF assms(1)]
  have "padn (48 + di_size a) \<le> 4194304" using assms(1) by (simp add: data_in_good_def)
  then show ?thesis
    using assms(2,3) l(4) response_acquire_blocked [OF assms(2) l(3)]
    by (simp add: data_in_send_def data_in_pdu_def Let_def flip: di_length_def)
qed

interpretation data_in: sender data_in_send data_in_message data_in_good
proof unfold_locales
  fix c :: iSCSIConnection and a
  assume g: "data_in_good c a"
  have "di_size a \<le> 4194304" using g padn_bounds [of "48 + di_size a"] by (simp add: data_in_good_def)
  then show "frame (data_in_message c a)"
    using frame_response [of _ _ "di_length a" "di_bytes a"] data_in_lengths(1) [OF g]
    by (simp add: data_in_message_def di_bytes_def)
qed (rule data_in_sends data_in_waits; assumption | simp add: data_in_good_def data_in_message_def)+

section \<open>Reject\<close>

lemmas [pdu_setters] = iscsi_pdu_request_reject_set_reason_def

record rejection =
  rej_reason :: reject_reason
  rej_data :: "cptr option"
  rej_length :: cint

definition rej_bytes :: "rejection \<Rightarrow> byte list" where
  "rej_bytes r = (case rej_data r of None \<Rightarrow> []
     | Some d \<Rightarrow> bytes_of (blk d) (pos d) (nat (sint (rej_length r))))"

definition reject_message :: "iSCSIConnection \<Rightarrow> rejection \<Rightarrow> byte list" where
  "reject_message c r =
     response_bhs [0x3F, 0x80, ucast (reject_reason_value (rej_reason r)), 0] (rej_length r) 0xFFFFFFFF 0
       (stat_sn c) (expected_cmd_sn c) (replicate 12 0)
     @ rej_bytes r @ pad_zeros (48 + nat (sint (rej_length r)))"

definition reject_send :: "iSCSIConnection \<Rightarrow> rejection \<Rightarrow> iSCSIConnection result" where
  "reject_send c r = map_sum id snd (iscsi_request_reject c (rej_reason r) (rej_data r) (rej_length r))"

definition reject_good :: "iSCSIConnection \<Rightarrow> rejection \<Rightarrow> bool" where
  "reject_good c r \<longleftrightarrow> 0 \<le> sint (rej_length r) \<and> padn (48 + nat (sint (rej_length r))) \<le> 4194304
     \<and> (case rej_data r of None \<Rightarrow> rej_length r = 0
        | Some d \<Rightarrow> pos d + nat (sint (rej_length r)) \<le> bsz d)"

lemma reject_lengths:
  assumes "reject_good c r" "n = nat (sint (rej_length r))"
  shows "sint (rej_length r) = int n"
    and "sint (BASIC_HEADER_SEGMENT_LENGTH + rej_length r) = int (48 + n)"
    and "sint (iscsi_pdu_padded_length (BASIC_HEADER_SEGMENT_LENGTH + rej_length r)) = int (padn (48 + n))"
    and "length (rej_bytes r) = n"
    and "length (reject_message c r) = padn (48 + n)"
proof -
  note b = padn_bounds [of "48 + n"]
  show l: "sint (rej_length r) = int n"
    using assms by (simp add: reject_good_def)
  have n: "n \<le> 4194304" using assms b by (simp add: reject_good_def)
  show h: "sint (BASIC_HEADER_SEGMENT_LENGTH + rej_length r) = int (48 + n)"
    using l n by (simp add: c_arith)
  show "sint (iscsi_pdu_padded_length (BASIC_HEADER_SEGMENT_LENGTH + rej_length r)) = int (padn (48 + n))"
    using n by (intro sint_padded_nat [OF h]) simp
  show "length (rej_bytes r) = n"
    using assms by (auto simp: rej_bytes_def reject_good_def split: option.splits)
  then show "length (reject_message c r) = padn (48 + n)"
    using b l by (simp add: reject_message_def)
qed

lemma reject_sends:
  assumes "reject_good c a" "room (response_buffer c) (length (reject_message c a))"
  shows "after c (reject_message c a) (Suc 0) (reject_send c a)"
proof -
  define n where "n = nat (sint (rej_length a))"
  let ?k = "padn (48 + n)" and ?p = "fill (response_buffer c)"
  note l = reject_lengths [OF assms(1) n_def] and b = padn_bounds [of "48 + n"]
  have r: "room (response_buffer c) ?k" using assms(2) l by simp
  then have p: "?p + ?k \<le> 4194304" by (simp add: room_def)
  have pad: "iscsi_pdu_pad0 m ?p (48 + rej_length a) =
      Inr (blit m (?p + (48 + n)) (\<lambda>_. 0) (?k - (48 + n)))" for m
    using l(2) p by (intro pad0_ok) simp_all
  have nat_p: "nat (int ?p + 48) = ?p + 48" by simp
  obtain f where f: "rej_bytes a = map f [0..<n]" and copy:
    "\<And>m. (case rej_data a of
        None \<Rightarrow> if rej_length a = 0 then Inr (iscsi_pdu_set_data_segment_length m ?p (rej_length a))
                else Inl NullPointer
      | Some d \<Rightarrow> iscsi_pdu_set_data_segment m ?p d (rej_length a)) =
      Inr (blit (iscsi_pdu_set_data_segment_length m ?p (rej_length a)) (?p + 48) f n)"
  proof (cases "rej_data a")
    case None
    with assms(1) show thesis
      by (intro that [of "\<lambda>_. 0"]) (auto simp: reject_good_def rej_bytes_def n_def)
  next
    case (Some d)
    with assms(1) l(1) p b nat_p show thesis
      by (intro that [of "\<lambda>i. blk d (pos d + i)"])
        (simp_all add: reject_good_def rej_bytes_def bytes_of_map iscsi_pdu_set_data_segment_def
          c_memcpy_ok)
  qed
  show ?thesis
    using p l b
    apply (simp add: reject_send_def iscsi_request_reject_def Let_def response_acquire_ok [OF r]
        respond_simps copy pad nat_p)
    apply (rule after_committed [OF refl r])
     apply (simp add: pdu_setters)
    apply (simp add: bytes_of_padded f reject_message_def)
    by (simp add: pdu_setters message_simps DEFAULT_INITIAL_TASK_TAG_def)
qed

lemma reject_waits:
  assumes "reject_good c a" "buffer_ok (response_buffer c)"
    "\<not> room (response_buffer c) (length (reject_message c a))"
  shows "reject_send c a = Inl Blocked"
proof -
  note l = reject_lengths [OF assms(1) refl]
  have "padn (48 + nat (sint (rej_length a))) \<le> 4194304" using assms(1) by (simp add: reject_good_def)
  then show ?thesis
    using assms(2,3) l(5) response_acquire_blocked [OF assms(2) l(3)]
    by (simp add: reject_send_def iscsi_request_reject_def Let_def)
qed

interpretation reject: sender reject_send reject_message reject_good
proof unfold_locales
  fix c :: iSCSIConnection and a
  assume g: "reject_good c a"
  have "nat (sint (rej_length a)) \<le> 4194304"
    using g padn_bounds [of "48 + nat (sint (rej_length a))"] by (simp add: reject_good_def)
  then show "frame (reject_message c a)"
    using frame_response [of _ "replicate 12 0" "rej_length a" "rej_bytes a"] reject_lengths(1,4) [OF g refl]
    by (simp add: reject_message_def)
qed (rule reject_sends reject_waits; assumption | simp add: reject_good_def reject_message_def)+

section \<open>NOP-In\<close>

definition nop_message :: "iSCSIConnection \<Rightarrow> unit \<Rightarrow> byte list" where
  "nop_message c a = (let request = request_of c in
     response_bhs [0x20, 0x80, 0, 0] (iscsi_pdu_data_segment_length request 0)
       (iscsi_pdu_initiator_task_tag request 0) (iscsi_pdu_target_transfer_tag request 0)
       (stat_sn c) (expected_cmd_sn c) (replicate 12 0)
     @ bytes_of request 48 (dsl request 0))"

definition nop_send :: "iSCSIConnection \<Rightarrow> unit \<Rightarrow> iSCSIConnection result" where
  "nop_send c a = map_sum id snd (iscsi_request_nop_out_process c)"

text \<open>The ping data is within the limit of the connection, and needs no padding.\<close>

definition nop_good :: "iSCSIConnection \<Rightarrow> unit \<Rightarrow> bool" where
  "nop_good c a \<longleftrightarrow> int (dsl (request_of c) 0) \<le> sint (max_receive_data_segment_length (conn_parameter c))
     \<and> 4 dvd dsl (request_of c) 0 \<and> 48 + dsl (request_of c) 0 \<le> 4194304"

lemma nop_data_length:
  assumes "nop_good c a"
  shows "c_min (max_receive_data_segment_length (conn_parameter c))
      (iscsi_pdu_data_segment_length (request_of c) 0) = iscsi_pdu_data_segment_length (request_of c) 0"
    and "sint (BASIC_HEADER_SEGMENT_LENGTH + iscsi_pdu_data_segment_length (request_of c) 0)
      = int (48 + dsl (request_of c) 0)"
    and "length (nop_message c a) = 48 + dsl (request_of c) 0"
  using assms by (auto simp: nop_good_def c_min_def sint_dsl c_arith nop_message_def Let_def)

lemma pad0_nothing: "iscsi_pdu_pad0 m a 0 = Inr m"
  by (simp add: iscsi_pdu_pad0_def iscsi_pdu_padded_length_def c_memset_def)

lemma nop_sends:
  assumes "nop_good c a" "room (response_buffer c) (length (nop_message c a))"
  shows "after c (nop_message c a) (Suc 0) (nop_send c a)"
proof -
  let ?n = "dsl (request_of c) 0" and ?p = "fill (response_buffer c)"
  note l = nop_data_length [OF assms(1)]
  have r: "room (response_buffer c) (48 + ?n)" using assms(2) l by simp
  then have p: "?p + (48 + ?n) \<le> 4194304" by (simp add: room_def)
  have nat_p: "nat (int ?p + 48) = ?p + 48" by simp
  have req: "request_of (c\<lparr>response_buffer := b, stat_sn := s\<rparr>) = request_of c"
    "request_of (c\<lparr>response_buffer := b\<rparr>) = request_of c" for b s
    by (simp_all add: request_of_def)
  have src: "iscsi_pdu_data (c\<lparr>response_buffer := b, stat_sn := s\<rparr>) =
      \<lparr>blk = request_of c, bsz = 4194304, pos = 48\<rparr>" for b s
    by (simp add: iscsi_pdu_data_def request_ptr_def request_of_def iscsi_buffer_data_def padd_def)
  note rel = response_release_committed [OF l(2) [unfolded BASIC_HEADER_SEGMENT_LENGTH_def]]
  have fits: "48 + ?n \<le> 4194304"
    "min (sint (max_receive_data_segment_length (conn_parameter c))) (int ?n) = int ?n"
    using assms(1) by (simp_all add: nop_good_def)
  have bytes: "bytes_of (blit m (?p + 48) (\<lambda>i. request_of c (48 + i)) ?n) ?p (48 + ?n)
      = bytes_of m ?p 48 @ bytes_of (request_of c) 48 ?n" for m
    by (subst bytes_of_append) (auto simp: bytes_of_map blit_out intro: bytes_of_cong)
  show ?thesis
    using p l fits
    apply (simp add: nop_send_def iscsi_request_nop_out_process_def Let_def response_acquire_ok [OF r]
        respond_simps rel req src iscsi_pdu_set_data_segment_def c_memcpy_ok sint_dsl pad0_nothing nat_p)
    apply (rule after_committed [OF refl r])
     apply (simp add: pdu_setters)
    apply (simp add: bytes nop_message_def Let_def)
    by (simp add: pdu_setters message_simps)
qed

lemma nop_waits:
  assumes "nop_good c a" "buffer_ok (response_buffer c)"
    "\<not> room (response_buffer c) (length (nop_message c a))"
  shows "nop_send c a = Inl Blocked"
proof -
  note l = nop_data_length [OF assms(1)]
  have "48 + dsl (request_of c) 0 \<le> 4194304" using assms(1) by (simp add: nop_good_def)
  then show ?thesis
    using assms(2,3) l response_acquire_blocked [OF assms(2) l(2)]
    by (simp add: nop_send_def iscsi_request_nop_out_process_def Let_def)
qed

interpretation nop: sender nop_send nop_message nop_good
proof unfold_locales
  fix c :: iSCSIConnection and a
  assume g: "nop_good c a"
  then have d: "4 dvd 48 + dsl (request_of c) 0" by (simp add: nop_good_def)
  show "frame (nop_message c a)"
    using frame_response [of _ "replicate 12 0" "iscsi_pdu_data_segment_length (request_of c) 0"
        "bytes_of (request_of c) 48 (dsl (request_of c) 0)"] d dsl_bound [of "request_of c" 0]
    by (simp add: nop_message_def Let_def pad_zeros_def sint_dsl)
qed (rule nop_sends nop_waits; assumption | simp add: nop_good_def nop_message_def request_of_def Let_def)+

section \<open>SCSI Response\<close>

lemmas [pdu_setters] = iscsi_request_cmd_set_response_def iscsi_request_cmd_set_status_def

definition sense_size :: "'d world \<Rightarrow> nat" where
  "sense_size w = unat (sb_len_wr (io_hdr (default_target w)))"

definition sense_bytes :: "'d world \<Rightarrow> byte list" where
  "sense_bytes w = (let len = ucast (sb_len_wr (io_hdr (default_target w))) in
     [byte_at len 8, byte_at len 0] @ bytes_of (sense_buffer (default_target w)) 0 (sense_size w))"

definition scsi_message :: "iSCSIConnection \<Rightarrow> 'd world \<Rightarrow> byte list" where
  "scsi_message c w =
     response_bhs [0x21, 0x80, ucast (scsi_response (default_target w)), status (io_hdr (default_target w))]
       (2 + ucast (sb_len_wr (io_hdr (default_target w)))) (iscsi_pdu_initiator_task_tag (request_of c) 0) 0
       (stat_sn c) (expected_cmd_sn c) (replicate 12 0)
     @ sense_bytes w @ pad_zeros (50 + sense_size w)"

definition scsi_send :: "iSCSIConnection \<Rightarrow> 'd world \<Rightarrow> iSCSIConnection result" where
  "scsi_send c w = map_sum id connection (iscsi_request_cmd_send_response (w\<lparr>connection := c\<rparr>))"

text \<open>A command was executed, and the device wrote no more sense data than it was given room for.\<close>

definition scsi_good :: "iSCSIConnection \<Rightarrow> 'd world \<Rightarrow> bool" where
  "scsi_good c w \<longleftrightarrow> session_reference c = DefaultSession
     \<and> session_target (default_session w) = DefaultTarget
     \<and> sbp_set (io_hdr (default_target w)) \<and> sense_size w \<le> 32"

lemma scsi_lengths:
  "sint (ucast (sb_len_wr (io_hdr (default_target w))) :: cint) = int (sense_size w)"
  "sint (iscsi_pdu_calc_size 0 (2 + ucast (sb_len_wr (io_hdr (default_target w)))))
     = int (padn (50 + sense_size w))"
  "length (scsi_message c w) = padn (50 + sense_size w)"
proof -
  have n: "sense_size w < 256" by (simp add: sense_size_def unat_byte_bound)
  show l: "sint (ucast (sb_len_wr (io_hdr (default_target w))) :: cint) = int (sense_size w)"
    by (simp add: sense_size_def)
  then have "sint (2 + ucast (sb_len_wr (io_hdr (default_target w))) :: cint) = 2 + int (sense_size w)"
    using n by (subst sint_plus) simp_all
  then have "sint (48 + 0 + (2 + ucast (sb_len_wr (io_hdr (default_target w)))) :: cint)
      = int (50 + sense_size w)"
    using n by (subst sint_plus) simp_all
  then show "sint (iscsi_pdu_calc_size 0 (2 + ucast (sb_len_wr (io_hdr (default_target w)))))
     = int (padn (50 + sense_size w))"
    unfolding iscsi_pdu_calc_size_def BASIC_HEADER_SEGMENT_LENGTH_def
    using n by (intro sint_padded_nat) simp_all
  show "length (scsi_message c w) = padn (50 + sense_size w)"
    using padn_bounds [of "50 + sense_size w"]
    by (simp add: scsi_message_def sense_bytes_def Let_def)
qed

lemma scsi_sends:
  assumes "scsi_good c a" "room (response_buffer c) (length (scsi_message c a))"
  shows "after c (scsi_message c a) (Suc 0) (scsi_send c a)"
proof -
  let ?n = "sense_size a" and ?k = "padn (50 + sense_size a)" and ?p = "fill (response_buffer c)"
  note l = scsi_lengths [where w = a] and b = padn_bounds [of "50 + ?n"]
  have r: "room (response_buffer c) ?k" using assms(2) l by simp
  then have p: "?p + ?k \<le> 4194304" by (simp add: room_def)
  have nat_p: "nat (int ?p + 50) = ?p + 50" by simp
  have t: "the_target (a\<lparr>connection := c\<rparr>) = Inr (default_target a)"
    using assms(1) by (simp add: scsi_good_def the_target_def the_session_def)
  have s: "sense_ptr (default_target a) =
      Some \<lparr>blk = sense_buffer (default_target a), bsz = 32, pos = 0\<rparr>" "?n \<le> 32"
    using assms(1) by (simp_all add: scsi_good_def sense_ptr_def)
  have split: "bytes_of m ?p ?k = bytes_of m ?p 48 @ bytes_of m (?p + 48) 2
      @ bytes_of m (?p + 50) ?n @ bytes_of m (?p + (50 + ?n)) (?k - (50 + ?n))" for m
  proof -
    have "?k = 48 + (2 + (?n + (?k - (50 + ?n))))" using b by simp
    then have "bytes_of m ?p ?k = bytes_of m ?p (48 + (2 + (?n + (?k - (50 + ?n)))))" by (rule arg_cong)
    then show ?thesis by (simp only: bytes_of_append add.assoc) simp
  qed
  have pad: "bytes_of (reserved c ?k) (?p + (50 + ?n)) (?k - (50 + ?n)) = pad_zeros (50 + ?n)"
    using b by (simp add: bytes_of_reserved pad_zeros_def del: add.assoc)
  have two: "bytes_of m (?p + 48) 2 = [m (?p + 48), m (?p + 49)]" for m
    by (simp add: bytes_of_def upt_rec add.commute)
  show ?thesis
    using p l b s
    apply (simp add: scsi_send_def iscsi_request_cmd_send_response_def t Let_def
        response_acquire_ok [OF r] respond_simps iscsi_request_cmd_set_sense_buffer_def c_memcpy_ok nat_p)
    apply (rule after_committed [OF refl r])
     apply (simp add: pdu_setters)
    apply (simp add: split two scsi_message_def)
    apply (simp add: sense_bytes_def Let_def)
    by (simp add: pdu_setters message_simps blit_out two pad bytes_of_from_0)
qed

lemma scsi_waits:
  assumes "scsi_good c a" "buffer_ok (response_buffer c)"
    "\<not> room (response_buffer c) (length (scsi_message c a))"
  shows "scsi_send c a = Inl Blocked"
proof -
  note l = scsi_lengths [where w = a]
  have t: "the_target (a\<lparr>connection := c\<rparr>) = Inr (default_target a)"
    using assms(1) by (simp add: scsi_good_def the_target_def the_session_def)
  have "padn (50 + sense_size a) \<le> 4194304"
    using assms(1) padn_bounds [of "50 + sense_size a"] by (simp add: scsi_good_def)
  then show ?thesis
    using assms(2,3) l(3) response_acquire_blocked [OF assms(2) l(2)]
    by (simp add: scsi_send_def iscsi_request_cmd_send_response_def t Let_def)
qed

interpretation scsi: sender scsi_send scsi_message scsi_good
proof unfold_locales
  fix c :: iSCSIConnection and a :: "'a world"
  assume g: "scsi_good c a"
  have n: "sense_size a \<le> 32" using g by (simp add: scsi_good_def)
  then have "sint (2 + ucast (sb_len_wr (io_hdr (default_target a))) :: cint) = int (2 + sense_size a)"
    using scsi_lengths(1) [where w = a] by (subst sint_plus) simp_all
  then show "frame (scsi_message c a)"
    using n frame_response [of _ "replicate 12 0" "2 + ucast (sb_len_wr (io_hdr (default_target a)))"
        "sense_bytes a"]
    by (simp add: scsi_message_def sense_bytes_def Let_def)
qed (rule scsi_sends scsi_waits; assumption | simp add: scsi_good_def scsi_message_def request_of_def)+

end
