(* ===== verification/Iscsi_Commands.thy ===== *)
theory Iscsi_Commands
  imports Iscsi_Senders
begin

text \<open>
  The SCSI commands as a whole: the loop of \<open>iscsi_request_data_in_send\<close> is a series of Data-In
  messages that together carry the expected bytes of the target, the R2T loop of
  \<open>iscsi_request_cmd_process\<close> is a series of R2T messages, and the results of the three SCSI
  handlers follow from the client lemmas of \<open>sender\<close>.
\<close>

section \<open>The Data-In series\<close>

definition chunk :: "cint \<Rightarrow> nat \<Rightarrow> nat \<Rightarrow> cptr \<Rightarrow> nat \<Rightarrow> data_in" where
  "chunk tag e mx d j = \<lparr>di_task_tag = tag, di_expected = word_of_nat e, di_max = word_of_nat mx,
     di_data = d, di_number = word_of_nat j, di_offset = word_of_nat (j * mx)\<rparr>"

definition chunk_count :: "nat \<Rightarrow> nat \<Rightarrow> nat" where
  "chunk_count e mx = max 1 ((e + mx - 1) div mx)"

definition chunks :: "cint \<Rightarrow> nat \<Rightarrow> nat \<Rightarrow> cptr \<Rightarrow> data_in list" where
  "chunks tag e mx d = map (chunk tag e mx d) [0..<chunk_count e mx]"

lemma chunk_count_less: "0 < mx \<Longrightarrow> 0 < j \<Longrightarrow> j < chunk_count e mx \<longleftrightarrow> j * mx < e"
proof -
  assume a: "0 < mx" "0 < j"
  then have "j < chunk_count e mx \<longleftrightarrow> j + 1 \<le> (e + mx - 1) div mx"
    by (auto simp: chunk_count_def)
  also have "\<dots> \<longleftrightarrow> (j + 1) * mx \<le> e + mx - 1"
    using a by (simp add: less_eq_div_iff_mult_less_eq)
  finally show ?thesis using a by (simp add: algebra_simps) linarith
qed

lemma chunk_count_pos: "0 < chunk_count e mx"
  by (simp add: chunk_count_def)

lemma chunk_count_le: "0 < mx \<Longrightarrow> chunk_count e mx \<le> e + 1"
proof (rule ccontr)
  assume a: "0 < mx" "\<not> chunk_count e mx \<le> e + 1"
  then have 1: "(e + 1) * mx < e" using chunk_count_less [of mx "e + 1" e] by simp
  have 2: "(e + 1) * 1 \<le> (e + 1) * mx" using a by (intro mult_le_mono) simp_all
  from le_less_trans [OF 2 1] show False by simp
qed

text \<open>A transfer of \<open>e\<close> bytes at \<open>d\<close> in messages of at most \<open>mx\<close> bytes that fit in a buffer.\<close>

definition transfer_ok :: "nat \<Rightarrow> nat \<Rightarrow> cptr \<Rightarrow> bool" where
  "transfer_ok e mx d \<longleftrightarrow> e \<le> 4194304 \<and> 0 < mx \<and> mx < 2147483648 \<and> min e mx \<le> 4194256
     \<and> pos d + e \<le> bsz d"

lemma chunk_offset_le: "transfer_ok e mx d \<Longrightarrow> j < chunk_count e mx \<Longrightarrow> j * mx \<le> e"
  using chunk_count_less [of mx j e] by (cases "j = 0") (auto simp: transfer_ok_def)

lemma chunk_sints:
  assumes "transfer_ok e mx d"
  shows "sint (word_of_nat e :: cint) = int e" "sint (word_of_nat mx :: cint) = int mx"
  using assms by (intro sint_of_nat; simp add: transfer_ok_def)+

lemma chunk_offset:
  assumes "transfer_ok e mx d" "j < chunk_count e mx"
  shows "sint (di_offset (chunk tag e mx d j)) = int (j * mx)"
proof -
  have "j * mx < 2147483648"
    using chunk_offset_le [OF assms] assms(1) unfolding transfer_ok_def by linarith
  from sint_of_nat [OF this] show ?thesis by (simp only: chunk_def data_in.select_convs)
qed

lemma chunk_length:
  assumes t: "transfer_ok e mx d" and j: "j < chunk_count e mx"
  shows "sint (di_length (chunk tag e mx d j)) = int (min (e - j * mx) mx)"
    and "di_size (chunk tag e mx d j) = min (e - j * mx) mx"
proof -
  let ?c = "chunk tag e mx d j"
  have s: "sint (di_expected ?c) = int e" "sint (di_max ?c) = int mx"
    using chunk_sints [OF t] by (simp_all add: chunk_def)
  have e: "e \<le> 4194304" using t by (simp add: transfer_ok_def)
  have "sint (di_expected ?c - di_offset ?c) = int (e - j * mx)"
    using s(1) chunk_offset [OF t j, of tag] chunk_offset_le [OF t j] e by (subst sint_minus) linarith+
  then show l: "sint (di_length ?c) = int (min (e - j * mx) mx)"
    unfolding di_length_def sint_c_min s of_nat_min by (simp only:)
  then show "di_size ?c = min (e - j * mx) mx"
    by (simp only: di_size_def nat_int)
qed

lemma chunk_next:
  assumes t: "transfer_ok e mx d" and j: "j < chunk_count e mx"
  shows "di_offset (chunk tag e mx d j) + di_length (chunk tag e mx d j) = word_of_nat (min e (Suc j * mx))"
proof (rule sint_word_of_nat)
  have "j * mx + min (e - j * mx) mx = min e (Suc j * mx)"
    using chunk_offset_le [OF t j] by simp
  moreover have "e \<le> 4194304" using t by (simp add: transfer_ok_def)
  ultimately show "sint (di_offset (chunk tag e mx d j) + di_length (chunk tag e mx d j))
      = int (min e (Suc j * mx))"
    using chunk_offset [OF t j, of tag] chunk_length(1) [OF t j, of tag] by (subst sint_plus) linarith+
qed

lemma chunk_good:
  assumes t: "transfer_ok e mx d" and j: "j < chunk_count e mx"
  shows "data_in_good c (chunk tag e mx d j)"
proof -
  have "min (e - j * mx) mx \<le> min e mx" by simp
  then have m: "min (e - j * mx) mx \<le> 4194256" using t unfolding transfer_ok_def by linarith
  then have "padn (48 + min (e - j * mx) mx) \<le> 4194304"
    using padn_mono [of "48 + min (e - j * mx) mx" 4194304] by simp
  moreover have "pos d + j * mx + min (e - j * mx) mx \<le> bsz d"
    using chunk_offset_le [OF t j] t unfolding transfer_ok_def by linarith
  moreover have "di_data (chunk tag e mx d j) = d" by (simp add: chunk_def)
  ultimately show ?thesis
    unfolding data_in_good_def chunk_offset [OF t j] chunk_length [OF t j] nat_int by simp
qed

lemma chunks_good: "transfer_ok e mx d \<Longrightarrow> \<forall>a \<in> set (chunks tag e mx d). data_in_good c a"
  by (auto simp: chunks_def chunk_good)

text \<open>The chunks together are the whole transfer.\<close>

lemma chunk_bytes:
  assumes t: "transfer_ok e mx d" and j: "j < chunk_count e mx"
  shows "di_bytes (chunk tag e mx d j) = bytes_of (blk d) (pos d + j * mx) (min (e - j * mx) mx)"
  unfolding di_bytes_def chunk_offset [OF t j] chunk_length [OF t j] nat_int by (simp add: chunk_def)

lemma concat_chunks_upto:
  assumes t: "transfer_ok e mx d" and "k \<le> chunk_count e mx"
  shows "concat (map (\<lambda>j. di_bytes (chunk tag e mx d j)) [0..<k]) = bytes_of (blk d) (pos d) (min e (k * mx))"
  using assms(2)
proof (induction k)
  case (Suc k)
  have k: "k < chunk_count e mx" using Suc.prems by simp
  note o = chunk_offset_le [OF t k]
  have "bytes_of (blk d) (pos d) (min e (Suc k * mx)) = bytes_of (blk d) (pos d) (k * mx + min (e - k * mx) mx)"
    using o by (intro arg_cong [where f = "bytes_of (blk d) (pos d)"]) simp
  also have "\<dots> = bytes_of (blk d) (pos d) (min e (k * mx)) @ di_bytes (chunk tag e mx d k)"
    using o by (simp only: bytes_of_append chunk_bytes [OF t k]) (simp add: min_absorb2)
  finally show ?case using Suc by simp
qed simp

lemma concat_chunks:
  assumes t: "transfer_ok e mx d"
  shows "concat (map di_bytes (chunks tag e mx d)) = bytes_of (blk d) (pos d) e"
proof -
  have "e \<le> chunk_count e mx * mx"
    using chunk_count_less [of mx "chunk_count e mx" e] chunk_count_pos [of e mx] t
    by (auto simp: transfer_ok_def)
  then show ?thesis
    using concat_chunks_upto [OF t order_refl, of tag] by (simp add: chunks_def comp_def min_absorb1)
qed

text \<open>The loop sends the chunks that are left, and never runs out of fuel on a transfer.\<close>

lemma data_in_loop_chunks:
  assumes t: "transfer_ok e mx d"
  shows "k \<le> chunk_count e mx \<Longrightarrow> chunk_count e mx - k \<le> fuel \<Longrightarrow>
    data_in_loop fuel c tag (word_of_nat e) (word_of_nat mx) d (word_of_nat k) (word_of_nat (min e (k * mx)))
      = send_all data_in_send c (map (chunk tag e mx d) [k..<chunk_count e mx])"
proof (induction "chunk_count e mx - k" arbitrary: k c fuel)
  case 0
  then have k: "k = chunk_count e mx" by simp
  have "k \<le> 4194305" using k chunk_count_le [of mx e] t by (simp add: transfer_ok_def)
  then have "sint (word_of_nat k :: cint) = int k" by (intro sint_of_nat) simp
  then have nz: "(word_of_nat k :: cint) \<noteq> 0" using k chunk_count_pos [of e mx] by auto
  have "e \<le> k * mx"
    using chunk_count_less [of mx k e] chunk_count_pos [of e mx] t k by (auto simp: transfer_ok_def)
  then show ?case
    using nz k by (subst data_in_loop.simps) (simp add: min_absorb1)
next
  case (Suc n)
  then have k: "k < chunk_count e mx" by simp
  then obtain f where f: "fuel = Suc f" using Suc.prems by (cases fuel) auto
  let ?c = "chunk tag e mx d k"
  note o = chunk_offset_le [OF t k]
  have off: "word_of_nat (min e (k * mx)) = di_offset ?c"
    using o by (simp add: chunk_def min_absorb2)
  have nxt: "di_offset ?c + c_min (word_of_nat e - di_offset ?c) (word_of_nat mx)
      = word_of_nat (min e (Suc k * mx))"
    using chunk_next [OF t k, of tag] by (simp add: di_length_def chunk_def)
  have cond: "(word_of_nat k :: cint) = 0 \<or> sint (di_offset ?c) < sint (word_of_nat e :: cint)"
  proof (cases "k = 0")
    case False
    then have "k * mx < e" using chunk_count_less [of mx k e] k t by (simp add: transfer_ok_def)
    then have "int (k * mx) < int e" by (simp only: of_nat_less_iff)
    then show ?thesis by (simp only: chunk_offset [OF t k] chunk_sints [OF t] simp_thms)
  qed simp
  have pdu: "data_in_pdu c tag (word_of_nat e) (word_of_nat mx) d (word_of_nat k) (di_offset ?c)
      = data_in_send c ?c"
    by (simp add: data_in_send_def chunk_def)
  have "data_in_loop fuel c tag (word_of_nat e) (word_of_nat mx) d (word_of_nat k) (di_offset ?c)
      = bindR (data_in_send c ?c) (\<lambda>c. data_in_loop f c tag (word_of_nat e) (word_of_nat mx) d
          (word_of_nat (Suc k)) (word_of_nat (min e (Suc k * mx))))"
    using cond by (subst data_in_loop.simps) (simp only: f pdu nxt if_True nat.case of_nat_Suc add.commute)
  also have "\<dots> = bindR (data_in_send c ?c) (\<lambda>c. send_all data_in_send c
      (map (chunk tag e mx d) [Suc k..<chunk_count e mx]))"
    using Suc.hyps Suc.prems f k by (intro arg_cong [where f = "bindR (data_in_send c ?c)"] ext Suc.hyps(1)) simp_all
  also have "\<dots> = send_all data_in_send c (map (chunk tag e mx d) [k..<chunk_count e mx])"
    using k by (simp add: upt_conv_Cons)
  finally show ?case by (simp only: off)
qed

lemma data_in_send_chunks:
  assumes t: "transfer_ok e mx (iscsi_target_buffer target)"
    and mx: "max_receive_data_segment_length (conn_parameter c) = word_of_nat mx" and "e + mx \<le> 2147483647"
  shows "iscsi_request_data_in_send c tag (word_of_nat e) target
    = send_all data_in_send c (chunks tag e mx (iscsi_target_buffer target))"
proof -
  have s: "sint (word_of_nat e :: cint) = int e" "sint (word_of_nat mx :: cint) = int mx"
    using chunk_sints [OF t] by simp_all
  have "0 < mx" using t by (simp add: transfer_ok_def)
  with s assms(3) obtain q where "divide_round_up (word_of_nat e) (word_of_nat mx) = Inr q"
    using divide_round_up_spec [of "word_of_nat e" "word_of_nat mx"] by auto
  moreover have "chunk_count e mx \<le> e + 1" using t by (intro chunk_count_le) (simp add: transfer_ok_def)
  ultimately show ?thesis
    using data_in_loop_chunks [OF t, of 0 "nat (sint (word_of_nat e :: cint)) + 1" c tag] s
    by (simp add: iscsi_request_data_in_send_def mx chunks_def)
qed

lemma length_data_in_messages:
  "\<forall>d \<in> set ds. data_in_good c d \<Longrightarrow>
   length (concat (messages data_in_message c ds)) = sum_list (map (\<lambda>d. padn (48 + di_size d)) ds)"
  by (induction ds arbitrary: c) (simp_all add: data_in_lengths(4) data_in.good_sn)

lemma length_chunk_messages:
  assumes "transfer_ok e mx d"
  shows "length (concat (messages data_in_message c (chunks tag e mx d)))
    = sum_list (map (\<lambda>j. padn (48 + min (e - j * mx) mx)) [0..<chunk_count e mx])"
  by (simp only: length_data_in_messages [OF chunks_good [OF assms]])
    (auto simp: chunks_def chunk_length(2) [OF assms] intro!: arg_cong [where f = sum_list])

section \<open>The R2T series\<close>

fun r2t_series :: "nat \<Rightarrow> cint \<Rightarrow> cint \<Rightarrow> cint \<Rightarrow> cint \<Rightarrow> cint \<Rightarrow> cint \<Rightarrow> r2t list" where
  "r2t_series 0 task transfer mr ex i off = []"
| "r2t_series (Suc k) task transfer mr ex i off =
     \<lparr>r2t_task_tag = task, r2t_transfer_tag = transfer, r2t_number = i, r2t_offset = off,
      r2t_desired = c_min mr (ex - off)\<rparr> # r2t_series k task transfer mr ex (i + 1) (off + mr)"

lemma r2t_loop_series:
  "r2t_loop k c task transfer mr ex i off = send_all r2t_send c (r2t_series k task transfer mr ex i off)"
  by (induction k arbitrary: c i off) (simp_all add: r2t_send_def)

text \<open>The requests for the bytes from \<open>start\<close> on of a write of \<open>e\<close> bytes, the first \<open>k\<close> of them.\<close>

definition requested :: "cint \<Rightarrow> cint \<Rightarrow> nat \<Rightarrow> nat \<Rightarrow> nat \<Rightarrow> nat \<Rightarrow> r2t list" where
  "requested task transfer mx e start k =
     map (\<lambda>j. \<lparr>r2t_task_tag = task, r2t_transfer_tag = transfer, r2t_number = word_of_nat j,
       r2t_offset = word_of_nat (start + j * mx),
       r2t_desired = word_of_nat (min mx (e - (start + j * mx)))\<rparr>) [0..<k]"

lemma r2t_series_requested:
  assumes "e + mx \<le> 2147483647" "start \<le> e" "(k - 1) * mx \<le> e - start"
  shows "r2t_series k task transfer (word_of_nat mx) (word_of_nat e) 0 (word_of_nat start)
    = requested task transfer mx e start k"
proof -
  have "r2t_series n task transfer (word_of_nat mx) (word_of_nat e) (word_of_nat i) (word_of_nat (start + i * mx))
    = map (\<lambda>j. \<lparr>r2t_task_tag = task, r2t_transfer_tag = transfer, r2t_number = word_of_nat j,
       r2t_offset = word_of_nat (start + j * mx),
       r2t_desired = word_of_nat (min mx (e - (start + j * mx)))\<rparr>) [i..<i + n]"
    if "i + n = k" for i n
    using that
  proof (induction n arbitrary: i)
    case (Suc n)
    have "i \<le> k - 1" using Suc.prems by linarith
    then have "i * mx \<le> (k - 1) * mx" by simp
    then have o: "start + i * mx \<le> e" using assms by linarith
    then have s: "sint (word_of_nat (start + i * mx) :: cint) = int (start + i * mx)"
      "sint (word_of_nat e :: cint) = int e" "sint (word_of_nat mx :: cint) = int mx"
      using assms(1) by (intro sint_of_nat; linarith)+
    then have "sint (word_of_nat e - word_of_nat (start + i * mx) :: cint)
        = sint (word_of_nat e :: cint) - sint (word_of_nat (start + i * mx) :: cint)"
      using o assms(1) by (intro sint_minus) linarith+
    then have "sint (word_of_nat e - word_of_nat (start + i * mx) :: cint) = int (e - (start + i * mx))"
      by (simp only: s of_nat_diff [OF o])
    then have m: "c_min (word_of_nat mx) (word_of_nat e - word_of_nat (start + i * mx))
        = word_of_nat (min mx (e - (start + i * mx)))"
      by (intro sint_word_of_nat) (simp only: sint_c_min s of_nat_min)
    have sums: "word_of_nat (start + i * mx) + word_of_nat mx = (word_of_nat (start + Suc i * mx) :: cint)"
      "word_of_nat i + 1 = (word_of_nat (Suc i) :: cint)"
      by (simp_all add: algebra_simps)
    have "[i..<i + Suc n] = i # [Suc i..<Suc i + n]" by (simp add: upt_conv_Cons)
    moreover have "Suc i + n = k" using Suc.prems by simp
    ultimately show ?case
      by (simp only: r2t_series.simps m sums Suc.IH list.map)
  qed simp
  from this [of 0 k] show ?thesis by (simp add: requested_def)
qed

section \<open>The handlers\<close>

text \<open>A connection that is logged in, and the session and target behind it.\<close>

definition logged_in :: "'d world \<Rightarrow> bool" where
  "logged_in w \<longleftrightarrow> session_reference (connection w) = DefaultSession
     \<and> session_target (default_session w) = DefaultTarget"

lemma logged_in_pointers:
  "logged_in w \<Longrightarrow> the_session w = Inr (default_session w)"
  "logged_in w \<Longrightarrow> the_target w = Inr (default_target w)"
  by (simp_all add: logged_in_def the_session_def the_target_def)

text \<open>
  The session as the initiator can tell it: the numbers of the next answer, the last transfer tag, the
  negotiated parameters without their text, the device and the buffers it is called with.
\<close>

definition limits :: "iSCSIConnectionParameter \<Rightarrow> iSCSIConnectionParameter" where
  "limits p = p\<lparr>pbuffer := \<lambda>_. 0, plength := 0\<rparr>"

lemma limits_sel [simp]:
  "max_receive_data_segment_length (limits p) = max_receive_data_segment_length p"
  "max_connections (limits p) = max_connections p" "initial_r2t (limits p) = initial_r2t p"
  "immediate_data (limits p) = immediate_data p" "max_burst_length (limits p) = max_burst_length p"
  "first_burst_length (limits p) = first_burst_length p" "data_pdu_in_order (limits p) = data_pdu_in_order p"
  "data_sequence_in_order (limits p) = data_sequence_in_order p" "default_time_2_wait (limits p) = default_time_2_wait p"
  "default_time_2_retain (limits p) = default_time_2_retain p" "max_outstanding_r2t (limits p) = max_outstanding_r2t p"
  "limits (p\<lparr>pbuffer := m, plength := n\<rparr>) = limits p"
  by (simp_all add: limits_def)

record 'd session_view =
  view_sn :: cint
  view_exp :: cint
  view_tag :: cint
  view_limits :: iSCSIConnectionParameter
  view_disk :: 'd
  view_data :: mem
  view_sense :: mem

definition view :: "'d world \<Rightarrow> 'd session_view" where
  "view w = \<lparr>view_sn = stat_sn (connection w), view_exp = expected_cmd_sn (connection w),
     view_tag = session_transfer_tag (default_session w), view_limits = limits (conn_parameter (connection w)),
     view_disk = device w, view_data = tbuffer (default_target w), view_sense = sense_buffer (default_target w)\<rparr>"

lemma view_sel [simp]:
  "view_sn (view w) = stat_sn (connection w)" "view_exp (view w) = expected_cmd_sn (connection w)"
  "view_tag (view w) = session_transfer_tag (default_session w)" "view_limits (view w) = limits (conn_parameter (connection w))"
  "view_disk (view w) = device w" "view_data (view w) = tbuffer (default_target w)"
  "view_sense (view w) = sense_buffer (default_target w)"
  by (simp_all add: view_def)

text \<open>What one call of the device leaves.\<close>

definition view_after :: "'d sg_reply \<Rightarrow> 'd session_view \<Rightarrow> 'd session_view" where
  "view_after r v = v\<lparr>view_disk := reply_device r, view_data := reply_buffer r, view_sense := reply_sense r\<rparr>"

definition view_command :: "'d session_view \<Rightarrow> 'd session_view" where
  "view_command v = v\<lparr>view_exp := view_exp v + 1, view_tag := view_tag v + 1\<rparr>"

text \<open>What the header of a SCSI command asks for, as numbers.\<close>

definition write_plan :: "mem \<Rightarrow> iSCSIConnectionParameter \<Rightarrow> nat \<Rightarrow> nat \<Rightarrow> nat \<Rightarrow> bool" where
  "write_plan request par e mx k \<longleftrightarrow>
     iscsi_request_cmd_write request 0 \<noteq> 0 \<and> iscsi_request_cmd_exp_data_transfer request 0 = word_of_nat e
     \<and> max_receive_data_segment_length par = word_of_nat mx \<and> 0 < mx \<and> e + mx \<le> 2147483647
     \<and> dsl request 0 < e \<and> initial_r2t par \<noteq> 0 \<and> 0 \<le> sint (max_outstanding_r2t par)
     \<and> k = min (nat (sint (max_outstanding_r2t par))) ((e - dsl request 0 + mx - 1) div mx)"

lemma write_plan_series:
  assumes "write_plan request par e mx k"
  shows "(k - 1) * mx \<le> e - dsl request 0"
proof -
  have p: "0 < mx" "k \<le> (e - dsl request 0 + mx - 1) div mx" using assms by (auto simp: write_plan_def)
  then have "k * mx \<le> e - dsl request 0 + mx - 1" by (simp add: less_eq_div_iff_mult_less_eq)
  then show ?thesis by (cases k) auto
qed

lemma c_min_nat:
  "sint a = int m \<Longrightarrow> sint b = int n \<Longrightarrow> nat (sint (c_min a b)) = min m n"
  by (simp add: min_def)

lemma write_plan_count:
  assumes p: "write_plan request par e mx k"
  shows "\<exists>q. divide_round_up (word_of_nat e - iscsi_pdu_data_segment_length request 0) (word_of_nat mx) = Inr q
    \<and> nat (sint (c_min (max_outstanding_r2t par) q)) = k"
proof -
  let ?n = "dsl request 0"
  have e: "?n < e" "0 < mx" "e + mx \<le> 2147483647" using p by (simp_all add: write_plan_def)
  have s: "sint (word_of_nat e :: cint) = int e" "sint (word_of_nat mx :: cint) = int mx"
    using e by (intro sint_of_nat; linarith)+
  have l: "sint (word_of_nat e - iscsi_pdu_data_segment_length request 0) = int (e - ?n)"
    using s e sint_dsl [of request 0] by (subst sint_minus) linarith+
  then obtain q where q: "divide_round_up (word_of_nat e - iscsi_pdu_data_segment_length request 0)
      (word_of_nat mx) = Inr q" "sint q = (int (e - ?n) + int mx - 1) div int mx"
    using divide_round_up_spec [of "word_of_nat e - iscsi_pdu_data_segment_length request 0" "word_of_nat mx"]
      e s by auto
  have "int (e - ?n) + int mx - 1 = int (e - ?n + mx - 1)" using e by linarith
  then have "(int (e - ?n) + int mx - 1) div int mx = int ((e - ?n + mx - 1) div mx)"
    by (simp only: zdiv_int)
  then have "nat (sint (c_min (max_outstanding_r2t par) q)) = k"
    using p q(2) by (subst c_min_nat [of _ "nat (sint (max_outstanding_r2t par))" _ "(e - ?n + mx - 1) div mx"])
      (auto simp: write_plan_def)
  with q show ?thesis by blast
qed

lemma length_r2t_messages: "length (concat (messages r2t_message c rs)) = 48 * length rs"
  by (induction rs arbitrary: c) (simp_all add: r2t_message_def)

lemma advance_expected_sel [simp]:
  "response_buffer (iscsi_connection_advance_expected_cmd_sn c) = response_buffer c"
  "receive_buffer (iscsi_connection_advance_expected_cmd_sn c) = receive_buffer c"
  "request_of (iscsi_connection_advance_expected_cmd_sn c) = request_of c"
  "conn_parameter (iscsi_connection_advance_expected_cmd_sn c) = conn_parameter c"
  "session_reference (iscsi_connection_advance_expected_cmd_sn c) = session_reference c"
  "stat_sn (iscsi_connection_advance_expected_cmd_sn c) = stat_sn c"
  by (simp_all add: iscsi_connection_advance_expected_cmd_sn_def request_of_def)

lemma advance_expected_number:
  "expected_cmd_sn (iscsi_connection_advance_expected_cmd_sn c) = expected_cmd_sn c + 1"
  by (simp add: iscsi_connection_advance_expected_cmd_sn_def)

lemma transfer_entry_create_ok:
  "iscsi_transfer_entry_create entry (iscsi_request_cmd_cdb c) n mr tag =
     Inr (entry\<lparr>entry_cdb := blit (entry_cdb entry) 0 (\<lambda>i. request_of c (32 + i)) 16,
       total_length := n, entry_transfer_tag := tag\<rparr>)"
  by (simp add: iscsi_transfer_entry_create_def iscsi_request_cmd_cdb_def request_ptr_def
      iscsi_buffer_data_def c_memcpy_ok request_of_def padd_def)

lemma write_command:
  assumes w: "logged_in w"
    and p: "write_plan (request_of (connection w)) (conn_parameter (connection w)) e mx k"
    and r: "room (response_buffer (connection w)) (48 * k)"
  defines "c \<equiv> iscsi_connection_advance_expected_cmd_sn (connection w)"
    and "s \<equiv> default_session w" and "req \<equiv> request_of (connection w)"
  shows "\<exists>w'. iscsi_request_cmd_process os w = Inr (0, w') \<and> device w' = device w
    \<and> default_target w' = default_target w
    \<and> transfer_entry (default_session w') = (transfer_entry s)\<lparr>
        entry_cdb := blit (entry_cdb (transfer_entry s)) 0 (\<lambda>i. req (32 + i)) 16,
        total_length := word_of_nat e, entry_transfer_tag := session_transfer_tag s + 1\<rparr>
    \<and> contents (response_buffer (connection w')) = contents (response_buffer (connection w))
        @ concat (messages r2t_message c (requested (iscsi_pdu_initiator_task_tag req 0)
            (session_transfer_tag s + 1) mx e (dsl req 0) k))
    \<and> stat_sn (connection w') = stat_sn (connection w) + word_of_nat k
    \<and> expected_cmd_sn (connection w') = expected_cmd_sn c
    \<and> view w' = (view_command (view w))\<lparr>view_sn := stat_sn (connection w) + word_of_nat k\<rparr>"
proof -
  let ?par = "conn_parameter (connection w)" and ?tag = "session_transfer_tag s + 1"
    and ?itt = "iscsi_pdu_initiator_task_tag req 0"
  let ?rs = "requested ?itt ?tag mx e (dsl req 0) k"
  have q: "iscsi_request_cmd_write req 0 \<noteq> 0" "iscsi_request_cmd_exp_data_transfer req 0 = word_of_nat e"
    "max_receive_data_segment_length ?par = word_of_nat mx" "initial_r2t ?par \<noteq> 0"
    "dsl req 0 < e" "e + mx \<le> 2147483647"
    using p by (simp_all add: write_plan_def req_def)
  have lt: "sint (iscsi_pdu_data_segment_length req 0) < sint (word_of_nat e :: cint)"
    using q(5,6) sint_of_nat [of e] unfolding sint_dsl by simp
  obtain t where t: "divide_round_up (word_of_nat e - iscsi_pdu_data_segment_length req 0) (word_of_nat mx) = Inr t"
    "nat (sint (c_min (max_outstanding_r2t ?par) t)) = k"
    using write_plan_count [OF p] unfolding req_def by blast
  have start: "iscsi_pdu_data_segment_length req 0 = word_of_nat (dsl req 0)"
    by (rule sint_word_of_nat) (rule sint_dsl)
  have series: "r2t_series k ?itt ?tag (word_of_nat mx) (word_of_nat e) 0
      (iscsi_pdu_data_segment_length req 0) = ?rs"
    unfolding start using r2t_series_requested [of e mx "dsl req 0" k] write_plan_series [OF p] q(5,6)
    by (simp add: req_def)
  have len: "length ?rs = k" by (simp add: requested_def)
  have "after c (concat (messages r2t_message c ?rs)) (length ?rs) (send_all r2t_send c ?rs)"
    using r by (intro r2t.send_all_ok) (simp_all add: length_r2t_messages len c_def)
  then obtain b where b: "send_all r2t_send c ?rs =
      Inr (c\<lparr>response_buffer := b, stat_sn := stat_sn c + word_of_nat (length ?rs)\<rparr>)"
    "contents b = contents (response_buffer c) @ concat (messages r2t_message c ?rs)"
    by (auto simp: after_def)
  have rc: "request_of c = req" "conn_parameter c = ?par" "contents (response_buffer c) = contents (response_buffer (connection w))"
    "stat_sn c = stat_sn (connection w)" "expected_cmd_sn c = expected_cmd_sn (connection w) + 1"
    by (simp_all add: c_def req_def advance_expected_number)
  show ?thesis
    using q lt b t
    by (simp add: iscsi_request_cmd_process_def logged_in_pointers [OF w] iscsi_session_next_transfer_tag_def
        transfer_entry_create_ok r2t_loop_series series rc len Let_def view_def view_command_def
        flip: c_def s_def del: bindR_eq_Inr)
qed

text \<open>The answer of the device to the command block of the request in the receive buffer.\<close>

definition reply_to :: "'d os \<Rightarrow> 'd world \<Rightarrow> byte list \<Rightarrow> mem \<Rightarrow> 'd sg_reply" where
  "reply_to os w cdb buf =
     os_ioctl os (device w) sg_request cdb buf (sense_buffer (default_target w))"

definition target_after :: "'d sg_reply \<Rightarrow> iSCSITarget \<Rightarrow> iSCSITarget" where
  "target_after r t = t\<lparr>
     io_hdr := sg_request\<lparr>status := reply_status r, sb_len_wr := reply_sb_len_wr r, resid := reply_resid r\<rparr>,
     tbuffer := reply_buffer r, sense_buffer := reply_sense r,
     scsi_response := (if sint (reply_ret r) < 0 then 1 else 0)\<rparr>"

lemma execute_command:
  assumes "logged_in w"
  shows "iscsi_session_execute_command os w cdb =
    (let r = reply_to os w (bytes_of (blk cdb) (pos cdb) 16) (tbuffer (default_target w)) in
     Inr (w\<lparr>device := reply_device r, default_target := target_after r (default_target w)\<rparr>))"
  by (simp add: iscsi_session_execute_command_def logged_in_pointers [OF assms]
      iscsi_target_execute_scsi_command_def reply_to_def target_after_def Let_def)

lemma cmd_cdb: "bytes_of (blk (iscsi_request_cmd_cdb c)) (pos (iscsi_request_cmd_cdb c)) 16
    = bytes_of (request_of c) 32 16"
  by (simp add: iscsi_request_cmd_cdb_def request_ptr_def iscsi_buffer_data_def request_of_def padd_def)

lemma target_after_sel [simp]:
  "tbuffer (target_after r t) = reply_buffer r" "resid (io_hdr (target_after r t)) = reply_resid r"
  "sense_buffer (target_after r t) = reply_sense r" "sbp_set (io_hdr (target_after r t))"
  "sb_len_wr (io_hdr (target_after r t)) = reply_sb_len_wr r"
  "status (io_hdr (target_after r t)) = reply_status r"
  by (simp_all add: target_after_def sg_request_def)

text \<open>A read: one call of the device, then its data in Data-In messages.\<close>

lemma read_command:
  fixes os :: "'d os" and w :: "'d world"
  assumes w: "logged_in w"
    and d: "iscsi_request_cmd_write (request_of (connection w)) 0 = 0"
      "iscsi_request_cmd_read (request_of (connection w)) 0 \<noteq> 0"
  defines "c \<equiv> iscsi_connection_advance_expected_cmd_sn (connection w)"
    and "req \<equiv> request_of (connection w)"
  defines "r \<equiv> reply_to os w (bytes_of req 32 16) (tbuffer (default_target w))"
  assumes e: "c_min (iscsi_request_cmd_exp_data_transfer req 0) (4194304 - reply_resid r) = word_of_nat e"
    and t: "transfer_ok e mx \<lparr>blk = reply_buffer r, bsz = 4194304, pos = 0\<rparr>"
    and mx: "max_receive_data_segment_length (conn_parameter c) = word_of_nat mx" "e + mx \<le> 2147483647"
  defines "ds \<equiv> chunks (iscsi_pdu_initiator_task_tag req 0) e mx \<lparr>blk = reply_buffer r, bsz = 4194304, pos = 0\<rparr>"
  assumes room: "room (response_buffer c) (length (concat (messages data_in_message c ds)))"
  shows "\<exists>w'. iscsi_request_cmd_process os w = Inr (0, w') \<and> device w' = reply_device r
    \<and> contents (response_buffer (connection w')) = contents (response_buffer (connection w))
        @ concat (messages data_in_message c ds)
    \<and> concat (map di_bytes ds) = bytes_of (reply_buffer r) 0 e
    \<and> view w' = (view_after r (view_command (view w)))\<lparr>view_sn := stat_sn (connection w) + word_of_nat (length ds)\<rparr>"
proof -
  let ?t = "target_after r (default_target w)" and ?itt = "iscsi_pdu_initiator_task_tag req 0"
  let ?s = "(default_session w)\<lparr>session_transfer_tag := session_transfer_tag (default_session w) + 1\<rparr>"
  let ?w = "w\<lparr>connection := c, default_session := ?s\<rparr>"
  have buf: "iscsi_target_buffer ?t = \<lparr>blk = reply_buffer r, bsz = 4194304, pos = 0\<rparr>"
    by (simp add: iscsi_target_buffer_def)
  have w1: "logged_in ?w" using w by (simp add: logged_in_def c_def)
  have rc: "request_of c = req" "conn_parameter c = conn_parameter (connection w)" "stat_sn c = stat_sn (connection w)"
    "expected_cmd_sn c = expected_cmd_sn (connection w) + 1"
    by (simp_all add: c_def req_def advance_expected_number)
  have ex: "iscsi_session_execute_command os ?w (iscsi_request_cmd_cdb c)
      = Inr (?w\<lparr>device := reply_device r, default_target := ?t\<rparr>)"
    using execute_command [OF w1, of os "iscsi_request_cmd_cdb c"]
    by (simp add: cmd_cdb rc r_def reply_to_def Let_def)
  have tg: "the_target (?w\<lparr>device := reply_device r, default_target := ?t\<rparr>) = Inr ?t"
    using w by (simp add: logged_in_def the_target_def the_session_def c_def)
  have "after c (concat (messages data_in_message c ds)) (length ds) (send_all data_in_send c ds)"
    using room chunks_good [OF t] by (intro data_in.send_all_ok) (simp_all add: ds_def)
  then obtain b where b: "send_all data_in_send c ds =
      Inr (c\<lparr>response_buffer := b, stat_sn := stat_sn c + word_of_nat (length ds)\<rparr>)"
    "contents b = contents (response_buffer c) @ concat (messages data_in_message c ds)"
    by (auto simp: after_def)
  have send: "iscsi_request_data_in_send c ?itt (word_of_nat e) ?t = send_all data_in_send c ds"
    using data_in_send_chunks [of e mx ?t c ?itt] t mx by (simp add: buf ds_def)
  have "concat (map di_bytes ds) = bytes_of (reply_buffer r) 0 e"
    using concat_chunks [OF t] by (simp add: ds_def)
  moreover have "response_buffer c = response_buffer (connection w)" by (simp add: c_def)
  ultimately show ?thesis
    using d b e
    by (simp add: iscsi_request_cmd_process_def logged_in_pointers [OF w] iscsi_session_next_transfer_tag_def
        ex tg send rc Let_def view_def view_command_def view_after_def flip: c_def req_def del: bindR_eq_Inr)
qed

text \<open>A SCSI response changes the connection only, as the sender does.\<close>

lemma map_sum_bindR: "map_sum id f (bindR m g) = bindR m (\<lambda>x. map_sum id f (g x))"
  by (cases m) auto

lemma send_response_world:
  "iscsi_request_cmd_send_response w = bindR (scsi_send (connection w) w) (\<lambda>c. Inr (w\<lparr>connection := c\<rparr>))"
  by (auto simp: scsi_send_def iscsi_request_cmd_send_response_def map_sum_bindR bindR_assoc Let_def
      split_def intro!: bindR_cong)

text \<open>The Data-Out that a transfer entry waited for, its data, and the place in the entry.\<close>

definition data_out_plan :: "'d world \<Rightarrow> nat \<Rightarrow> bool" where
  "data_out_plan w off \<longleftrightarrow> (let req = request_of (connection w) in
     iscsi_pdu_target_transfer_tag req 0 \<noteq> DEFAULT_TARGET_TRANSFER_TAG
     \<and> entry_transfer_tag (transfer_entry (default_session w)) = iscsi_pdu_target_transfer_tag req 0
     \<and> sint (iscsi_request_data_out_buffer_offset req 0) = int off
     \<and> off + dsl req 0 \<le> 4194304 \<and> 48 + dsl req 0 \<le> 4194304)"

definition stored_data :: "'d world \<Rightarrow> nat \<Rightarrow> mem" where
  "stored_data w off = blit (entry_data (transfer_entry (default_session w))) off
     (\<lambda>i. request_of (connection w) (48 + i)) (dsl (request_of (connection w)) 0)"

definition store :: "'d world \<Rightarrow> nat \<Rightarrow> 'd world" where
  "store w off = w\<lparr>default_session := (default_session w)\<lparr>
     transfer_entry := (transfer_entry (default_session w))\<lparr>entry_data := stored_data w off\<rparr>\<rparr>\<rparr>"

lemma data_out_copy:
  assumes "data_out_plan w off"
  shows "c_memcpy (entry_data (transfer_entry (default_session w))) ISCSI_TRANSFER_ENTRY_SIZE
      (sint (iscsi_request_data_out_buffer_offset (request_of (connection w)) 0))
      (iscsi_pdu_data (connection w)) (sint (iscsi_pdu_data_segment_length (request_of (connection w)) 0))
    = Inr (stored_data w off)"
  using assms
  by (simp add: data_out_plan_def Let_def sint_dsl iscsi_pdu_data_def request_ptr_def
      iscsi_buffer_data_def padd_def c_memcpy_ok stored_data_def request_of_def)

lemma data_out_partial:
  assumes w: "logged_in w" and p: "data_out_plan w off"
    and "iscsi_request_data_out_buffer_offset (request_of (connection w)) 0
        + iscsi_pdu_data_segment_length (request_of (connection w)) 0
      \<noteq> total_length (transfer_entry (default_session w))"
    and "iscsi_pdu_final (request_of (connection w)) 0 = 0
      \<or> sint (total_r2t_sn (transfer_entry (default_session w))) \<le> sint (r2t_sn (transfer_entry (default_session w)))"
  shows "iscsi_request_data_out_process os w = Inr (0, store w off)"
  using assms data_out_copy [OF p] logged_in_pointers [OF w]
  by (auto simp: iscsi_request_data_out_process_def data_out_plan_def Let_def
      iscsi_session_get_transfer_entry_def store_def)

lemma data_out_last:
  fixes os :: "'d os" and w :: "'d world"
  assumes w: "logged_in w" and p: "data_out_plan w off"
    and total: "sint (total_length (transfer_entry (default_session w))) = int (off + dsl (request_of (connection w)) 0)"
  defines "c \<equiv> connection w" and "e \<equiv> transfer_entry (default_session w)"
    and "n \<equiv> off + dsl (request_of (connection w)) 0"
  defines "r \<equiv> reply_to os w (bytes_of (entry_cdb e) 0 16)
      (blit (tbuffer (default_target w)) 0 (stored_data w off) n)"
  assumes sense: "unat (reply_sb_len_wr r) \<le> 32"
  defines "w' \<equiv> (store w off)\<lparr>device := reply_device r, default_target :=
      target_after r ((default_target w)\<lparr>tbuffer := blit (tbuffer (default_target w)) 0 (stored_data w off) n\<rparr>)\<rparr>"
  assumes room: "room (response_buffer c) (length (scsi_message c w'))"
  shows "\<exists>w2. iscsi_request_data_out_process os w = Inr (0, w2) \<and> device w2 = reply_device r
    \<and> contents (response_buffer (connection w2)) = contents (response_buffer c) @ scsi_message c w'
    \<and> view w2 = (view_after r (view w))\<lparr>view_sn := stat_sn (connection w) + 1\<rparr>"
proof -
  let ?m = "stored_data w off" and ?tb = "blit (tbuffer (default_target w)) 0 (stored_data w off) n"
  let ?w1 = "(store w off)\<lparr>default_target := (default_target w)\<lparr>tbuffer := ?tb\<rparr>\<rparr>"
  let ?e = "e\<lparr>entry_data := ?m\<rparr>"
  have n: "n \<le> 4194304" using p by (simp add: data_out_plan_def Let_def n_def)
  have sel: "connection (store w off) = c" "default_target (store w off) = default_target w"
    "device (store w off) = device w" "connection w' = c"
    by (simp_all add: store_def c_def w'_def)
  have w1: "logged_in ?w1" "logged_in (store w off)"
    using w by (simp_all add: logged_in_def store_def)
  have "c_memcpy (tbuffer (default_target w)) ISCSI_TARGET_MEMORY_SIZE 0 (iscsi_transfer_entry_data ?e)
      (sint (total_length e)) = Inr ?tb"
    using n total by (simp add: iscsi_transfer_entry_data_def e_def n_def c_memcpy_ok del: of_nat_add)
  moreover have "iscsi_session_execute_command os ?w1 (iscsi_transfer_entry_cdb ?e) = Inr w'"
    using execute_command [OF w1(1), of os "iscsi_transfer_entry_cdb ?e"]
    by (simp add: iscsi_transfer_entry_cdb_def r_def reply_to_def sel w'_def Let_def)
  ultimately have exec: "iscsi_session_execute_transfer_entry os (store w off) ?e = Inr w'"
    by (simp add: iscsi_session_execute_transfer_entry_def logged_in_pointers [OF w1(2)] sel)
  have "scsi_good c w'"
    using w sense by (simp add: scsi_good_def logged_in_def c_def w'_def store_def sense_size_def)
  from scsi_sends [OF this room] obtain b where b: "scsi_send c w' =
      Inr (c\<lparr>response_buffer := b, stat_sn := stat_sn c + 1\<rparr>)"
    "contents b = contents (response_buffer c) @ scsi_message c w'"
    by (auto simp: after_def)
  have last: "iscsi_request_data_out_buffer_offset (request_of (connection w)) 0
      + iscsi_pdu_data_segment_length (request_of (connection w)) 0 = total_length e"
  proof (rule signed_word_eqI)
    have o: "sint (iscsi_request_data_out_buffer_offset (request_of (connection w)) 0) = int off"
      using p by (simp add: data_out_plan_def Let_def)
    show "sint (iscsi_request_data_out_buffer_offset (request_of (connection w)) 0
      + iscsi_pdu_data_segment_length (request_of (connection w)) 0) = sint (total_length e)"
      using total n o sint_dsl [of "request_of (connection w)" 0] unfolding e_def n_def
      by (subst sint_plus) linarith+
  qed
  have "iscsi_request_data_out_process os w =
      bindR (iscsi_session_execute_transfer_entry os (store w off) ?e) (\<lambda>w.
      bindR (iscsi_request_cmd_send_response w) (\<lambda>w. Inr (0, w)))"
    using p last data_out_copy [OF p] logged_in_pointers [OF w]
    by (simp add: iscsi_request_data_out_process_def data_out_plan_def Let_def
        iscsi_session_get_transfer_entry_def store_def e_def del: bindR_eq_Inr)
  then show ?thesis
    using b by (simp add: exec send_response_world sel) (simp add: w'_def view_def view_after_def c_def store_def)
qed

end
