(* ===== verification/Iscsi_Negotiation.thy ===== *)
theory Iscsi_Negotiation
  imports Iscsi_Parameter
begin

text \<open>
  The behaviour of the login parameters: the effect of one \<open>key=value\<close> pair as a function on
  strings (\<open>apply_pair\<close>), the values that stay within the target's limits (\<open>negotiated\<close>), the
  parsing of a whole well-formed text as the fold of \<open>apply_pair\<close> over its pairs, the text that is
  sent back, and the look-up of a key.
\<close>

section \<open>Strings and the pairs they form\<close>

lemma key_equal_str: "str_at key k \<Longrightarrow> 0 \<notin> set name \<Longrightarrow> key_equal key name = Inr (prefix name k)"
proof (induction name arbitrary: key k)
  case (Cons c cs)
  then show ?case
    by (cases k) (auto simp: str_at_rd str_at_Cons)
qed simp

definition keep_or :: "bool \<Rightarrow> (iSCSIConnectionParameter \<Rightarrow> iSCSIConnectionParameter)
    \<Rightarrow> iSCSIConnectionParameter \<Rightarrow> iSCSIConnectionParameter" where
  "keep_or b f p = (if b then f p else p)"

definition apply_pair ::
  "iSCSIConnectionParameter \<Rightarrow> byte list \<times> byte list \<Rightarrow> iSCSIConnectionParameter" where
  "apply_pair p kv =
     (let k = fst kv; v = digits_value 0 (snd kv) in
      keep_or (prefix MAX_OUTSTANDING_R2T k) (\<lambda>p. p\<lparr>max_outstanding_r2t := c_min v 10\<rparr>) (
      keep_or (prefix DEFAULT_TIME_2_RETAIN k) (\<lambda>p. p\<lparr>default_time_2_retain := c_max v 10\<rparr>) (
      keep_or (prefix DEFAULT_TIME_2_WAIT k) (\<lambda>p. p\<lparr>default_time_2_wait := c_max v 10\<rparr>) (
      keep_or (prefix DATA_SEQUENCE_IN_ORDER k) (\<lambda>p. p\<lparr>data_sequence_in_order := 1\<rparr>) (
      keep_or (prefix DATA_PDU_IN_ORDER k) (\<lambda>p. p\<lparr>data_pdu_in_order := 1\<rparr>) (
      keep_or (prefix FIRST_BURST_LENGTH k) (\<lambda>p. p\<lparr>first_burst_length := c_min v 8192\<rparr>) (
      keep_or (prefix MAX_BURST_LENGTH k) (\<lambda>p. p\<lparr>max_burst_length := c_min v 8192\<rparr>) (
      keep_or (prefix IMMEDIATE_DATA k) (\<lambda>p. p\<lparr>immediate_data := 1\<rparr>) (
      keep_or (prefix INITIAL_R2T k) (\<lambda>p. p\<lparr>initial_r2t := 1\<rparr>) (
      keep_or (prefix MAX_CONNECTIONS k) (\<lambda>p. p\<lparr>max_connections := c_min v 1\<rparr>) (
      keep_or (prefix MAX_RECEIVE_DATA_SEGMENT k)
        (\<lambda>p. p\<lparr>max_receive_data_segment_length := c_min v 1047576\<rparr>) p)))))))))))"

lemmas parameter_keys = MAX_RECEIVE_DATA_SEGMENT_def MAX_CONNECTIONS_def INITIAL_R2T_def
  IMMEDIATE_DATA_def MAX_BURST_LENGTH_def FIRST_BURST_LENGTH_def DATA_PDU_IN_ORDER_def
  DATA_SEQUENCE_IN_ORDER_def DEFAULT_TIME_2_WAIT_def DEFAULT_TIME_2_RETAIN_def
  MAX_OUTSTANDING_R2T_def

lemma keys_no_nul:
  "0 \<notin> set MAX_RECEIVE_DATA_SEGMENT" "0 \<notin> set MAX_CONNECTIONS" "0 \<notin> set INITIAL_R2T"
  "0 \<notin> set IMMEDIATE_DATA" "0 \<notin> set MAX_BURST_LENGTH" "0 \<notin> set FIRST_BURST_LENGTH"
  "0 \<notin> set DATA_PDU_IN_ORDER" "0 \<notin> set DATA_SEQUENCE_IN_ORDER" "0 \<notin> set DEFAULT_TIME_2_WAIT"
  "0 \<notin> set DEFAULT_TIME_2_RETAIN" "0 \<notin> set MAX_OUTSTANDING_R2T"
  by (simp_all add: parameter_keys cstr_def)

lemma cstr_no_nul: "0 \<notin> set (cstr ''Yes'')" "0 \<notin> set (cstr ''YES'')" "0 \<notin> set (cstr ''NO'')" "0 \<notin> set (cstr ''='')"
  by (simp_all add: cstr_def)

lemma yes_or_1: "str_at value v \<Longrightarrow> yes_or value 1 = Inr 1"
  by (simp add: yes_or_def key_equal_str [where name = "cstr ''Yes''"] cstr_no_nul del: bindR_eq_Inr)

lemma when_key_str:
  "str_at key k \<Longrightarrow> 0 \<notin> set prop \<Longrightarrow> (\<And>p. act p = Inr (f p)) \<Longrightarrow>
   when_key key prop act p = Inr (keep_or (prefix prop k) f p)"
  by (simp add: when_key_def key_equal_str keep_or_def)

lemma update_information_str:
  assumes "str_at key k" "str_at value v"
  shows "update_information p key value = Inr (apply_pair p (k, v))"
  using assms
  by (simp add: update_information_def apply_pair_def Let_def keys_no_nul string_to_int_str
      yes_or_1 when_key_str [OF assms(1)])

section \<open>The limits every parameter respects\<close>

definition negotiated :: "iSCSIConnectionParameter \<Rightarrow> bool" where
  "negotiated p \<longleftrightarrow>
     sint (max_receive_data_segment_length p) \<le> 1048576 \<and> sint (max_connections p) \<le> 1
     \<and> initial_r2t p = 1 \<and> immediate_data p = 1
     \<and> sint (max_burst_length p) \<le> 8192 \<and> sint (first_burst_length p) \<le> 8192
     \<and> data_pdu_in_order p = 1 \<and> data_sequence_in_order p = 1
     \<and> 10 \<le> sint (default_time_2_wait p) \<and> 10 \<le> sint (default_time_2_retain p)
     \<and> sint (max_outstanding_r2t p) \<le> 10"

definition keeps :: "('p \<Rightarrow> bool) \<Rightarrow> ('p \<Rightarrow> 'p result) \<Rightarrow> bool" where
  "keeps I f \<longleftrightarrow> (\<forall>p p'. I p \<longrightarrow> f p = Inr p' \<longrightarrow> I p')"

lemma keeps_bind: "keeps I f \<Longrightarrow> keeps I g \<Longrightarrow> keeps I (\<lambda>p. bindR (f p) g)"
  unfolding keeps_def bindR_eq_Inr by blast

lemma keeps_when_key: "keeps I act \<Longrightarrow> keeps I (when_key key prop act)"
  by (auto simp: keeps_def when_key_def split: if_splits)

lemma keeps_value: "(\<And>p v. m = Inr v \<Longrightarrow> I p \<Longrightarrow> I (f p v)) \<Longrightarrow> keeps I (\<lambda>p. bindR m (\<lambda>v. Inr (f p v)))"
  by (auto simp: keeps_def)

lemma yes_or_Inr: "yes_or value 1 = Inr v \<Longrightarrow> v = 1"
  by (auto simp: yes_or_def)

lemma negotiated_default: "negotiated (set_default_parameter p)"
  by (simp add: negotiated_def set_default_parameter_def)

lemma update_information_keeps: "keeps negotiated (\<lambda>p. update_information p key value)"
  unfolding update_information_def
  by (intro keeps_bind keeps_when_key keeps_value) (auto simp: negotiated_def dest: yes_or_Inr)

lemma update_information_negotiated:
  "negotiated p \<Longrightarrow> update_information p key val = Inr p' \<Longrightarrow> negotiated p'"
  using update_information_keeps [of key val] by (auto simp: keeps_def)

lemma create_loop_negotiated:
  "negotiated p \<Longrightarrow> create_loop p data key i k = Inr (p', m) \<Longrightarrow> negotiated p'"
  by (induction k arbitrary: p data key i)
    (auto simp: Let_def split: if_splits dest: update_information_negotiated)

lemma create_negotiated:
  "iscsi_connection_parameter_create p data len = Inr (p', m) \<Longrightarrow> negotiated p'"
  by (auto simp: iscsi_connection_parameter_create_def Let_def
      dest: create_loop_negotiated [OF negotiated_default])

text \<open>The text that the scan writes into is the same afterwards.\<close>

lemma create_loop_restores:
  "create_loop p data key i k = Inr (p', m) \<Longrightarrow> m = blk data"
proof (induction k arbitrary: p data key i)
  case (Suc k)
  have "blk (wr (wr data i 0) i 61) = blk data" if "rd data i = Inr 61"
    using that by (auto simp: wr_def rd_def split: if_splits)
  with Suc show ?case by (fastforce simp: Let_def split: if_splits)
qed simp

lemma create_restores:
  "iscsi_connection_parameter_create p data len = Inr (p', m) \<Longrightarrow> m = blk data"
  by (auto simp: iscsi_connection_parameter_create_def Let_def dest: create_loop_restores)

section \<open>Parsing a well-formed text\<close>

definition pair_text :: "byte list \<times> byte list \<Rightarrow> byte list" where
  "pair_text kv = fst kv @ [61] @ snd kv @ [0]"

definition pairs_text :: "(byte list \<times> byte list) list \<Rightarrow> byte list" where
  "pairs_text kvs = concat (map pair_text kvs)"

definition wf_pair :: "byte list \<times> byte list \<Rightarrow> bool" where
  "wf_pair kv \<longleftrightarrow> fst kv \<noteq> [] \<and> 0 \<notin> set (fst kv) \<and> 61 \<notin> set (fst kv)
     \<and> 0 \<notin> set (snd kv) \<and> 61 \<notin> set (snd kv)"

text \<open>\<open>at data s xs\<close>: the bytes of \<open>data\<close> from index \<open>s\<close> on are \<open>xs\<close>.\<close>

definition at :: "cptr \<Rightarrow> nat \<Rightarrow> byte list \<Rightarrow> bool" where
  "at data s xs \<longleftrightarrow> pos data + s + length xs \<le> bsz data
     \<and> (\<forall>i < length xs. blk data (pos data + s + i) = xs ! i)"

lemma at_Nil: "at data s [] \<longleftrightarrow> pos data + s \<le> bsz data"
  by (simp add: at_def)

lemma at_append: "at data s (xs @ ys) \<longleftrightarrow> at data s xs \<and> at data (s + length xs) ys"
proof
  assume "at data s (xs @ ys)"
  then have b: "pos data + s + length xs + length ys \<le> bsz data"
    and e: "\<And>i. i < length xs + length ys \<Longrightarrow> blk data (pos data + s + i) = (xs @ ys) ! i"
    by (auto simp: at_def)
  have "blk data (pos data + s + i) = xs ! i" if "i < length xs" for i
    using e [of i] that by (simp add: nth_append)
  moreover have "blk data (pos data + (s + length xs) + i) = ys ! i" if "i < length ys" for i
    using e [of "length xs + i"] that by (simp add: add.assoc)
  ultimately show "at data s xs \<and> at data (s + length xs) ys"
    using b by (simp add: at_def)
next
  assume a: "at data s xs \<and> at data (s + length xs) ys"
  have "blk data (pos data + s + i) = (xs @ ys) ! i" if "i < length xs + length ys" for i
  proof (cases "i < length xs")
    case False
    then obtain j where "i = length xs + j" by (metis le_Suc_ex not_less)
    with a that show ?thesis by (simp add: at_def add.assoc)
  qed (use a in \<open>simp add: at_def nth_append\<close>)
  with a show "at data s (xs @ ys)" by (simp add: at_def)
qed

lemma at_Cons: "at data s (x # xs) \<longleftrightarrow>
    pos data + s < bsz data \<and> blk data (pos data + s) = x \<and> at data (Suc s) xs"
  by (auto simp: at_def All_less_Suc2)

lemma at_rd: "at data s xs \<Longrightarrow> i < length xs \<Longrightarrow> rd data (s + i) = Inr (xs ! i)"
  by (simp add: at_def rd_def add.assoc)

lemma at_str: "at data s (xs @ [0]) \<Longrightarrow> 0 \<notin> set xs \<Longrightarrow> str_at (padd data s) xs"
  by (auto simp: str_at_def at_def nth_append)

lemma at_wr: "i < s \<Longrightarrow> at (wr data i v) s xs \<longleftrightarrow> at data s xs"
  by (simp add: at_def wr_def)

lemma at_wr_last: "at data s (xs @ [x]) \<Longrightarrow> at (wr data (s + length xs) v) s (xs @ [v])"
  by (auto simp: at_def wr_def nth_append split: if_splits)

declare create_loop.simps(2) [simp del]

lemma create_loop_skip:
  "(\<And>x. i \<le> x \<Longrightarrow> x < i + j \<Longrightarrow> pos data + x < bsz data \<and> blk data (pos data + x) \<noteq> 61
      \<and> blk data (pos data + (x - 1)) \<noteq> 0)
   \<Longrightarrow> create_loop p data key i (j + k) = create_loop p data key (i + j) k"
proof (induction j arbitrary: i)
  case (Suc j)
  have "create_loop p data key i (Suc (j + k)) = create_loop p data key (Suc i) (j + k)"
    using Suc.prems [of i] by (auto simp: rd_def create_loop.simps(2))
  also have "\<dots> = create_loop p data key (Suc i + j) k"
  proof (rule Suc.IH)
    fix x assume "Suc i \<le> x" "x < Suc i + j"
    then show "pos data + x < bsz data \<and> blk data (pos data + x) \<noteq> 61 \<and> blk data (pos data + (x - 1)) \<noteq> 0"
      by (intro Suc.prems) auto
  qed
  finally show ?case by simp
qed simp

lemma create_loop_pair:
  assumes a: "at data s (pair_text (k, v))" and wf: "wf_pair (k, v)"
  shows "create_loop p data s (s + 1) (length k + length v + 1 + r)
       = create_loop (apply_pair p (k, v)) data s (s + length k + length v + 2) r"
proof -
  define e where "e = s + length k"
  have k: "k \<noteq> []" "0 \<notin> set k" "61 \<notin> set k" and v: "0 \<notin> set v" "61 \<notin> set v"
    using wf by (auto simp: wf_pair_def)
  have ak: "at data s k" and ae: "pos data + e < bsz data" "blk data (pos data + e) = 61"
    and av: "at data (e + 1) (v @ [0])"
    using a by (simp_all add: pair_text_def at_append at_Cons e_def)
  have in_k: "pos data + x < bsz data \<and> blk data (pos data + x) = k ! (x - s)" if "s \<le> x" "x < e" for x
    using ak that by (auto simp: at_def e_def dest!: spec [of _ "x - s"])
  have in_v: "pos data + x < bsz data \<and> blk data (pos data + x) = (v @ [0]) ! (x - (e + 1))"
    if "e < x" "x \<le> e + 1 + length v" for x
    using av that by (auto simp: at_def dest!: spec [of _ "x - (e + 1)"])
  have kn: "k ! i \<noteq> 0 \<and> k ! i \<noteq> 61" if "i < length k" for i
    using k that by (metis nth_mem)
  have vn: "v ! i \<noteq> 0 \<and> v ! i \<noteq> 61" if "i < length v" for i
    using v that by (metis nth_mem)
  have "create_loop p data s (s + 1) ((length k - 1) + (length v + 2 + r))
      = create_loop p data s (s + 1 + (length k - 1)) (length v + 2 + r)"
  proof (rule create_loop_skip)
    fix x assume "s + 1 \<le> x" "x < s + 1 + (length k - 1)"
    then have x: "s \<le> x - 1" "x - 1 < e" "s \<le> x" "x < e"
      using k(1) by (auto simp: e_def)
    show "pos data + x < bsz data \<and> blk data (pos data + x) \<noteq> 61 \<and> blk data (pos data + (x - 1)) \<noteq> 0"
      using in_k [of x] in_k [of "x - 1"] x kn [of "x - s"] kn [of "x - 1 - s"] by (simp add: e_def)
  qed
  moreover have "length k + length v + 1 + r = (length k - 1) + (length v + 2 + r)"
    "s + 1 + (length k - 1) = e" "length v + 2 + r = Suc (length v + 1 + r)"
    using k(1) by (cases k; simp add: e_def)+
  ultimately have 1: "create_loop p data s (s + 1) (length k + length v + 1 + r)
      = create_loop p data s e (Suc (length v + 1 + r))" by (simp only:)
  have "e - 1 = s + (length k - 1)" using k(1) by (cases k) (auto simp: e_def)
  then have prev: "rd data (e - 1) = Inr (k ! (length k - 1))" "k ! (length k - 1) \<noteq> 0"
    using at_rd [OF ak, of "length k - 1"] kn [of "length k - 1"] k(1) by simp_all
  have key: "str_at (padd (wr data e 0) s) k"
    using at_wr_last [of data s k 61 0] ak ae k(2) by (intro at_str) (simp_all add: e_def at_append at_Cons at_Nil)
  have val: "str_at (padd (wr data e 0) (e + 1)) v"
    using av v(1) by (intro at_str) (simp_all add: at_wr)
  have restored: "wr (wr data e 0) e 61 = data"
    using ae(2) by (simp add: wr_def fun_upd_idem)
  have 2: "create_loop p data s e (Suc (length v + 1 + r))
      = create_loop (apply_pair p (k, v)) data s (e + 1) (length v + 1 + r)"
    using prev ae update_information_str [OF key val, of p]
    by (simp add: create_loop.simps(2) rd_def [of data e] restored)
  have 3: "create_loop (apply_pair p (k, v)) data s (e + 1) ((length v + 1) + r)
      = create_loop (apply_pair p (k, v)) data s (e + 1 + (length v + 1)) r"
  proof (rule create_loop_skip)
    fix x assume x: "e + 1 \<le> x" "x < e + 1 + (length v + 1)"
    have "blk data (pos data + (x - 1)) \<noteq> 0"
    proof (cases "x = e + 1")
      case False
      then show ?thesis using in_v [of "x - 1"] x vn [of "x - 1 - (e + 1)"] by (auto simp: nth_append)
    qed (simp add: ae)
    moreover have "(v @ [0]) ! (x - (e + 1)) \<noteq> 61"
      using x vn [of "x - (e + 1)"] by (auto simp: nth_append nth_Cons' split: if_splits)
    ultimately show "pos data + x < bsz data \<and> blk data (pos data + x) \<noteq> 61 \<and> blk data (pos data + (x - 1)) \<noteq> 0"
      using in_v [of x] x by simp
  qed
  have idx: "e + 1 + (length v + 1) = s + length k + length v + 2" by (simp add: e_def)
  show ?thesis unfolding 1 2 3 idx ..
qed

lemma create_loop_pairs:
  "at data s (pairs_text kvs) \<Longrightarrow> list_all wf_pair kvs \<Longrightarrow> 0 < s \<Longrightarrow> rd data (s - 1) = Inr 0 \<Longrightarrow>
   create_loop p data key s (length (pairs_text kvs)) = Inr (foldl apply_pair p kvs, blk data)"
proof (induction kvs arbitrary: s p key)
  case Nil
  then show ?case by (simp add: pairs_text_def)
next
  case (Cons kv kvs)
  obtain k v where kv: "kv = (k, v)" by (cases kv)
  define n where "n = length (pairs_text kvs)"
  have wf: "wf_pair (k, v)" and k: "k \<noteq> []" "61 \<notin> set k" using Cons.prems kv by (auto simp: wf_pair_def)
  have a: "at data s (pair_text (k, v))" "at data (s + length k + length v + 2) (pairs_text kvs)"
    using Cons.prems(1) by (simp_all add: kv pairs_text_def at_append at_Cons pair_text_def add.assoc at_Nil) (auto simp: at_def)?
  have first: "rd data s = Inr (k ! 0)" "k ! 0 \<noteq> 61"
    using at_rd [OF a(1), of 0] k by (auto simp: pair_text_def nth_append in_set_conv_nth)
  have nul: "rd data (s + length k + length v + 2 - 1) = Inr 0"
    using at_rd [OF a(1), of "length k + length v + 1"] by (simp add: pair_text_def nth_append add.assoc)
  have "length (pairs_text (kv # kvs)) = Suc (length k + length v + 1 + n)"
    by (simp add: kv pairs_text_def pair_text_def n_def)
  then have "create_loop p data key s (length (pairs_text (kv # kvs)))
      = create_loop p data s (s + 1) (length k + length v + 1 + n)"
    using Cons.prems(4) first by (simp add: create_loop.simps(2))
  also have "\<dots> = create_loop (apply_pair p (k, v)) data s (s + length k + length v + 2) n"
    by (rule create_loop_pair [OF a(1) wf])
  also have "\<dots> = Inr (foldl apply_pair (apply_pair p (k, v)) kvs, blk data)"
    unfolding n_def using Cons.prems by (intro Cons.IH a(2) nul) auto
  finally show ?case by (simp add: kv)
qed

lemma create_text:
  assumes a: "at data 0 (pairs_text kvs)" and wf: "list_all wf_pair kvs"
    and l: "length (pairs_text kvs) \<le> 1048576" "sint len = int (length (pairs_text kvs))"
  shows "iscsi_connection_parameter_create p data len =
    Inr (foldl apply_pair (set_default_parameter (p\<lparr>
           pbuffer := blit (pbuffer p) 0 (\<lambda>i. blk data (pos data + i)) (length (pairs_text kvs)),
           plength := len\<rparr>)) kvs, blk data)"
proof -
  define q where "q = set_default_parameter (p\<lparr>
      pbuffer := blit (pbuffer p) 0 (\<lambda>i. blk data (pos data + i)) (length (pairs_text kvs)), plength := len\<rparr>)"
  have loop: "create_loop q data 0 1 (length (pairs_text kvs) - 1) = Inr (foldl apply_pair q kvs, blk data)"
  proof (cases kvs)
    case Nil
    then show ?thesis by (simp add: pairs_text_def)
  next
    case (Cons kv rest)
    obtain k v where kv: "kv = (k, v)" by (cases kv)
    have b: "at data 0 (pair_text (k, v))" "at data (length k + length v + 2) (pairs_text rest)"
      using a by (simp_all add: Cons kv pairs_text_def at_append at_Cons pair_text_def add.assoc at_Nil) (auto simp: at_def)?
    have nul: "rd data (length k + length v + 2 - 1) = Inr 0"
      using at_rd [OF b(1), of "length k + length v + 1"] by (simp add: pair_text_def nth_append)
    have "create_loop q data 0 1 (length k + length v + 1 + length (pairs_text rest))
      = create_loop (apply_pair q (k, v)) data 0 (length k + length v + 2) (length (pairs_text rest))"
      using create_loop_pair [OF b(1)] wf by (simp add: Cons kv)
    also have "\<dots> = Inr (foldl apply_pair (apply_pair q (k, v)) rest, blk data)"
      using wf nul b(2) by (intro create_loop_pairs) (auto simp: Cons)
    finally show ?thesis by (simp add: Cons kv pairs_text_def pair_text_def add.assoc)
  qed
  have "c_memcpy (pbuffer p) 1048576 0 data (sint len)
      = Inr (blit (pbuffer p) 0 (\<lambda>i. blk data (pos data + i)) (length (pairs_text kvs)))"
    using a l by (subst c_memcpy_ok) (auto simp: at_def)
  then show ?thesis
    using loop l by (simp add: iscsi_connection_parameter_create_def q_def nat_diff_distrib')
qed

end
