(* ===== verification/Iscsi_Invariant.thy ===== *)
theory Iscsi_Invariant
  imports Iscsi_Commands Iscsi_Negotiation
begin

text \<open>
  What every handler keeps, whatever the PDU is: the semaphore of the response buffer is free and its
  length in bounds, the receive buffer is untouched, the session of the connection has its target,
  and the parameters are in their limits. The dispatcher and \<open>incoming_request\<close> keep the whole.
\<close>

section \<open>Handlers that only respond\<close>

lemma bindR_InrE: "bindR m f = Inr y \<Longrightarrow> (\<And>x. m = Inr x \<Longrightarrow> f x = Inr y \<Longrightarrow> P) \<Longrightarrow> P"
  by (cases m) auto

text \<open>
  A NOP-Out with more data than the limit of the connection: \<open>iscsi_request_nop_out_process\<close> calls
  \<open>iscsi_pdu_pad0\<close> with a negative length, which clears bytes before its answer.
\<close>

definition cut_ping :: "iSCSIConnection \<Rightarrow> bool" where
  "cut_ping c \<longleftrightarrow> iscsi_pdu_opcode (request_of c) 0 = opcode_value NOP_OUT
     \<and> sint (max_receive_data_segment_length (conn_parameter c)) < sint (iscsi_pdu_data_segment_length (request_of c) 0)"

lemma not_nop_cut [simp]: "iscsi_pdu_opcode (request_of c) 0 \<noteq> opcode_value NOP_OUT \<Longrightarrow> \<not> cut_ping c"
  by (simp add: cut_ping_def)

definition kept :: "iSCSIConnection \<Rightarrow> iSCSIConnection \<Rightarrow> bool" where
  "kept c c' \<longleftrightarrow> buffer_ok (response_buffer c') \<and> fill (response_buffer c) \<le> fill (response_buffer c')
     \<and> receive_buffer c' = receive_buffer c \<and> session_reference c' = session_reference c
     \<and> conn_parameter c' = conn_parameter c
     \<and> (\<not> cut_ping c \<longrightarrow> prefix (contents (response_buffer c)) (contents (response_buffer c')))"

lemma kept_refl: "buffer_ok (response_buffer c) \<Longrightarrow> kept c c"
  by (simp add: kept_def)

lemma cut_ping_same:
  "receive_buffer c' = receive_buffer c \<Longrightarrow> conn_parameter c' = conn_parameter c \<Longrightarrow> cut_ping c' = cut_ping c"
  by (simp add: cut_ping_def request_of_def)

lemma kept_trans: "kept a b \<Longrightarrow> kept b c \<Longrightarrow> kept a c"
  using cut_ping_same [of b a] by (auto simp: kept_def)

text \<open>What is written at a position and after it leaves the bytes before it alone.\<close>

definition below :: "nat \<Rightarrow> mem \<Rightarrow> mem \<Rightarrow> bool" where
  "below p m m' \<longleftrightarrow> (\<forall>i < p. m' i = m i)"

lemma below_refl: "below p m m"
  by (simp add: below_def)

lemma below_stores:
  assumes "below p m0 m"
  shows "below p m0 (iscsi_byte_int2byte m (p + k) v)" "below p m0 (iscsi_byte_short2byte m (p + k) v)"
    "below p m0 (iscsi_pdu_set_opcode m p opc)" "below p m0 (iscsi_pdu_set_final m p v)"
    "below p m0 (iscsi_pdu_set_bit m p k v)" "below p m0 (iscsi_pdu_set_ahs_length m p v)"
    "below p m0 (iscsi_pdu_set_data_segment_length m p v)" "below p m0 (iscsi_pdu_set_initiator_task_tag m p v)"
    "below p m0 (iscsi_pdu_set_target_transfer_tag m p v)" "below p m0 (iscsi_pdu_generate_from_buffer m p r k)"
    "below p m0 (iscsi_pdu_request_reject_set_reason m p reason)"
    "below p m0 (iscsi_pdu_request_logout_set_response m p code)"
    "below p m0 (iscsi_pdu_request_logout_set_time2wait m p v)"
    "below p m0 (iscsi_pdu_request_logout_set_time2retain m p v)"
    "below p m0 (iscsi_pdu_r2t_set_r2t_sn m p v)" "below p m0 (iscsi_pdu_r2t_set_buffer_offset m p v)"
    "below p m0 (iscsi_pdu_r2t_set_desired_data_transfer_length m p v)"
    "below p m0 (iscsi_request_data_in_set_status m p sb)" "below p m0 (iscsi_request_data_in_set_acknowledge m p v)"
    "below p m0 (iscsi_request_data_in_set_data_sn m p v)" "below p m0 (iscsi_request_data_in_set_buffer_offset m p v)"
    "below p m0 (iscsi_request_cmd_set_response m p v)" "below p m0 (iscsi_request_cmd_set_status m p v)"
    "below p m0 (iscsi_pdu_login_set_TSIH m p v)" "below p m0 (iscsi_pdu_login_set_response_status m p st)"
  using assms
  by (simp_all add: below_def int2byte_apply short2byte_apply iscsi_byte_bit2byte_def blit_out
      iscsi_pdu_set_opcode_def iscsi_pdu_set_final_def iscsi_pdu_set_bit_def iscsi_pdu_set_ahs_length_def
      iscsi_pdu_set_data_segment_length_def iscsi_pdu_set_initiator_task_tag_def
      iscsi_pdu_set_target_transfer_tag_def iscsi_pdu_generate_from_buffer_def
      iscsi_pdu_request_reject_set_reason_def iscsi_pdu_request_logout_set_response_def
      iscsi_pdu_request_logout_set_time2wait_def iscsi_pdu_request_logout_set_time2retain_def
      iscsi_pdu_r2t_set_r2t_sn_def iscsi_pdu_r2t_set_buffer_offset_def
      iscsi_pdu_r2t_set_desired_data_transfer_length_def iscsi_request_data_in_set_status_def
      iscsi_request_data_in_set_acknowledge_def iscsi_request_data_in_set_data_sn_def
      iscsi_request_data_in_set_buffer_offset_def iscsi_request_cmd_set_response_def
      iscsi_request_cmd_set_status_def iscsi_pdu_login_set_TSIH_def iscsi_pdu_login_set_response_status_def)

lemma below_memcpy:
  "c_memcpy m sz (int p + k) src n = Inr m' \<Longrightarrow> 0 \<le> k \<Longrightarrow> below p m0 m \<Longrightarrow> below p m0 m'"
  by (auto simp: c_memcpy_def below_def blit_def split: if_splits)

lemma below_data_segment:
  "iscsi_pdu_set_data_segment m p d len = Inr m' \<Longrightarrow> below p m0 m \<Longrightarrow> below p m0 m'"
  unfolding iscsi_pdu_set_data_segment_def by (erule below_memcpy) (simp_all add: below_stores)

lemma below_sense:
  "iscsi_request_cmd_set_sense_buffer m p sense len = Inr m' \<Longrightarrow> below p m0 m \<Longrightarrow> below p m0 m'"
  using below_memcpy [of _ ISCSI_BUFFER_SIZE p 50 _ "sint len" m' m0]
  by (auto simp: iscsi_request_cmd_set_sense_buffer_def Let_def below_stores split: option.splits if_splits)

lemma below_pad:
  "iscsi_pdu_pad0 m p n = Inr m' \<Longrightarrow> 0 \<le> sint n \<Longrightarrow> below p m0 m \<Longrightarrow> below p m0 m'"
  by (auto simp: iscsi_pdu_pad0_def Let_def c_memset_def below_def blit_def split: if_splits)

text \<open>A data segment that was copied has a length, so that its padding comes after the header.\<close>

lemma copied_length:
  fixes len :: cint
  assumes "c_memcpy m ISCSI_BUFFER_SIZE (int p + 48) src (sint len) = Inr m'"
  shows "0 \<le> sint (48 + len)"
proof -
  have "0 \<le> sint len" "sint len \<le> 4194304" using assms by (auto simp: c_memcpy_def split: if_splits)
  then have "sint (48 + len) = sint (48 :: cint) + sint len" by (intro sint_plus) simp_all
  then show ?thesis using \<open>0 \<le> sint len\<close> by simp
qed

lemma below_padded_data:
  assumes "iscsi_pdu_set_data_segment m p d len = Inr m1" "iscsi_pdu_pad0 m1 p (48 + len) = Inr m2" "below p m0 m"
  shows "below p m0 m2"
  using assms(1) below_pad [OF assms(2) copied_length] below_data_segment [OF assms(1,3)]
  unfolding iscsi_pdu_set_data_segment_def by blast

lemma below_padded_text:
  assumes "iscsi_pdu_pad0 m p (48 + len) = Inr m1" "c_memcpy m1 ISCSI_BUFFER_SIZE (int p + 48) src (sint len) = Inr m2"
    "below p m0 m"
  shows "below p m0 m2"
  by (rule below_memcpy [OF assms(2) _ below_pad [OF assms(1) copied_length [OF assms(2)] assms(3)]]) simp

lemma below_padded_copy:
  assumes "c_memcpy m ISCSI_BUFFER_SIZE (int p + 48) src (sint len) = Inr m1" "iscsi_pdu_pad0 m1 p (48 + len) = Inr m2"
    "below p m0 m"
  shows "below p m0 m2"
  by (rule below_pad [OF assms(2) copied_length [OF assms(1)] below_memcpy [OF assms(1) _ assms(3)]]) simp

text \<open>The answer at the position \<open>p\<close> of the array \<open>m\<close>, as every handler leaves it.\<close>

definition answered :: "iSCSIConnection \<Rightarrow> nat \<Rightarrow> mem \<Rightarrow> iSCSIConnection \<Rightarrow> cint \<Rightarrow> iSCSIConnection \<Rightarrow> bool" where
  "answered c p m c1 len c' \<longleftrightarrow> (\<exists>m' s. c' = response_release (c1\<lparr>stat_sn := s\<rparr>) m' len
     \<and> (\<not> cut_ping c \<longrightarrow> below p m m'))"

lemma answered_sn:
  "(\<not> cut_ping c \<Longrightarrow> below p m m') \<Longrightarrow> answered c p m c1 len (response_release (c1\<lparr>stat_sn := s\<rparr>) m' len)"
  by (auto simp: answered_def)

lemma answered_same:
  assumes "\<not> cut_ping c \<Longrightarrow> below p m m'"
  shows "answered c p m c1 len (response_release c1 m' len)"
  using answered_sn [OF assms, where s = "stat_sn c1" and ?c1.0 = c1 and len = len] by simp

lemmas answeredI = answered_sn answered_same below_refl below_stores
lemmas below_results = below_padded_data below_padded_text [simplified] below_padded_copy [simplified] below_pad below_data_segment below_sense

lemma acquire_success:
  assumes "response_acquire c len = Inr (p, m, c1)" "buffer_ok (response_buffer c)"
  obtains n where "sint len = int n" "room (response_buffer c) n"
    "c1 = c\<lparr>response_buffer := (response_buffer c)\<lparr>block := 0, bdata := m\<rparr>\<rparr>"
    "p = fill (response_buffer c)" "below p (bdata (response_buffer c)) m"
proof -
  let ?b = "response_buffer c"
  have l: "sint len \<le> 4194304"
    using assms(1) by (rule contrapos_pp) (simp add: response_acquire_def acquire_too_long)
  have f: "int (fill ?b) + sint len \<le> 4194304"
  proof (rule ccontr)
    assume "\<not> int (fill ?b) + sint len \<le> 4194304"
    then have "iscsi_buffer_acquire_lock_for_length ?b len = Inl Blocked"
      using assms(2) l by (intro acquire_blocked) simp_all
    with assms(1) show False by (simp add: response_acquire_def)
  qed
  have n: "0 \<le> sint len"
  proof (rule ccontr)
    assume neg: "\<not> 0 \<le> sint len"
    have "sint (iscsi_buffer_free_space (?b\<lparr>block := 0\<rparr>)) = 4194304 - int (fill ?b)"
      using sint_free_space [OF assms(2)] by (simp add: iscsi_buffer_free_space_def)
    then have "iscsi_buffer_acquire_lock_for_length ?b len = Inl OutOfBounds"
      using neg f assms(2) by (simp add: iscsi_buffer_acquire_lock_for_length_def
          iscsi_buffer_acquire_lock_def buffer_ok_def c_memset_def)
    with assms(1) show False by (simp add: response_acquire_def)
  qed
  then have s: "sint len = int (nat (sint len))" by simp
  have r: "room ?b (nat (sint len))" using assms(2) f n by (simp add: room_def)
  show thesis
    using assms(1) acquire_ok [OF r s]
    by (intro that [OF s r]) (auto simp: response_acquire_def below_def blit_out split: if_splits)
qed

lemma respond_kept:
  assumes "bindR (response_acquire c len) f = Inr y" "buffer_ok (response_buffer c)"
    and "\<And>p m c1. f (p, m, c1) = Inr y \<Longrightarrow> answered c p m c1 len c'"
  shows "kept c c'"
proof -
  from assms(1) obtain p m c1 where a: "response_acquire c len = Inr (p, m, c1)" "f (p, m, c1) = Inr y"
    by auto
  obtain n where n: "sint len = int n" "room (response_buffer c) n"
    "c1 = c\<lparr>response_buffer := (response_buffer c)\<lparr>block := 0, bdata := m\<rparr>\<rparr>"
    "p = fill (response_buffer c)" "below p (bdata (response_buffer c)) m"
    using acquire_success [OF a(1) assms(2)] by blast
  obtain m' s where c': "c' = response_release (c1\<lparr>stat_sn := s\<rparr>) m' len" "\<not> cut_ping c \<longrightarrow> below p m m'"
    using assms(3) [OF a(2)] by (auto simp: answered_def)
  let ?b = "(response_buffer c)\<lparr>block := 0, bdata := m'\<rparr>"
  have f: "fill ?b = fill (response_buffer c)" by (simp add: fill_def)
  have "block ?b = 0" "0 \<le> sint (blength ?b)" "fill ?b + n \<le> 4194304"
    using n(2) f by (simp_all add: room_def buffer_ok_def)
  note r = release_ok [OF this n(1)]
  have "contents ?b = contents (response_buffer c)" if "\<not> cut_ping c"
    using that c'(2) n(4,5) unfolding contents_def f by (intro bytes_of_cong) (simp add: below_def)
  then have "\<not> cut_ping c \<longrightarrow> prefix (contents (response_buffer c)) (contents (iscsi_buffer_release_lock ?b len))"
    unfolding r(3) by simp
  with r(1,2) f show ?thesis by (simp add: kept_def c'(1) n(3) response_release_def)
qed

lemma reject_kept:
  "iscsi_request_reject c reason d len = Inr (v, c') \<Longrightarrow> buffer_ok (response_buffer c) \<Longrightarrow> kept c c'"
  unfolding iscsi_request_reject_def Let_def
  by (erule respond_kept) (auto simp: iscsi_pdu_set_response_header_def iscsi_connection_advance_stat_sn_def
    intro!: answeredI intro: below_results split: option.splits if_splits)

lemma logout_kept:
  "iscsi_request_logout_process c = Inr (v, c') \<Longrightarrow> buffer_ok (response_buffer c) \<Longrightarrow> kept c c'"
  unfolding iscsi_request_logout_process_def
  apply (split if_splits)
   apply (erule reject_kept; assumption)
  apply (erule respond_kept)
   apply (auto simp: iscsi_pdu_set_response_header_def iscsi_connection_advance_stat_sn_def intro!: answeredI)
  done

lemma nop_kept:
  assumes "iscsi_request_nop_out_process c = Inr (v, c')" "buffer_ok (response_buffer c)"
    and op: "iscsi_pdu_opcode (request_of c) 0 = opcode_value NOP_OUT"
  shows "kept c c'"
proof -
  let ?mr = "max_receive_data_segment_length (conn_parameter c)" and ?d = "iscsi_pdu_data_segment_length (request_of c) 0"
  have "c_min ?mr ?d - ?d = 0" if "\<not> cut_ping c" using that op by (simp add: cut_ping_def c_min_def)
  then have pad: "below p m0 m2" if "iscsi_pdu_pad0 m1 p (c_min ?mr ?d - ?d) = Inr m2" "\<not> cut_ping c" "below p m0 m1"
    for p m0 m1 m2
    using below_pad [OF that(1) _ that(3)] that(2) by simp
  show ?thesis
    using assms(1,2) unfolding iscsi_request_nop_out_process_def Let_def
    by (elim respond_kept) (auto simp: iscsi_pdu_set_response_header_def iscsi_connection_advance_stat_sn_def
        intro!: answeredI intro: pad below_data_segment)
qed

lemma text_kept:
  assumes "iscsi_request_text_process s c = Inr (v, c')" "buffer_ok (response_buffer c)"
  shows "kept c c'"
proof (cases "iscsi_pdu_text_continue (request_of c) 0 = 0")
  case False
  with assms(1) show ?thesis
    unfolding iscsi_request_text_process_def Let_def
    by (simp only: if_True if_False not_False_eq_True)
      (erule respond_kept, rule assms(2), auto intro!: answeredI intro: below_results below_memcpy below_pad)
next
  case True
  then obtain found where f: "iscsi_parameter_get (iscsi_pdu_data c)
      (iscsi_pdu_data_segment_length (request_of c) 0) (lit (cstr ''SendTargets'')) = Inr found"
    using assms(1) by (auto simp: iscsi_request_text_process_def Let_def)
  show ?thesis
  proof (cases "found = None")
    case True
    with f \<open>iscsi_pdu_text_continue _ _ = 0\<close> assms show ?thesis
      by (auto simp: iscsi_request_text_process_def Let_def kept_refl split: if_splits)
  next
    case False
    with f \<open>iscsi_pdu_text_continue _ _ = 0\<close> assms(1) show ?thesis
      unfolding iscsi_request_text_process_def Let_def
      by (simp only: simp_thms if_True if_False bindR.simps)
        (erule respond_kept, rule assms(2), auto intro!: answeredI intro: below_results below_memcpy below_pad)
  qed
qed

lemma r2t_kept:
  "iscsi_request_r2t_send c a b d e f = Inr c' \<Longrightarrow> buffer_ok (response_buffer c) \<Longrightarrow> kept c c'"
  unfolding iscsi_request_r2t_send_def Let_def
  by (erule respond_kept) (auto simp: iscsi_pdu_set_response_header_def iscsi_connection_advance_stat_sn_def
    intro!: answeredI intro: below_results split: option.splits if_splits)

lemma data_in_pdu_kept:
  "data_in_pdu c a b d e f g = Inr c' \<Longrightarrow> buffer_ok (response_buffer c) \<Longrightarrow> kept c c'"
  unfolding data_in_pdu_def Let_def
  by (erule respond_kept) (auto simp: iscsi_pdu_set_response_header_def iscsi_connection_advance_stat_sn_def
    intro!: answeredI intro: below_results split: option.splits if_splits)

lemma data_in_loop_kept:
  "data_in_loop fuel c a b d e i off = Inr c' \<Longrightarrow> buffer_ok (response_buffer c) \<Longrightarrow> kept c c'"
proof (induction fuel arbitrary: c i off)
  case 0
  then show ?case by (subst (asm) data_in_loop.simps) (auto simp: kept_refl split: if_splits)
next
  case (Suc fuel)
  show ?case
  proof (cases "i = 0 \<or> sint off < sint b")
    case True
    with Suc.prems(1) obtain c1 where c1: "data_in_pdu c a b d e i off = Inr c1"
      "data_in_loop fuel c1 a b d e (i + 1) (off + c_min (b - off) d) = Inr c'"
      by (subst (asm) data_in_loop.simps) auto
    have "kept c c1" using data_in_pdu_kept [OF c1(1) Suc.prems(2)] .
    moreover have "kept c1 c'"
      using Suc.IH [OF c1(2)] \<open>kept c c1\<close> by (simp add: kept_def)
    ultimately show ?thesis by (rule kept_trans)
  next
    case False
    with Suc.prems show ?thesis by (subst (asm) data_in_loop.simps) (simp add: kept_refl)
  qed
qed

lemma data_in_send_kept:
  "iscsi_request_data_in_send c tag e t = Inr c' \<Longrightarrow> buffer_ok (response_buffer c) \<Longrightarrow> kept c c'"
  by (auto simp: iscsi_request_data_in_send_def Let_def intro: data_in_loop_kept)

lemma r2t_loop_kept:
  "r2t_loop k c a b d e i off = Inr c' \<Longrightarrow> buffer_ok (response_buffer c) \<Longrightarrow> kept c c'"
proof (induction k arbitrary: c i off)
  case (Suc k)
  then obtain c1 where c1: "iscsi_request_r2t_send c a b i off (c_min d (e - off)) = Inr c1"
    "r2t_loop k c1 a b d e (i + 1) (off + d) = Inr c'"
    by auto
  have "kept c c1" using r2t_kept [OF c1(1) Suc.prems(2)] .
  moreover have "kept c1 c'"
    using Suc.IH [OF c1(2)] \<open>kept c c1\<close> by (simp add: kept_def)
  ultimately show ?case by (rule kept_trans)
qed (simp add: kept_refl)

lemma send_response_kept:
  assumes "iscsi_request_cmd_send_response w = Inr w'" "buffer_ok (response_buffer (connection w))"
  shows "kept (connection w) (connection w') \<and> device w' = device w
    \<and> default_session w' = default_session w \<and> default_target w' = default_target w"
proof -
  obtain c where c: "scsi_send (connection w) w = Inr c" "w' = w\<lparr>connection := c\<rparr>"
    using assms(1) by (auto simp: send_response_world)
  from c(1) obtain t where t: "the_target w = Inr t"
    by (auto simp: scsi_send_def iscsi_request_cmd_send_response_def map_sum_bindR)
  have w: "w\<lparr>connection := connection w\<rparr> = w" by simp
  have "kept (connection w) c"
    using c(1) unfolding scsi_send_def iscsi_request_cmd_send_response_def Let_def map_sum_bindR w t bindR.simps
    by (rule respond_kept)
      (use assms(2) in \<open>auto simp: map_sum_bindR iscsi_pdu_set_response_header_def
          iscsi_connection_advance_stat_sn_def intro!: answeredI intro: below_results\<close>)
  with c(2) show ?thesis by simp
qed

section \<open>SCSI requests\<close>

text \<open>Besides the connection, what a SCSI request keeps of the session, and how it drives the device.\<close>

definition driven :: "'d os \<Rightarrow> 'd \<Rightarrow> 'd \<Rightarrow> bool" where
  "driven os d d' \<longleftrightarrow> (\<exists>cdb buf sense. d' = reply_device (os_ioctl os d sg_request cdb buf sense))"

text \<open>A Data-Out sends a further R2T only when the entry has one left.\<close>

definition no_r2t_left :: "iSCSITransferEntry \<Rightarrow> bool" where
  "no_r2t_left e \<longleftrightarrow> sint (total_r2t_sn e) \<le> sint (r2t_sn e)"

lemma no_r2t_left_data [simp]: "no_r2t_left (e\<lparr>entry_data := m\<rparr>) = no_r2t_left e"
  by (simp add: no_r2t_left_def)

lemma no_r2t_left_create:
  "iscsi_transfer_entry_create e cdb n mx tag = Inr e' \<Longrightarrow> no_r2t_left e' = no_r2t_left e"
  by (auto simp: iscsi_transfer_entry_create_def no_r2t_left_def)

definition steady :: "'d world \<Rightarrow> 'd world \<Rightarrow> bool" where
  "steady w w' \<longleftrightarrow> kept (connection w) (connection w')
     \<and> session_target (default_session w') = session_target (default_session w)
     \<and> num_connections (default_session w') = num_connections (default_session w)
     \<and> session_max_connections (default_session w') = session_max_connections (default_session w)
     \<and> is_full_feature_phase (default_session w') = is_full_feature_phase (default_session w)
     \<and> is_discovery (default_session w') = is_discovery (default_session w)
     \<and> command_numbering_start (default_session w') = command_numbering_start (default_session w)
     \<and> ExpCmdSN (default_session w') = ExpCmdSN (default_session w)
     \<and> (no_r2t_left (transfer_entry (default_session w))
         \<longrightarrow> no_r2t_left (transfer_entry (default_session w')))"

lemma driven_ioctl: "driven os d (reply_device (os_ioctl os d sg_request cdb buf sense))"
  by (auto simp: driven_def)

lemma execute_command_parts:
  assumes "iscsi_session_execute_command os w cdb = Inr w'"
  shows "connection w' = connection w \<and> default_session w' = default_session w
    \<and> driven os (device w) (device w')"
proof -
  from assms obtain t where "the_target w = Inr t" by (auto simp: iscsi_session_execute_command_def)
  with assms show ?thesis
    by (auto simp: iscsi_session_execute_command_def iscsi_target_execute_scsi_command_def driven_ioctl Let_def)
qed

lemma the_session_parts: "the_session w = Inr s \<Longrightarrow> s = default_session w"
  by (auto simp: the_session_def split: session_ptr.splits)

lemma execute_transfer_parts:
  assumes "iscsi_session_execute_transfer_entry os w e = Inr w'"
  shows "connection w' = connection w \<and> default_session w' = default_session w
    \<and> driven os (device w) (device w')"
  using assms by (auto simp: iscsi_session_execute_transfer_entry_def dest!: execute_command_parts)

lemma cmd_steady:
  assumes "iscsi_request_cmd_process os w = Inr (v, w')" "buffer_ok (response_buffer (connection w))"
  shows "steady w w' \<and> (device w' = device w \<or> driven os (device w) (device w'))"
proof -
  let ?c = "iscsi_connection_advance_expected_cmd_sn (connection w)"
  have c: "kept (connection w) ?c" using assms(2) by (simp add: kept_def)
  then have b: "buffer_ok (response_buffer ?c)" by (simp add: kept_def)
  obtain s where s: "the_session w = Inr s" "s = default_session w"
    using assms(1) the_session_parts by (auto simp: iscsi_request_cmd_process_def Let_def)
  show ?thesis
  proof (cases "iscsi_request_cmd_write (request_of ?c) 0 \<noteq> 0 \<and> sint (iscsi_pdu_data_segment_length (request_of ?c) 0)
      < sint (iscsi_request_cmd_exp_data_transfer (request_of ?c) 0)")
    case True
    with assms(1) s show ?thesis
      unfolding iscsi_request_cmd_process_def Let_def
      by (auto simp: iscsi_session_next_transfer_tag_def steady_def
          dest!: r2t_loop_kept [OF _ b] kept_trans [OF c] no_r2t_left_create)
  next
    case False
    let ?w0 = "w\<lparr>connection := ?c, default_session := s\<lparr>session_transfer_tag := session_transfer_tag s + 1\<rparr>\<rparr>"
    obtain w1 where w1: "iscsi_session_execute_command os ?w0 (iscsi_request_cmd_cdb ?c) = Inr w1"
      and rest: "(if iscsi_request_cmd_read (request_of ?c) 0 \<noteq> 0 then
            bindR (the_target w1) (\<lambda>target.
            bindR (iscsi_request_data_in_send (connection w1) (iscsi_pdu_initiator_task_tag (request_of ?c) 0)
                     (c_min (iscsi_request_cmd_exp_data_transfer (request_of ?c) 0)
                        (word_of_int ISCSI_TARGET_MEMORY_SIZE - resid (io_hdr target))) target) (\<lambda>c.
              Inr (0, w1\<lparr>connection := c\<rparr>)))
          else bindR (iscsi_request_cmd_send_response w1) (\<lambda>w. Inr (0, w))) = Inr (v, w')"
      using assms(1) False unfolding iscsi_request_cmd_process_def Let_def iscsi_session_next_transfer_tag_def
      by (simp only: s bindR.simps split_beta fst_conv snd_conv if_False) auto
    note p = execute_command_parts [OF w1]
    have b1: "buffer_ok (response_buffer (connection w1))" using p b by simp
    have "kept (connection w1) (connection w') \<and> device w' = device w1 \<and> default_session w' = default_session w1"
    proof (cases "iscsi_request_cmd_read (request_of ?c) 0 = 0")
      case True
      with rest have "iscsi_request_cmd_send_response w1 = Inr w'" by auto
      from send_response_kept [OF this b1] show ?thesis by simp
    next
      case False
      with rest obtain t n l c' where "iscsi_request_data_in_send (connection w1) n l t = Inr c'"
        "w' = w1\<lparr>connection := c'\<rparr>"
        by auto
      from data_in_send_kept [OF this(1) b1] this(2) show ?thesis by simp
    qed
    with p c s show ?thesis by (auto simp: steady_def intro: kept_trans)
  qed
qed

lemma kept_steady: "kept (connection w) c' \<Longrightarrow> steady w (w\<lparr>connection := c'\<rparr>)"
  by (simp add: steady_def)

lemma with_connection_steady:
  assumes "with_connection w r = Inr (v, w')" "\<And>c'. r = Inr (v, c') \<Longrightarrow> kept (connection w) c'"
  shows "steady w w'"
  using assms by (auto simp: with_connection_def intro: kept_steady)

lemma steady_refl: "buffer_ok (response_buffer (connection w)) \<Longrightarrow> steady w w"
  by (simp add: steady_def kept_refl)

lemma data_out_steady:
  assumes "iscsi_request_data_out_process os w = Inr (v, w')" "buffer_ok (response_buffer (connection w))"
  shows "steady w w' \<and> (device w' = device w \<or> driven os (device w) (device w'))"
proof -
  let ?req = "request_of (connection w)"
  let ?tag = "iscsi_pdu_target_transfer_tag ?req 0"
  obtain found where f: "(if ?tag \<noteq> DEFAULT_TARGET_TRANSFER_TAG
             then bindR (the_session w) (\<lambda>s. Inr (iscsi_session_get_transfer_entry s ?tag))
             else Inr None) = Inr found"
    using assms(1) by (auto simp: iscsi_request_data_out_process_def Let_def simp del: bindR_eq_Inr elim!: bindR_InrE)
  show ?thesis
  proof (cases found)
    case None
    with assms f show ?thesis
      by (simp add: iscsi_request_data_out_process_def Let_def steady_refl del: bindR_eq_Inr)
  next
    case (Some entry)
    let ?off = "iscsi_request_data_out_buffer_offset ?req 0" and ?n = "iscsi_pdu_data_segment_length ?req 0"
    obtain m where m: "c_memcpy (entry_data entry) ISCSI_TRANSFER_ENTRY_SIZE (sint ?off)
        (iscsi_pdu_data (connection w)) (sint ?n) = Inr m"
      using assms(1) f Some
      by (auto simp: iscsi_request_data_out_process_def Let_def simp del: bindR_eq_Inr ISCSI_TRANSFER_ENTRY_SIZE_def elim!: bindR_InrE)
    let ?e = "entry\<lparr>entry_data := m\<rparr>"
    let ?w = "w\<lparr>default_session := (default_session w)\<lparr>transfer_entry := ?e\<rparr>\<rparr>"
    have b: "buffer_ok (response_buffer (connection ?w))" using assms(2) by simp
    have e: "entry = transfer_entry (default_session w)"
      using f Some by (auto simp: iscsi_session_get_transfer_entry_def dest!: the_session_parts split: if_splits)
    have store: "steady w ?w" using assms(2) by (simp add: steady_def kept_refl e)
    consider (last) "?off + ?n = total_length entry"
      | (more) "?off + ?n \<noteq> total_length entry" "iscsi_pdu_final ?req 0 \<noteq> 0 \<and> sint (r2t_sn ?e) < sint (total_r2t_sn ?e)"
      | (stored) "?off + ?n \<noteq> total_length entry" "\<not> (iscsi_pdu_final ?req 0 \<noteq> 0 \<and> sint (r2t_sn ?e) < sint (total_r2t_sn ?e))"
      by blast
    then show ?thesis
    proof cases
      case last
      then obtain w1 where w1: "iscsi_session_execute_transfer_entry os ?w ?e = Inr w1"
        "iscsi_request_cmd_send_response w1 = Inr w'"
        using assms(1) f Some m
        by (auto simp: iscsi_request_data_out_process_def Let_def simp del: bindR_eq_Inr elim!: bindR_InrE)
      note p = execute_transfer_parts [OF w1(1)]
      with send_response_kept [OF w1(2)] b show ?thesis by (simp add: steady_def e)
    next
      case more
      then obtain a d e g h c1 where "iscsi_request_r2t_send (connection w) a d e g h = Inr c1"
        "w' = ?w\<lparr>connection := c1, default_session := (default_session ?w)\<lparr>
            transfer_entry := iscsi_transfer_entry_increase_r2t_sn ?e\<rparr>\<rparr>"
        using assms(1) f Some m
        by (auto simp: iscsi_request_data_out_process_def Let_def simp del: bindR_eq_Inr elim!: bindR_InrE)
      with r2t_kept [OF this(1) assms(2)] more(2) show ?thesis
        by (simp add: steady_def e no_r2t_left_def)
    next
      case stored
      then have "w' = ?w"
        using assms(1) f Some m
        by (auto simp: iscsi_request_data_out_process_def Let_def simp del: bindR_eq_Inr elim!: bindR_InrE)
      with store show ?thesis by simp
    qed
  qed
qed

section \<open>Login\<close>

lemma partial_login_kept:
  "response_partial_login c = Inr (v, c') \<Longrightarrow> buffer_ok (response_buffer c) \<Longrightarrow> kept c c'"
  unfolding response_partial_login_def Let_def
  by (erule respond_kept) (auto simp: iscsi_pdu_set_response_header_def iscsi_connection_advance_stat_sn_def
    intro!: answeredI intro: below_results split: option.splits if_splits)

lemma status_only_kept:
  "response_status_only c st = Inr (v, c') \<Longrightarrow> buffer_ok (response_buffer c) \<Longrightarrow> kept c c'"
  unfolding response_status_only_def Let_def
  by (erule respond_kept) (auto intro!: answeredI intro: below_results below_memcpy below_pad)

lemma final_with_parameters_kept:
  "response_final_with_parameters s c st q len = Inr (v, c') \<Longrightarrow> buffer_ok (response_buffer c) \<Longrightarrow> kept c c'"
  unfolding response_final_with_parameters_def Let_def
  by (erule respond_kept) (auto simp: iscsi_pdu_set_response_header_def iscsi_connection_advance_stat_sn_def
    intro!: answeredI intro: below_results split: option.splits if_splits)

lemma update_keeps: "keeps negotiated (\<lambda>p. iscsi_connection_parameter_update p key val)"
proof -
  have w: "keeps negotiated (\<lambda>p. iscsi_connection_parameter_write p d)" for d
    by (auto simp: keeps_def iscsi_connection_parameter_write_def negotiated_def)
  have "keeps negotiated (\<lambda>p. bindR (c_memset (pbuffer p) ISCSI_CONNECTION_PARAMETER_BUFFER_SIZE
      (sint (plength p)) 0 1) (\<lambda>m. update_information (p\<lparr>pbuffer := m, plength := plength p + 1\<rparr>) key val))"
    unfolding keeps_def
  proof (intro allI impI)
    fix p p' assume p: "negotiated p"
    assume "bindR (c_memset (pbuffer p) ISCSI_CONNECTION_PARAMETER_BUFFER_SIZE
        (sint (plength p)) 0 1) (\<lambda>m. update_information (p\<lparr>pbuffer := m, plength := plength p + 1\<rparr>) key val)
      = Inr p'"
    then obtain m where m: "update_information (p\<lparr>pbuffer := m, plength := plength p + 1\<rparr>) key val = Inr p'"
      by (rule bindR_InrE)
    from p have "negotiated (p\<lparr>pbuffer := m, plength := plength p + 1\<rparr>)" by (simp add: negotiated_def)
    with m update_information_keeps show "negotiated p'" unfolding keeps_def by blast
  qed
  then show ?thesis
    unfolding iscsi_connection_parameter_update_def by (intro keeps_bind w)
qed

lemma update_int_keeps: "keeps negotiated (update_int key get)"
  using update_keeps by (auto simp: update_int_def keeps_def)

lemma update_bool_keeps: "keeps negotiated (update_bool key get)"
  using update_keeps by (auto simp: update_bool_def keeps_def)

lemma generate_keeps:
  assumes "iscsi_connection_parameter_generate_operational_data p = Inr p'" "negotiated p"
  shows "negotiated p'"
proof -
  have "keeps negotiated (\<lambda>p. bindR (update_int MAX_CONNECTIONS max_connections p) (\<lambda>p.
     bindR (update_bool INITIAL_R2T initial_r2t p) (\<lambda>p.
     bindR (update_bool IMMEDIATE_DATA immediate_data p) (\<lambda>p.
     bindR (update_int MAX_BURST_LENGTH max_burst_length p) (\<lambda>p.
     bindR (update_int FIRST_BURST_LENGTH first_burst_length p) (\<lambda>p.
     bindR (update_bool DATA_PDU_IN_ORDER data_pdu_in_order p) (\<lambda>p.
     bindR (update_bool DATA_SEQUENCE_IN_ORDER data_sequence_in_order p) (\<lambda>p.
     bindR (update_int DEFAULT_TIME_2_WAIT default_time_2_wait p) (\<lambda>p.
     bindR (update_int DEFAULT_TIME_2_RETAIN default_time_2_retain p) (\<lambda>p.
     update_int MAX_OUTSTANDING_R2T max_outstanding_r2t p))))))))))"
    by (intro keeps_bind update_int_keeps update_bool_keeps)
  moreover have "negotiated (p\<lparr>plength := 0\<rparr>)" using assms(2) by (simp add: negotiated_def)
  ultimately show ?thesis
    using assms(1) unfolding iscsi_connection_parameter_generate_operational_data_def parameter_getters keeps_def by blast
qed

section \<open>The invariant of the world\<close>

definition world_ok :: "'d world \<Rightarrow> bool" where
  "world_ok w \<longleftrightarrow> buffer_ok (receive_buffer (connection w)) \<and> buffer_ok (response_buffer (connection w))
     \<and> (case session_reference (connection w) of
          NoSession \<Rightarrow> iscsi_session_full (default_session w) \<and> is_full_feature_phase (default_session w) = 0
        | DefaultSession \<Rightarrow> session_target (default_session w) = DefaultTarget
            \<and> negotiated (conn_parameter (connection w)))"

definition progress :: "'d world \<Rightarrow> 'd world \<Rightarrow> bool" where
  "progress w w' \<longleftrightarrow> world_ok w' \<and> receive_buffer (connection w') = receive_buffer (connection w)
     \<and> fill (response_buffer (connection w)) \<le> fill (response_buffer (connection w'))
     \<and> (iscsi_pdu_opcode (request_of (connection w)) 0 \<noteq> opcode_value NOP_OUT
         \<longrightarrow> prefix (contents (response_buffer (connection w))) (contents (response_buffer (connection w'))))
     \<and> (is_full_feature_phase (default_session w) \<noteq> 0 \<longrightarrow> is_full_feature_phase (default_session w') \<noteq> 0)
     \<and> (no_r2t_left (transfer_entry (default_session w))
         \<longrightarrow> no_r2t_left (transfer_entry (default_session w')))"

lemma progress_refl: "world_ok w \<Longrightarrow> progress w w"
  by (simp add: progress_def)

lemma progress_trans: "progress a b \<Longrightarrow> progress b c \<Longrightarrow> progress a c"
  by (auto simp: progress_def request_of_def)

lemma steady_progress: "world_ok w \<Longrightarrow> steady w w' \<Longrightarrow> progress w w'"
  by (auto simp: world_ok_def steady_def progress_def kept_def iscsi_session_full_def split: session_ptr.splits)

lemma kept_progress:
  "world_ok w \<Longrightarrow> kept (connection w) c' \<Longrightarrow> progress w (w\<lparr>connection := c'\<rparr>)"
  by (rule steady_progress) (auto simp: steady_def)

lemma with_connection_progress:
  assumes "with_connection w r = Inr (v, w')" "world_ok w" "\<And>c'. r = Inr (v, c') \<Longrightarrow> kept (connection w) c'"
  shows "progress w w' \<and> device w' = device w"
  using assms by (auto simp: with_connection_def kept_progress)

lemma world_ok_response: "world_ok w \<Longrightarrow> buffer_ok (response_buffer (connection w))"
  by (simp add: world_ok_def)

text \<open>What \<open>setup_session\<close> leaves: the session of the connection is set, or nothing has changed.\<close>

lemma setup_session_progress:
  assumes "setup_session os w = Inr (st, w')" "world_ok w" "session_reference (connection w) = NoSession"
    "negotiated (conn_parameter (connection w))"
  shows "progress w w' \<and> device w' = device w"
  using assms unfolding setup_session_def Let_def
  by (auto simp: progress_def world_ok_def iscsi_session_create_def setup_normal_session_def
      negotiated_def split: if_splits option.splits)

lemma enter_full_progress:
  assumes "enter_full_feature_phase w = Inr w'" "world_ok w"
  shows "progress w w' \<and> device w' = device w"
  using assms
  by (auto simp: enter_full_feature_phase_def the_session_def progress_def world_ok_def split: session_ptr.splits)

lemma progress_step:
  "progress w w1 \<and> device w1 = device w \<Longrightarrow> (world_ok w1 \<Longrightarrow> progress w1 w2 \<and> device w2 = device w1)
    \<Longrightarrow> progress w w2 \<and> device w2 = device w"
  by (auto simp: progress_def request_of_def)

lemma parameter_progress:
  "world_ok w \<Longrightarrow> negotiated par \<Longrightarrow>
   progress w (w\<lparr>connection := (connection w)\<lparr>conn_parameter := par\<rparr>\<rparr>)
     \<and> device (w\<lparr>connection := (connection w)\<lparr>conn_parameter := par\<rparr>\<rparr>) = device w"
  by (auto simp: progress_def world_ok_def split: session_ptr.splits)

lemma final_parameters_progress:
  assumes "bindR (the_session w) (\<lambda>s. with_connection w
      (response_final_with_parameters s (connection w) st q len)) = Inr (v, w')" "world_ok w"
  shows "progress w w' \<and> device w' = device w"
proof -
  from assms(1) obtain s where "with_connection w
      (response_final_with_parameters s (connection w) st q len) = Inr (v, w')"
    by (rule bindR_InrE)
  then show ?thesis
    by (rule with_connection_progress [OF _ assms(2)])
      (rule final_with_parameters_kept [OF _ world_ok_response [OF assms(2)]])
qed

lemma stage_progress:
  assumes "(if t then (if n then bindR (enter_full_feature_phase w) (\<lambda>w. Inr (SUCCESS, w)) else X)
     else Inr (SUCCESS, w)) = Inr (st, w1)" "world_ok w"
    "\<And>st w1. X = Inr (st, w1) \<Longrightarrow> w1 = w"
  shows "progress w w1 \<and> device w1 = device w"
  using assms(1,2) assms(3) [of st w1]
  by (auto simp: progress_refl dest: enter_full_progress split: if_splits)

lemma stage_connection:
  assumes "(if t then (if n then bindR (enter_full_feature_phase w) (\<lambda>w. Inr (SUCCESS, w)) else X)
     else Inr (SUCCESS, w)) = Inr (st, w1)" "\<And>st w1. X = Inr (st, w1) \<Longrightarrow> w1 = w"
  shows "connection w1 = connection w"
  using assms(1) assms(2) [of st w1] by (auto simp: enter_full_feature_phase_def split: if_splits)

lemma final_login_progress:
  assumes "response_final_login w = Inr (v, w')" "world_ok w" "negotiated (conn_parameter (connection w))"
  shows "progress w w' \<and> device w' = device w"
proof -
  let ?req = "request_of (connection w)"
  let ?csg = "iscsi_pdu_login_csg ?req 0"
  consider "?csg = 0" | "?csg = 1" | "?csg = 3" | "?csg \<noteq> 0" "?csg \<noteq> 1" "?csg \<noteq> 3" by blast
  then show ?thesis
  proof cases
    case 1
    with assms(1) obtain st w1 where a: "(if iscsi_pdu_login_transit ?req 0 \<noteq> 0 then
                 (if iscsi_pdu_login_nsg ?req 0 = login_state_value FULL_FEATURE then
                    bindR (enter_full_feature_phase w) (\<lambda>w. Inr (SUCCESS, w))
                  else if iscsi_pdu_login_transit ?req 0 \<noteq> login_state_value SECURITY_NEGOTIATION then Inr (INITIATOR_ERROR, w)
                  else Inr (SUCCESS, w))
               else Inr (SUCCESS, w)) = Inr (st, w1)"
      "bindR (the_session w1) (\<lambda>s. with_connection w1 (response_final_with_parameters s (connection w1) st
         (lit security_negotiation_response) (word_of_nat (length security_negotiation_response)))) = Inr (v, w')"
      unfolding response_final_login_def Let_def
      by (simp only: login_state_value.simps if_True simp_thms) (erule bindR_InrE, auto simp del: bindR_eq_Inr)
    show ?thesis
      by (rule progress_step [OF stage_progress [OF a(1) assms(2)] final_parameters_progress [OF a(2)]])
        (auto split: if_splits)
  next
    case 2
    with assms(1) obtain st w1 where a: "(if iscsi_pdu_login_transit ?req 0 \<noteq> 0 then
                 (if iscsi_pdu_login_nsg ?req 0 = login_state_value FULL_FEATURE then
                    bindR (enter_full_feature_phase w) (\<lambda>w. Inr (SUCCESS, w))
                  else Inr (INITIATOR_ERROR, w))
               else Inr (SUCCESS, w)) = Inr (st, w1)"
      "bindR (iscsi_connection_parameter_generate_operational_data (conn_parameter (connection w1))) (\<lambda>par.
        bindR (the_session (w1\<lparr>connection := (connection w1)\<lparr>conn_parameter := par\<rparr>\<rparr>)) (\<lambda>s.
          with_connection (w1\<lparr>connection := (connection w1)\<lparr>conn_parameter := par\<rparr>\<rparr>)
            (response_final_with_parameters s
              (connection (w1\<lparr>connection := (connection w1)\<lparr>conn_parameter := par\<rparr>\<rparr>)) st
              (iscsi_connection_parameter_data par) (iscsi_connection_parameter_length par)))) = Inr (v, w')"
      unfolding response_final_login_def Let_def
      by (simp only: login_state_value.simps if_True if_False simp_thms zero_neq_one one_neq_zero)
        (erule bindR_InrE, auto simp del: bindR_eq_Inr)
    have c: "connection w1 = connection w" by (rule stage_connection [OF a(1)]) simp
    obtain par where par: "iscsi_connection_parameter_generate_operational_data (conn_parameter (connection w)) = Inr par"
      "bindR (the_session (w1\<lparr>connection := (connection w1)\<lparr>conn_parameter := par\<rparr>\<rparr>)) (\<lambda>s.
          with_connection (w1\<lparr>connection := (connection w1)\<lparr>conn_parameter := par\<rparr>\<rparr>)
            (response_final_with_parameters s
              (connection (w1\<lparr>connection := (connection w1)\<lparr>conn_parameter := par\<rparr>\<rparr>)) st
              (iscsi_connection_parameter_data par) (iscsi_connection_parameter_length par))) = Inr (v, w')"
      using a(2) c by (auto simp del: bindR_eq_Inr elim!: bindR_InrE)
    note n = generate_keeps [OF par(1) assms(3)]
    show ?thesis
      by (rule progress_step [OF stage_progress [OF a(1) assms(2)]
            progress_step [OF parameter_progress [OF _ n] final_parameters_progress [OF par(2)]]]) auto
  next
    case 3
    with assms(1) have "with_connection w (response_status_only (connection w) INITIATOR_ERROR) = Inr (v, w')"
      by (simp add: response_final_login_def Let_def)
    then show ?thesis
      by (rule with_connection_progress [OF _ assms(2)])
        (rule status_only_kept [OF _ world_ok_response [OF assms(2)]])
  next
    case 4
    with assms show ?thesis by (simp add: response_final_login_def Let_def progress_refl)
  qed
qed

lemma login_progress:
  assumes "iscsi_request_login_process os w = Inr (v, w')" "world_ok w"
  shows "progress w w' \<and> device w' = device w"
proof -
  let ?c = "connection w" and ?req = "request_of (connection w)"
  obtain par m where p: "iscsi_connection_parameter_create (conn_parameter ?c) (iscsi_pdu_data ?c)
      (iscsi_pdu_data_segment_length ?req 0) = Inr (par, m)"
    using assms(1) by (auto simp: iscsi_request_login_process_def Let_def simp del: bindR_eq_Inr elim!: bindR_InrE)
  have m: "m = bdata (receive_buffer ?c)"
    using create_restores [OF p] by (simp add: iscsi_pdu_data_def request_ptr_def iscsi_buffer_data_def padd_def)
  note n = create_negotiated [OF p]
  let ?w = "w\<lparr>connection := ?c\<lparr>conn_parameter := par\<rparr>\<rparr>"
  have w: "?c\<lparr>conn_parameter := par, receive_buffer := (receive_buffer ?c)\<lparr>bdata := m\<rparr>\<rparr> = ?c\<lparr>conn_parameter := par\<rparr>"
    by (cases ?c) (simp add: m)
  have body: "(if iscsi_pdu_login_continue ?req 0 \<noteq> 0 then
        with_connection ?w (response_partial_login (connection ?w))
      else if session_reference (connection ?w) = NoSession then
        bindR (setup_session os ?w) (\<lambda>x.
          if fst x \<noteq> SUCCESS then with_connection (snd x) (response_status_only (connection (snd x)) (fst x))
          else response_final_login (snd x))
      else response_final_login ?w) = Inr (v, w')"
    using assms(1) unfolding iscsi_request_login_process_def iscsi_connection_parameter_def Let_def p bindR.simps split_beta fst_conv snd_conv w .
  have i: "progress ?w w' \<and> device w' = device ?w" if ok: "world_ok ?w"
  proof -
    consider (partial) "iscsi_pdu_login_continue ?req 0 \<noteq> 0"
      | (fresh) "iscsi_pdu_login_continue ?req 0 = 0" "session_reference ?c = NoSession"
      | (again) "iscsi_pdu_login_continue ?req 0 = 0" "session_reference ?c \<noteq> NoSession" by blast
    then show ?thesis
    proof cases
      case partial
      with body have "with_connection ?w (response_partial_login (connection ?w)) = Inr (v, w')" by simp
      then show ?thesis
        by (rule with_connection_progress [OF _ ok]) (rule partial_login_kept [OF _ world_ok_response [OF ok]])
    next
      case fresh
      with body obtain st w1 where s: "setup_session os ?w = Inr (st, w1)"
        "(if st \<noteq> SUCCESS then with_connection w1 (response_status_only (connection w1) st)
          else response_final_login w1) = Inr (v, w')"
        by (auto simp del: bindR_eq_Inr elim!: bindR_InrE cong del: if_weak_cong)
      have s1: "progress ?w w1 \<and> device w1 = device ?w"
        using setup_session_progress [OF s(1) ok] fresh n by simp
      have "conn_parameter (connection w1) = par"
        using s(1) by (auto simp: setup_session_def Let_def setup_normal_session_def iscsi_session_create_def
            iscsi_session_add_connection_def split: if_splits option.splits)
      have s2: "progress w1 w' \<and> device w' = device w1" if ok1: "world_ok w1"
      proof (cases "st = SUCCESS")
        case True
        with s(2) have "response_final_login w1 = Inr (v, w')" by simp
        from final_login_progress [OF this ok1] n \<open>conn_parameter (connection w1) = par\<close> show ?thesis by simp
      next
        case False
        with s(2) have "with_connection w1 (response_status_only (connection w1) st) = Inr (v, w')" by simp
        then show ?thesis
          by (rule with_connection_progress [OF _ ok1]) (rule status_only_kept [OF _ world_ok_response [OF ok1]])
      qed
      from progress_step [OF s1 s2] show ?thesis .
    next
      case again
      with body have "response_final_login ?w = Inr (v, w')" by simp
      from final_login_progress [OF this ok] n show ?thesis by simp
    qed
  qed
  from progress_step [OF parameter_progress [OF assms(2) n] i] show ?thesis .
qed

lemma login_reject_kept:
  assumes "iscsi_request_login_reject w = Inr (v, w')" "world_ok w"
  shows "kept (connection w) (connection w') \<and> w' = w\<lparr>connection := connection w'\<rparr>"
proof (cases "session_reference (connection w) = NoSession")
  case True
  with assms show ?thesis by (simp add: iscsi_request_login_reject_def kept_refl world_ok_response)
next
  case False
  let ?f = "\<lambda>(p, m, c). let m = iscsi_pdu_set_opcode m p LOGIN_RES;
            m = iscsi_pdu_login_set_TSIH m p (TSIH (default_session w)) in
        Inr (BASIC_HEADER_SEGMENT_LENGTH,
             w\<lparr>connection := response_release c m BASIC_HEADER_SEGMENT_LENGTH\<rparr>)"
  have b: "bindR (response_acquire (connection w) BASIC_HEADER_SEGMENT_LENGTH) ?f = Inr (v, w')"
    using assms(1) False by (simp add: iscsi_request_login_reject_def del: bindR_eq_Inr)
  then have "kept (connection w) (connection w')"
    by (rule respond_kept [OF _ world_ok_response [OF assms(2)]]) (auto simp: Let_def intro!: answeredI)
  moreover have "w' = w\<lparr>connection := connection w'\<rparr>" using b by (auto simp: Let_def)
  ultimately show ?thesis by blast
qed

lemma login_reject_progress:
  assumes "iscsi_request_login_reject w = Inr (v, w')" "world_ok w"
  shows "progress w w' \<and> device w' = device w"
  using login_reject_kept [OF assms] kept_progress [OF assms(2), of "connection w'"]
  by (metis world.ext_inject world.surjective world.update_convs(1))

section \<open>The dispatcher and the receiver\<close>

lemma numbering_parts:
  assumes "valid_command_numbering w = (ok, w1)"
  shows "connection w1 = connection w \<and> device w1 = device w \<and> default_target w1 = default_target w
    \<and> is_discovery (default_session w1) = is_discovery (default_session w)
    \<and> is_full_feature_phase (default_session w1) = is_full_feature_phase (default_session w)
    \<and> session_target (default_session w1) = session_target (default_session w)
    \<and> transfer_entry (default_session w1) = transfer_entry (default_session w)
    \<and> iscsi_session_full (default_session w1) = iscsi_session_full (default_session w)"
  using assms by (auto simp: valid_command_numbering_def Let_def iscsi_session_full_def split: if_splits)

lemma numbering_ok:
  assumes "valid_command_numbering w = (ok, w1)" "world_ok w"
  shows "world_ok w1"
  using numbering_parts [OF assms(1)] assms(2) by (simp add: world_ok_def split: session_ptr.splits)

definition scsi_allowed :: "'d world \<Rightarrow> bool" where
  "scsi_allowed w \<longleftrightarrow> session_reference (connection w) \<noteq> NoSession
     \<and> is_full_feature_phase (default_session w) \<noteq> 0 \<and> is_discovery (default_session w) = 0
     \<and> iscsi_pdu_opcode (request_of (connection w)) 0 \<in> {opcode_value SCSI_CMD, opcode_value SCSI_DATA_OUT}"

lemma server_progress:
  assumes "iscsi_server_process os w = Inr (v, w')" "world_ok w"
  shows "progress w w' \<and> (device w' = device w \<or> driven os (device w) (device w') \<and> scsi_allowed w)"
proof -
  obtain ok w1 where n: "valid_command_numbering w = (ok, w1)" by fastforce
  note p = numbering_parts [OF n] and ok1 = numbering_ok [OF n assms(2)]
  note b = world_ok_response [OF ok1]
  let ?c = "connection w1" and ?s = "default_session w1" and ?op = "iscsi_pdu_opcode (request_of (connection w1)) 0"
  have start: "progress w w1 \<and> device w1 = device w"
    using p ok1 by (simp add: progress_def)
  have run: "(if \<not> ok then Inr (pdu_status_value PDU_IGNORE, w1)
      else if session_reference ?c = NoSession \<or> is_full_feature_phase ?s = 0 then
        (if ?op = opcode_value LOGIN then iscsi_request_login_process os w1
         else if session_reference ?c = NoSession then Inr (pdu_status_value SOCKET_TERMINATE, w1)
         else iscsi_request_login_reject w1)
      else if ?op = opcode_value LOGOUT then with_connection w1 (iscsi_request_logout_process ?c)
      else if ?op = opcode_value TEXT then with_connection w1 (iscsi_request_text_process ?s ?c)
      else if is_discovery ?s \<noteq> 0 then with_connection w1 (iscsi_request_reject ?c PROTOCOL_ERROR None 0)
      else if ?op = opcode_value NOP_OUT then with_connection w1 (iscsi_request_nop_out_process ?c)
      else if ?op = opcode_value SCSI_DATA_OUT then iscsi_request_data_out_process os w1
      else if ?op = opcode_value SCSI_CMD then iscsi_request_cmd_process os w1
      else if ?op = opcode_value LOGIN then with_connection w1 (iscsi_request_reject ?c PROTOCOL_ERROR None 0)
      else with_connection w1 (iscsi_request_reject ?c CMD_NOT_SUPPORTED None 0)) = Inr (v, w')"
    using assms(1) unfolding iscsi_server_process_def n Let_def split_beta fst_conv snd_conv .
  note conn = with_connection_progress [OF _ ok1]
  have step: "progress w1 w' \<and> (device w' = device w1 \<or> driven os (device w1) (device w') \<and> scsi_allowed w1)"
  proof (cases "ok \<and> \<not> (session_reference ?c = NoSession \<or> is_full_feature_phase ?s = 0) \<and> is_discovery ?s = 0
      \<and> (?op = opcode_value SCSI_DATA_OUT \<or> ?op = opcode_value SCSI_CMD)")
    case True
    then have "iscsi_request_data_out_process os w1 = Inr (v, w') \<or> iscsi_request_cmd_process os w1 = Inr (v, w')"
      using run by (auto split: if_splits)
    then have "steady w1 w' \<and> (device w' = device w1 \<or> driven os (device w1) (device w'))"
      using data_out_steady [OF _ b] cmd_steady [OF _ b] by blast
    with steady_progress [OF ok1] True show ?thesis by (auto simp: scsi_allowed_def)
  next
    case False
    have "progress w1 w' \<and> device w' = device w1"
      using run False ok1
      by (auto split: if_splits intro: progress_refl
          dest: login_progress [OF _ ok1] login_reject_progress [OF _ ok1]
            conn [OF _ logout_kept [OF _ b]] conn [OF _ text_kept [OF _ b]]
            conn [OF _ nop_kept [OF _ b]] conn [OF _ reject_kept [OF _ b]])
    then show ?thesis by simp
  qed
  have "scsi_allowed w1 \<longleftrightarrow> scsi_allowed w" using p by (simp add: scsi_allowed_def)
  with start step show ?thesis by (auto intro: progress_trans)
qed

text \<open>Whatever the request, but for a ping that is cut, the bytes that wait to be sent stay as they are.\<close>

lemma server_appends:
  assumes "iscsi_server_process os w = Inr (v, w')" "world_ok w" "\<not> cut_ping (connection w)"
  shows "prefix (contents (response_buffer (connection w))) (contents (response_buffer (connection w')))"
proof (cases "iscsi_pdu_opcode (request_of (connection w)) 0 = opcode_value NOP_OUT")
  case False
  then show ?thesis using server_progress [OF assms(1,2)] by (simp add: progress_def)
next
  case True
  obtain ok w1 where n: "valid_command_numbering w = (ok, w1)" by fastforce
  have c: "connection w1 = connection w" using numbering_parts [OF n] by simp
  note ok1 = numbering_ok [OF n assms(2)] and b = world_ok_response [OF assms(2)]
  have "kept (connection w1) (connection w')"
    using assms(1) True c
    by (auto simp: iscsi_server_process_def Let_def n with_connection_def kept_refl [OF b] split: if_splits
        dest: login_reject_kept [OF _ ok1] intro: reject_kept [OF _ b] nop_kept [OF _ b])
  then show ?thesis using assms(3) c by (simp add: kept_def)
qed

text \<open>A list of received bytes that starts with a whole PDU, and what is left when one is taken.\<close>

definition complete :: "byte list \<Rightarrow> bool" where
  "complete bs \<longleftrightarrow> 48 \<le> length bs \<and> plen (mem_of bs) 0 \<le> length bs"

definition consumed :: "byte list \<Rightarrow> byte list" where
  "consumed bs = (if complete bs then drop (plen (mem_of bs) 0) bs else bs)"

lemma plen_contents: "8 \<le> fill b \<Longrightarrow> plen (bdata b) 0 = plen (mem_of (contents b)) 0"
  by (rule plen_cong) (simp add: mem_of_def contents_def)

lemma complete_contents:
  assumes "buffer_ok b"
  shows "iscsi_pdu_valid (bdata b) 0 (iscsi_buffer_length b) \<longleftrightarrow> complete (contents b)"
proof -
  have s: "sint (iscsi_buffer_length b) = int (fill b)"
    using assms by (simp add: iscsi_buffer_length_def sint_fill)
  show ?thesis
  proof (cases "48 \<le> fill b")
    case True
    then show ?thesis using plen_contents [of b] by (simp add: pdu_valid_iff s complete_def)
  next
    case False
    then show ?thesis using plen_bounds(1) [of "bdata b" 0] by (simp add: pdu_valid_iff s complete_def)
  qed
qed

lemma incoming_blocked:
  assumes "world_ok w" "sint len = int n" "n \<le> 4194304" "4194304 < fill (receive_buffer (connection w)) + n"
  shows "incoming_request os w buf len = Inl Blocked"
  using assms by (simp add: incoming_request_def world_ok_def receive_blocked)

lemma incoming_too_long:
  assumes "4194304 < sint len"
  shows "incoming_request os w buf len = Inr (-1, w)"
  using assms by (simp add: incoming_request_def receive_too_long)

lemma incoming_request_steps:
  assumes w: "world_ok w" and r: "room (receive_buffer (connection w)) n" and l: "sint len = int n"
    and src: "pos buf + n \<le> bsz buf"
  obtains b where "buffer_ok b"
    "contents b = contents (receive_buffer (connection w)) @ bytes_of (blk buf) (pos buf) n"
    "world_ok (w\<lparr>connection := (connection w)\<lparr>receive_buffer := b\<rparr>\<rparr>)"
    "incoming_request os w buf len =
      (if complete (contents b) then
        bindR (iscsi_server_process os (w\<lparr>connection := (connection w)\<lparr>receive_buffer := b\<rparr>\<rparr>)) (\<lambda>(v, w).
        bindR (iscsi_buffer_flush (receive_buffer (connection w))
                 (iscsi_pdu_length (bdata (receive_buffer (connection w))) 0)) (\<lambda>b.
          Inr (v, w\<lparr>connection := (connection w)\<lparr>receive_buffer := b\<rparr>\<rparr>)))
       else Inr (pdu_status_value PDU_INCOMPLETE, w\<lparr>connection := (connection w)\<lparr>receive_buffer := b\<rparr>\<rparr>))"
proof -
  from receive_ok [OF r l src] obtain b where b:
    "iscsi_buffer_receive (receive_buffer (connection w)) buf len = Inr (0, b)" "buffer_ok b"
    "contents b = contents (receive_buffer (connection w)) @ bytes_of (blk buf) (pos buf) n"
    by blast
  have "world_ok (w\<lparr>connection := (connection w)\<lparr>receive_buffer := b\<rparr>\<rparr>)"
    using w b(2) by (simp add: world_ok_def split: session_ptr.splits)
  with b show thesis
    by (intro that [of b]) (simp_all add: incoming_request_def complete_contents Let_def del: bindR_eq_Inr)
qed

lemma incoming_progress:
  assumes w: "world_ok w" and r: "room (receive_buffer (connection w)) n" and l: "sint len = int n"
    and src: "pos buf + n \<le> bsz buf" and res: "incoming_request os w buf len = Inr (v, w')"
  shows "world_ok w' \<and> fill (response_buffer (connection w)) \<le> fill (response_buffer (connection w'))
    \<and> contents (receive_buffer (connection w')) =
        consumed (contents (receive_buffer (connection w)) @ bytes_of (blk buf) (pos buf) n)
    \<and> (is_full_feature_phase (default_session w) \<noteq> 0 \<longrightarrow> is_full_feature_phase (default_session w') \<noteq> 0)
    \<and> (device w' = device w \<or> driven os (device w) (device w') \<and> is_full_feature_phase (default_session w) \<noteq> 0)
    \<and> (no_r2t_left (transfer_entry (default_session w))
        \<longrightarrow> no_r2t_left (transfer_entry (default_session w')))"
proof -
  obtain b where b: "buffer_ok b"
    "contents b = contents (receive_buffer (connection w)) @ bytes_of (blk buf) (pos buf) n"
    "world_ok (w\<lparr>connection := (connection w)\<lparr>receive_buffer := b\<rparr>\<rparr>)"
    "incoming_request os w buf len =
      (if complete (contents b) then
        bindR (iscsi_server_process os (w\<lparr>connection := (connection w)\<lparr>receive_buffer := b\<rparr>\<rparr>)) (\<lambda>(v, w).
        bindR (iscsi_buffer_flush (receive_buffer (connection w))
                 (iscsi_pdu_length (bdata (receive_buffer (connection w))) 0)) (\<lambda>b.
          Inr (v, w\<lparr>connection := (connection w)\<lparr>receive_buffer := b\<rparr>\<rparr>)))
       else Inr (pdu_status_value PDU_INCOMPLETE, w\<lparr>connection := (connection w)\<lparr>receive_buffer := b\<rparr>\<rparr>))"
    by (rule incoming_request_steps [OF w r l src])
  let ?w = "w\<lparr>connection := (connection w)\<lparr>receive_buffer := b\<rparr>\<rparr>"
  show ?thesis
  proof (cases "complete (contents b)")
    case False
    then show ?thesis using b res by (auto simp: consumed_def)
  next
    case True
    from res obtain w1 b2 where s: "iscsi_server_process os ?w = Inr (v, w1)"
      "iscsi_buffer_flush (receive_buffer (connection w1))
         (iscsi_pdu_length (bdata (receive_buffer (connection w1))) 0) = Inr b2"
      "w' = w1\<lparr>connection := (connection w1)\<lparr>receive_buffer := b2\<rparr>\<rparr>"
      unfolding b(4) by (simp only: True if_True) (auto elim!: bindR_InrE simp del: bindR_eq_Inr)
    from server_progress [OF s(1) b(3)] have p: "world_ok w1" "receive_buffer (connection w1) = b"
      "fill (response_buffer (connection w)) \<le> fill (response_buffer (connection w1))"
      "is_full_feature_phase (default_session w) \<noteq> 0 \<longrightarrow> is_full_feature_phase (default_session w1) \<noteq> 0"
      "device w1 = device w \<or> driven os (device w) (device w1) \<and> is_full_feature_phase (default_session w) \<noteq> 0"
      "no_r2t_left (transfer_entry (default_session w)) \<longrightarrow> no_r2t_left (transfer_entry (default_session w1))"
      by (auto simp: progress_def scsi_allowed_def)
    have f: "48 \<le> fill b" "plen (mem_of (contents b)) 0 \<le> fill b" using True by (simp_all add: complete_def)
    then have pl: "plen (bdata b) 0 = plen (mem_of (contents b)) 0" by (intro plen_contents) simp
    then have "plen (bdata b) 0 \<le> fill b" using f by simp
    from flush_ok [OF b(1) sint_pdu_length this] s(2) p(2) have b2: "buffer_ok b2"
      "contents b2 = drop (plen (bdata b) 0) (contents b)"
      by auto
    have "world_ok w'"
      using p(1) b2(1) s(3) by (simp add: world_ok_def split: session_ptr.splits)
    then show ?thesis using True b2(2) p(3-6) s(3) pl b(2) by (simp add: consumed_def)
  qed
qed

end
