(* ===== verification/Iscsi_Termination.thy ===== *)
theory Iscsi_Termination
  imports Iscsi_Invariant
begin

text \<open>
  The one loop of the program that the model runs with fuel, the loop of
  \<open>iscsi_request_data_in_send\<close>: for every argument, negative and overflowing lengths included, the
  fuel given is enough, and more of it gives the same result. So a received PDU is always processed
  to an end, to a failure or to a wait for the other thread (\<open>Blocked\<close>).
\<close>

section \<open>Statements that do not use fuel\<close>

named_theorems fueled

definition fueled :: "'a result \<Rightarrow> bool" where
  "fueled r \<longleftrightarrow> r \<noteq> Inl OutOfFuel"

lemma fueled_Inr [fueled, simp]: "fueled (Inr x)"
  by (simp add: fueled_def)

lemma fueled_Inl [simp]: "fueled (Inl e) \<longleftrightarrow> e \<noteq> OutOfFuel"
  by (simp add: fueled_def)

lemma fueled_bind [fueled]: "fueled m \<Longrightarrow> (\<And>x. m = Inr x \<Longrightarrow> fueled (f x)) \<Longrightarrow> fueled (bindR m f)"
  by (cases m) (auto simp: fueled_def)

lemma fueled_memory [fueled]:
  "fueled (c_memset m sz off v n)" "fueled (c_memcpy m sz off q n)" "fueled (rd q i)"
  by (simp_all add: c_memset_def c_memcpy_def rd_def)

lemma fueled_acquire [fueled]: "fueled (response_acquire c len)"
  unfolding response_acquire_def iscsi_buffer_acquire_lock_for_length_def iscsi_buffer_acquire_lock_def
  by (auto intro!: fueled split: option.splits)

lemma fueled_pdu [fueled]: "fueled (iscsi_pdu_pad0 m a len)" "fueled (iscsi_pdu_set_data_segment m a q len)"
  by (simp_all add: iscsi_pdu_pad0_def iscsi_pdu_set_data_segment_def fueled Let_def)

lemma fueled_data_in_pdu: "fueled (data_in_pdu c tag e mx d i off)"
  unfolding data_in_pdu_def Let_def by (auto intro!: fueled simp: iscsi_pdu_set_response_header_def)

section \<open>The Data-In loop\<close>

lemma data_in_pdu_sizes:
  assumes "data_in_pdu c tag e mx d i off = Inr c'"
  shows "0 \<le> sint off \<and> 0 \<le> sint (c_min (e - off) mx)"
proof -
  have copied: "0 \<le> n" if "c_memcpy m sz a q n = Inr m'" for m sz a q n m'
    using that by (auto simp: c_memcpy_def split: if_splits)
  show ?thesis
    using assms unfolding data_in_pdu_def Let_def iscsi_pdu_set_data_segment_def
    by (auto simp: iscsi_pdu_set_response_header_def dest!: copied split: if_splits)
qed

text \<open>Round \<open>k\<close> with the fuel that is left: after the first round the rest of the data bounds it.\<close>

lemma data_in_loop_fueled:
  assumes "mx \<noteq> 0"
  shows "k + fuel \<le> 2147483648 \<Longrightarrow> k = 0 \<and> off = 0 \<and> nat (sint e) < fuel
      \<or> 0 < k \<and> 0 \<le> sint off \<and> sint off \<le> sint e \<and> nat (sint e - sint off) \<le> fuel
    \<Longrightarrow> fueled (data_in_loop fuel c tag e mx d (word_of_nat k) off)"
proof (induction fuel arbitrary: k c off)
  case 0
  then have k: "0 < k" "k \<le> 2147483648" "\<not> sint off < sint e" by auto
  have "unat (word_of_nat k :: cint) = k" using k(2) by (simp add: unsigned_of_nat take_bit_nat_eq_self)
  then have "(word_of_nat k :: cint) \<noteq> 0" using k(1) by auto
  then show ?case using k(3) by (subst data_in_loop.simps) simp
next
  case (Suc fuel)
  show ?case
  proof (cases "(word_of_nat k :: cint) = 0 \<or> sint off < sint e")
    case False
    then show ?thesis by (subst data_in_loop.simps) simp
  next
    case True
    let ?n = "c_min (e - off) mx"
    have "fueled (data_in_loop fuel c1 tag e mx d (word_of_nat k + 1) (off + ?n))"
      if c1: "data_in_pdu c tag e mx d (word_of_nat k) off = Inr c1" for c1
    proof -
      note s = data_in_pdu_sizes [OF c1]
      have d: "sint (e - off) = sint e - sint off"
        using s sint_bounds [of e] Suc.prems(2) by (intro sint_minus) auto
      have n: "0 \<le> min (sint e - sint off) (sint mx)" using s by (simp add: d)
      have sum: "sint (off + ?n) = sint off + min (sint e - sint off) (sint mx)"
        using s n sint_bounds [of e] by (subst sint_plus) (auto simp: d)
      have "sint mx \<noteq> 0" using assms signed_word_eqI [of mx 0] by auto
      then have mx: "0 < sint mx" using n by (auto simp: min_def not_less order.order_iff_strict split: if_splits)
      have "nat (sint e - sint (off + ?n)) \<le> fuel"
        using Suc.prems(2) sum n mx by (auto simp: min_def split: if_splits)
      moreover have "sint (off + ?n) \<le> sint e" using sum by simp
      moreover have "0 \<le> sint (off + ?n)" using sum s n by simp
      ultimately have "fueled (data_in_loop fuel c1 tag e mx d (word_of_nat (Suc k)) (off + ?n))"
        using Suc.prems(1) by (intro Suc.IH) simp_all
      then show ?thesis by (simp add: add.commute)
    qed
    then show ?thesis
      using True by (subst data_in_loop.simps) (auto intro!: fueled_bind fueled_data_in_pdu)
  qed
qed

text \<open>Fuel that was enough is enough with any more of it.\<close>

lemma data_in_loop_more:
  "fueled (data_in_loop fuel c tag e mx d i off)
   \<Longrightarrow> data_in_loop (fuel + k) c tag e mx d i off = data_in_loop fuel c tag e mx d i off"
proof (induction fuel arbitrary: c i off)
  case 0
  then have "\<not> (i = 0 \<or> sint off < sint e)" by (subst (asm) data_in_loop.simps) (auto split: if_splits)
  then show ?case by (subst (1 2) data_in_loop.simps) auto
next
  case (Suc fuel)
  show ?case
  proof (cases "(i = 0 \<or> sint off < sint e) \<and> (\<exists>c1. data_in_pdu c tag e mx d i off = Inr c1)")
    case False
    then show ?thesis
      by (subst (1 2) data_in_loop.simps) (cases "data_in_pdu c tag e mx d i off"; auto)
  next
    case True
    then obtain c1 where c1: "data_in_pdu c tag e mx d i off = Inr c1" by blast
    then have "fueled (data_in_loop fuel c1 tag e mx d (i + 1) (off + c_min (e - off) mx))"
      using Suc.prems True by (subst (asm) data_in_loop.simps) auto
    from Suc.IH [OF this] show ?thesis
      using c1 True by (subst (1 2) data_in_loop.simps) auto
  qed
qed

lemma data_in_send_rounds:
  fixes c :: iSCSIConnection
  defines "mx \<equiv> max_receive_data_segment_length (conn_parameter c)"
  assumes "divide_round_up e mx = Inr n"
  shows "iscsi_request_data_in_send c tag e t
    = data_in_loop (nat (sint e) + 1 + k) c tag e mx (iscsi_target_buffer t) 0 0"
proof -
  have "mx \<noteq> 0" using assms(2) by (auto simp: divide_round_up_def c_div_def)
  moreover have "nat (sint e) + 1 \<le> 2147483648" using sint_bounds [of e] by simp
  ultimately have "fueled (data_in_loop (nat (sint e) + 1) c tag e mx (iscsi_target_buffer t) (word_of_nat 0) 0)"
    by (intro data_in_loop_fueled) simp_all
  then have "data_in_loop (nat (sint e) + 1 + k) c tag e mx (iscsi_target_buffer t) 0 0
      = data_in_loop (nat (sint e) + 1) c tag e mx (iscsi_target_buffer t) 0 0"
    by (intro data_in_loop_more) simp
  then show ?thesis
    using assms(2) by (simp add: iscsi_request_data_in_send_def mx_def)
qed

lemma fueled_data_in_send: "fueled (iscsi_request_data_in_send c tag e t)"
proof (cases "max_receive_data_segment_length (conn_parameter c) = 0")
  case True
  then show ?thesis by (simp add: iscsi_request_data_in_send_def divide_round_up_def c_div_def Let_def)
next
  case False
  have "nat (sint e) + 1 \<le> 2147483648" using sint_bounds [of e] by simp
  then have "fueled (data_in_loop (nat (sint e) + 1) c tag e (max_receive_data_segment_length (conn_parameter c))
      (iscsi_target_buffer t) (word_of_nat 0) 0)"
    using False by (intro data_in_loop_fueled) simp_all
  then show ?thesis
    by (auto simp: iscsi_request_data_in_send_def divide_round_up_def c_div_def Let_def intro!: fueled_bind)
qed

section \<open>The whole processing of a PDU\<close>

lemma fueled_lock [fueled]: "fueled (iscsi_buffer_acquire_lock_for_length b len)"
  unfolding iscsi_buffer_acquire_lock_for_length_def iscsi_buffer_acquire_lock_def
  by (auto intro!: fueled)

lemma fueled_flush_loop [fueled]: "fueled (flush_loop m i k n)"
  by (induction k arbitrary: m i) auto

lemma fueled_buffer [fueled]: "fueled (iscsi_buffer_flush b len)" "fueled (iscsi_buffer_receive b q len)"
  unfolding iscsi_buffer_flush_def iscsi_buffer_receive_def iscsi_buffer_acquire_lock_def
  by (auto intro!: fueled split: option.splits)

lemma fueled_strlen [fueled]: "fueled (c_strlen q)"
proof (induction q rule: c_strlen.induct)
  case (1 q)
  then show ?case by (subst c_strlen.simps) (auto intro!: fueled_bind)
qed

lemma fueled_string_to_int_loop [fueled]: "fueled (string_to_int_loop q v)"
proof (induction q v rule: string_to_int_loop.induct)
  case (1 q v)
  then show ?case by (subst string_to_int_loop.simps) (auto simp: Let_def)
qed

lemma fueled_string_to_int [fueled]: "fueled (string_to_int q)"
  by (simp add: string_to_int_def fueled)

lemma fueled_key_equal [fueled]: "fueled (key_equal q k)"
  by (induction k arbitrary: q) (auto intro!: fueled)

lemma fueled_when_key [fueled]: "(\<And>p. fueled (act p)) \<Longrightarrow> fueled (when_key q k act p)"
  by (auto simp: when_key_def intro!: fueled)

lemma fueled_yes_or [fueled]: "fueled (yes_or q d)"
  by (auto simp: yes_or_def intro!: fueled)

lemma fueled_update_information [fueled]: "fueled (update_information p q v)"
  unfolding update_information_def by (intro fueled)

lemma fueled_parameter_update [fueled]: "fueled (iscsi_connection_parameter_update p q v)"
  unfolding iscsi_connection_parameter_update_def iscsi_connection_parameter_write_def by (intro fueled)

lemma fueled_update_one [fueled]: "fueled (update_int k g p)" "fueled (update_bool k g p)"
  by (simp_all add: update_int_def update_bool_def fueled)

lemma fueled_generate [fueled]: "fueled (iscsi_connection_parameter_generate_operational_data p)"
  unfolding iscsi_connection_parameter_generate_operational_data_def by (intro fueled)

lemma fueled_create_loop [fueled]: "fueled (create_loop p q k i n)"
proof (induction n arbitrary: p q k i)
  case (Suc n)
  then show ?case by (subst create_loop.simps) (auto simp: Let_def intro!: fueled)
qed simp

lemma fueled_create [fueled]: "fueled (iscsi_connection_parameter_create p q len)"
  unfolding iscsi_connection_parameter_create_def Let_def by (intro fueled)

lemma fueled_get_loop [fueled]: "fueled (get_loop q k i n sy ct v)"
  by (induction n arbitrary: i sy ct v) (auto simp: Let_def intro!: fueled)

lemma fueled_get [fueled]: "fueled (iscsi_parameter_get q len k)" "fueled (iscsi_connection_parameter_get p k)"
  by (simp_all add: iscsi_connection_parameter_get_def iscsi_parameter_get_def fueled)

lemma fueled_vendor_loop [fueled]: "fueled (vendor_loop q i n)"
  by (induction n arbitrary: i)
    (auto simp: iscsi_connection_parameter_is_vendor_specific_def intro!: fueled)

lemma fueled_vendor [fueled]: "fueled (iscsi_connection_parameter_vendor_specific p)"
  unfolding iscsi_connection_parameter_vendor_specific_def iscsi_connection_parameter_is_vendor_specific_def
  by (auto intro!: fueled)

lemma fueled_case [fueled]:
  "(\<And>x y. q = (x, y) \<Longrightarrow> fueled (f x y)) \<Longrightarrow> fueled (case q of (x, y) \<Rightarrow> f x y)"
  "(P \<Longrightarrow> fueled a) \<Longrightarrow> (\<not> P \<Longrightarrow> fueled b) \<Longrightarrow> fueled (if P then a else b)"
  by (auto split: prod.splits)

lemma fueled_pointers [fueled]: "fueled (the_session w)" "fueled (the_target w)"
  by (auto simp: the_target_def the_session_def intro!: fueled_bind split: session_ptr.splits target_ptr.splits)

lemma fueled_control [fueled]:
  "fueled (iscsi_request_reject c r d len)" "fueled (iscsi_request_logout_process c)"
  "fueled (iscsi_request_nop_out_process c)" "fueled (iscsi_request_text_process s c)"
proof -
  show r: "fueled (iscsi_request_reject c r d len)" for c r d len
    unfolding iscsi_request_reject_def Let_def by (auto intro!: fueled split: option.splits)
  show "fueled (iscsi_request_logout_process c)"
    unfolding iscsi_request_logout_process_def Let_def by (auto intro!: fueled r)
  show "fueled (iscsi_request_nop_out_process c)"
    unfolding iscsi_request_nop_out_process_def Let_def by (auto intro!: fueled)
  show "fueled (iscsi_request_text_process s c)"
    unfolding iscsi_request_text_process_def Let_def by (auto intro!: fueled)
qed

lemma fueled_login_responses [fueled]:
  "fueled (response_partial_login c)" "fueled (response_status_only c st)"
  "fueled (response_final_with_parameters s c st q len)" "fueled (iscsi_request_login_reject w)"
  unfolding response_partial_login_def response_status_only_def response_final_with_parameters_def
    iscsi_request_login_reject_def Let_def
  by (auto intro!: fueled)

lemma fueled_with_connection [fueled]: "fueled r \<Longrightarrow> fueled (with_connection w r)"
  by (auto simp: with_connection_def intro!: fueled)

lemma fueled_final_login [fueled]: "fueled (response_final_login w)"
  unfolding response_final_login_def enter_full_feature_phase_def Let_def by (auto intro!: fueled)

lemma fueled_setup [fueled]: "fueled (setup_session os w)"
  unfolding setup_session_def iscsi_session_create_def iscsi_target_create_default_def c_strcmp_eq_def Let_def
  by (auto intro!: fueled split: option.splits)

lemma fueled_login [fueled]: "fueled (iscsi_request_login_process os w)"
  unfolding iscsi_request_login_process_def Let_def by (auto intro!: fueled)

lemma fueled_r2t [fueled]: "fueled (iscsi_request_r2t_send c a b d e g)"
  unfolding iscsi_request_r2t_send_def Let_def by (auto intro!: fueled)

lemma fueled_r2t_loop [fueled]: "fueled (r2t_loop k c a b d e i off)"
  by (induction k arbitrary: c i off) (auto intro!: fueled)

lemma fueled_send_response [fueled]: "fueled (iscsi_request_cmd_send_response w)"
  unfolding iscsi_request_cmd_send_response_def iscsi_request_cmd_set_sense_buffer_def Let_def
  by (auto intro!: fueled split: option.splits)

lemma fueled_execute [fueled]:
  "fueled (iscsi_session_execute_command os w q)" "fueled (iscsi_session_execute_transfer_entry os w e)"
  unfolding iscsi_session_execute_transfer_entry_def iscsi_session_execute_command_def Let_def
  by (auto intro!: fueled)

lemma fueled_scsi [fueled]:
  "fueled (iscsi_request_cmd_process os w)" "fueled (iscsi_request_data_out_process os w)"
  unfolding iscsi_request_cmd_process_def iscsi_request_data_out_process_def iscsi_transfer_entry_create_def
    divide_round_up_def c_div_def Let_def
  by (auto intro!: fueled fueled_data_in_send split: option.splits)

lemma fueled_server [fueled]: "fueled (iscsi_server_process os w)"
  unfolding iscsi_server_process_def Let_def by (auto intro!: fueled)

lemma fueled_incoming: "fueled (incoming_request os w q len)"
  unfolding incoming_request_def Let_def by (auto intro!: fueled)

end
