(* ===== verification/Iscsi_Main.thy ===== *)
theory Iscsi_Main
  imports Iscsi_Invariant
begin

text \<open>
  The two threads that \<^verbatim>\<open>main.c\<close> starts for a connection. \<open>start_receiver\<close> hands what \<open>recv\<close> returned
  to \<open>incoming_request\<close>, \<open>start_transmit\<close> sends the first PDU of the response buffer and removes it.
  A state of the process is the world, which threads still run, the bytes the peer has still to give
  and the bytes handed to the network; a step is one round of one of the loops. A round whose calls
  would wait (\<open>Blocked\<close>) is no step: the other thread has to act first.
\<close>

section \<open>One round of each thread\<close>

definition BUFFER_SIZE :: nat where
  [simp]: "BUFFER_SIZE = 256"

text \<open>The local array of the receiver after \<open>recv\<close> wrote the piece into it.\<close>

definition recv_ptr :: "byte list \<Rightarrow> cptr" where
  "recv_ptr piece = \<lparr>blk = mem_of piece, bsz = BUFFER_SIZE, pos = 0\<rparr>"

text \<open>The truth value tells whether the loop goes on.\<close>

definition receive_round :: "'d os \<Rightarrow> 'd world \<Rightarrow> byte list \<Rightarrow> (bool \<times> 'd world) result" where
  "receive_round os w piece =
     bindR (incoming_request os w (recv_ptr piece) (word_of_nat (length piece))) (\<lambda>(st, w).
       Inr (st \<noteq> pdu_status_value SOCKET_TERMINATE, w))"

text \<open>
  \<open>send\<close> is given the bytes and tells how many it took, or a negative number; the code uses the sign
  only. After an error the loop is left with the semaphore still held.
\<close>

definition transmit_round ::
  "(byte list \<Rightarrow> cint) \<Rightarrow> 'd world \<Rightarrow> (bool \<times> 'd world \<times> byte list) result" where
  "transmit_round send w =
     (let c = connection w; b = response_buffer c in
      if iscsi_pdu_valid (bdata b) 0 (iscsi_buffer_length b) then
        (let len = iscsi_pdu_length (bdata b) 0 in
         bindR (iscsi_buffer_acquire_lock b) (\<lambda>b.
           let pdu = bytes_of (bdata b) 0 (nat (sint len)); n = send pdu in
           if sint n < 0 then Inr (False, w\<lparr>connection := c\<lparr>response_buffer := b\<rparr>\<rparr>, [])
           else
             bindR (iscsi_buffer_flush (iscsi_buffer_release_lock b 0) len) (\<lambda>b.
               Inr (True, w\<lparr>connection := c\<lparr>response_buffer := b\<rparr>\<rparr>, take (nat (sint n)) pdu))))
      else Inr (True, w, []))"

section \<open>The process as a step relation\<close>

record 'd process =
  proc_world :: "'d world"
  receiving :: bool
  transmitting :: bool
  to_receive :: "byte list"
  sent :: "byte list"

inductive step :: "'d os \<Rightarrow> 'd process \<Rightarrow> 'd process \<Rightarrow> bool" for os where
  step_receive: "receiving p \<Longrightarrow> to_receive p = piece @ rest \<Longrightarrow> length piece \<le> BUFFER_SIZE
    \<Longrightarrow> piece = [] \<longrightarrow> rest = [] \<Longrightarrow> receive_round os (proc_world p) piece = Inr (go, w)
    \<Longrightarrow> step os p (p\<lparr>proc_world := w, receiving := go, to_receive := rest\<rparr>)"
| step_receive_error: "receiving p \<Longrightarrow> step os p (p\<lparr>receiving := False\<rparr>)"
| step_transmit: "transmitting p \<Longrightarrow> transmit_round send (proc_world p) = Inr (go, w, out)
    \<Longrightarrow> step os p (p\<lparr>proc_world := w, transmitting := go, sent := sent p @ out\<rparr>)"

inductive reachable :: "'d os \<Rightarrow> 'd process \<Rightarrow> 'd process \<Rightarrow> bool" for os p where
  reachable_start: "reachable os p p"
| reachable_step: "reachable os p q \<Longrightarrow> step os q r \<Longrightarrow> reachable os p r"

text \<open>
  The process right after \<open>fork\<close>: the connection object of \<open>main\<close>, the two globals still zero.
  \<open>iscsi_buffer_new\<close> leaves the lengths as \<open>malloc\<close> gave them; the program relies on them being 0.
\<close>

definition fresh :: "'d world \<Rightarrow> bool" where
  "fresh w \<longleftrightarrow> (\<exists>c socket. connection w = iscsi_connection_create c socket NoSession
       \<and> blength (receive_buffer c) = 0 \<and> blength (response_buffer c) = 0)
     \<and> num_connections (default_session w) = 0 \<and> session_max_connections (default_session w) = 0
     \<and> is_full_feature_phase (default_session w) = 0 \<and> command_numbering_start (default_session w) = 0
     \<and> r2t_sn (transfer_entry (default_session w)) = 0 \<and> total_r2t_sn (transfer_entry (default_session w)) = 0"

lemma fresh_ok: "fresh w \<Longrightarrow> world_ok w"
  by (auto simp: fresh_def world_ok_def iscsi_connection_create_def iscsi_buffer_new_def buffer_ok_def
      iscsi_session_full_def)

section \<open>The receiver keeps the invariant\<close>

lemma recv_ptr_bytes: "length piece \<le> 256 \<Longrightarrow> bytes_of (blk (recv_ptr piece)) (pos (recv_ptr piece)) (length piece) = piece"
  by (rule nth_equalityI) (auto simp: recv_ptr_def mem_of_def)

lemma receive_round_room:
  assumes "world_ok w" "length piece \<le> 256" "receive_round os w piece = Inr (go, w')"
  shows "room (receive_buffer (connection w)) (length piece)"
proof (rule ccontr)
  assume "\<not> room (receive_buffer (connection w)) (length piece)"
  moreover have "sint (word_of_nat (length piece) :: cint) = int (length piece)"
    using assms(2) by (intro sint_of_nat) simp
  ultimately have "incoming_request os w (recv_ptr piece) (word_of_nat (length piece)) = Inl Blocked"
    using assms(1,2) by (intro incoming_blocked) (auto simp: room_def world_ok_def)
  with assms(3) show False by (simp add: receive_round_def)
qed

lemma receive_round_progress:
  assumes "world_ok w" "length piece \<le> 256" "receive_round os w piece = Inr (go, w')"
  shows "world_ok w' \<and> contents (receive_buffer (connection w')) = consumed (contents (receive_buffer (connection w)) @ piece)
    \<and> (is_full_feature_phase (default_session w) \<noteq> 0 \<longrightarrow> is_full_feature_phase (default_session w') \<noteq> 0)
    \<and> (device w' = device w \<or> driven os (device w) (device w') \<and> is_full_feature_phase (default_session w) \<noteq> 0)
    \<and> (no_r2t_left (transfer_entry (default_session w))
        \<longrightarrow> no_r2t_left (transfer_entry (default_session w')))"
proof -
  obtain st where st: "incoming_request os w (recv_ptr piece) (word_of_nat (length piece)) = Inr (st, w')"
    using assms(3) by (auto simp: receive_round_def)
  have l: "sint (word_of_nat (length piece) :: cint) = int (length piece)"
    using assms(2) by (intro sint_of_nat) simp
  note r = receive_round_room [OF assms]
  have "pos (recv_ptr piece) + length piece \<le> bsz (recv_ptr piece)"
    using assms(2) by (simp add: recv_ptr_def)
  from incoming_progress [OF assms(1) r l this st] show ?thesis
    using recv_ptr_bytes [OF assms(2)] by simp
qed

section \<open>The transmitter sends one frame\<close>

lemma plen_frame:
  assumes "contents b = f @ rest" "frame f" "48 \<le> length f"
  shows "plen (bdata b) 0 = length f"
proof -
  have len: "fill b = length f + length rest" using assms(1) by (metis length_append length_contents)
  have nth: "bdata b i = f ! i" if "i < length f" for i
  proof -
    have "contents b ! i = f ! i" using assms(1) that by (simp add: nth_append)
    then show ?thesis using that len by (simp add: contents_def)
  qed
  have "plen (bdata b) 0 = plen (mem_of f) 0"
    using assms(3) by (intro plen_cong) (simp add: nth mem_of_def)
  with assms(2) show ?thesis by (simp add: frame_def)
qed

lemma frame_length: "frame f \<Longrightarrow> 48 \<le> length f"
  using plen_bounds(1) [of "mem_of f" 0] by (simp add: frame_def)

lemma transmit_frame:
  assumes b: "buffer_ok (response_buffer (connection w))"
    and c: "contents (response_buffer (connection w)) = f @ rest" and f: "frame f"
    and s: "0 \<le> sint (send f)"
  obtains b' where "transmit_round send w =
      Inr (True, w\<lparr>connection := (connection w)\<lparr>response_buffer := b'\<rparr>\<rparr>, take (nat (sint (send f))) f)"
    "buffer_ok b'" "contents b' = rest"
proof -
  let ?b = "response_buffer (connection w)"
  have p: "plen (bdata ?b) 0 = length f" by (rule plen_frame [OF c f frame_length [OF f]])
  have len: "fill ?b = length f + length rest" using c by (metis length_append length_contents)
  then have fl: "plen (bdata ?b) 0 \<le> fill ?b" using p by simp
  from flush_ok [OF b sint_pdu_length fl] obtain b' where b': "iscsi_buffer_flush ?b (iscsi_pdu_length (bdata ?b) 0) = Inr b'"
    "buffer_ok b'" "contents b' = drop (plen (bdata ?b) 0) (contents ?b)"
    by blast
  have valid: "iscsi_pdu_valid (bdata ?b) 0 (iscsi_buffer_length ?b)"
    using fl b by (simp add: pdu_valid_iff iscsi_buffer_length_def sint_fill)
  have lock: "iscsi_buffer_acquire_lock ?b = Inr (?b\<lparr>block := 0\<rparr>)"
    "iscsi_buffer_release_lock (?b\<lparr>block := 0\<rparr>) 0 = ?b"
    using b by (simp_all add: iscsi_buffer_acquire_lock_def iscsi_buffer_release_lock_def buffer_ok_def)
  have pdu: "bytes_of (bdata ?b) 0 (length f) = f"
    using c len take_bytes_of [of "length f" "fill ?b" "bdata ?b" 0] by (simp add: contents_def)
  have "transmit_round send w =
      Inr (True, w\<lparr>connection := (connection w)\<lparr>response_buffer := b'\<rparr>\<rparr>, take (nat (sint (send f))) f)"
    using s b'(1) by (simp add: transmit_round_def Let_def valid lock sint_pdu_length p pdu)
  with that b'(2,3) c p show thesis by simp
qed

text \<open>Rounds of the transmitter alone, as long as \<open>send\<close> does not fail, and what they send.\<close>

fun transmit_rounds ::
  "nat \<Rightarrow> (byte list \<Rightarrow> cint) \<Rightarrow> 'd world \<Rightarrow> ('d world \<times> byte list) result" where
  "transmit_rounds 0 send w = Inr (w, [])"
| "transmit_rounds (Suc k) send w =
     bindR (transmit_round send w) (\<lambda>(go, w, out).
       if go then bindR (transmit_rounds k send w) (\<lambda>(w, outs). Inr (w, out @ outs)) else Inr (w, out))"

text \<open>What the network takes of a message; the transmitter never sends the rest.\<close>

definition taken :: "(byte list \<Rightarrow> cint) \<Rightarrow> byte list \<Rightarrow> byte list" where
  "taken send f = take (nat (sint (send f))) f"

lemma transmit_series_taken:
  assumes "buffer_ok (response_buffer (connection w))"
    "contents (response_buffer (connection w)) = concat fs @ rest" "\<forall>f \<in> set fs. frame f"
    "\<forall>f \<in> set fs. 0 \<le> sint (send f)"
  shows "\<exists>w'. transmit_rounds (length fs) send w = Inr (w', concat (map (taken send) fs))
    \<and> buffer_ok (response_buffer (connection w')) \<and> contents (response_buffer (connection w')) = rest"
  using assms
proof (induction fs arbitrary: w)
  case (Cons f fs)
  have c: "contents (response_buffer (connection w)) = f @ (concat fs @ rest)" using Cons.prems(2) by simp
  have f: "frame f" "0 \<le> sint (send f)" using Cons.prems(3,4) by simp_all
  from transmit_frame [where send = send, OF Cons.prems(1) c f] obtain b' where b': "transmit_round send w =
      Inr (True, w\<lparr>connection := (connection w)\<lparr>response_buffer := b'\<rparr>\<rparr>, taken send f)"
    "buffer_ok b'" "contents b' = concat fs @ rest"
    unfolding taken_def by blast
  let ?w = "w\<lparr>connection := (connection w)\<lparr>response_buffer := b'\<rparr>\<rparr>"
  obtain w' where "transmit_rounds (length fs) send ?w = Inr (w', concat (map (taken send) fs))"
    "buffer_ok (response_buffer (connection w'))" "contents (response_buffer (connection w')) = rest"
    using Cons.IH [of ?w] b' Cons.prems by auto
  then show ?case using b'(1) by simp
qed simp

lemma transmit_series:
  assumes "buffer_ok (response_buffer (connection w))"
    "contents (response_buffer (connection w)) = concat fs @ rest" "\<forall>f \<in> set fs. frame f"
    and full: "\<forall>f \<in> set fs. send f = word_of_nat (length f)"
  shows "\<exists>w'. transmit_rounds (length fs) send w = Inr (w', concat fs)
    \<and> buffer_ok (response_buffer (connection w')) \<and> contents (response_buffer (connection w')) = rest"
proof -
  have s: "sint (send f) = int (length f)" if "f \<in> set fs" for f
  proof -
    have "length f < 2147483648"
      using plen_bounds(3) [of "mem_of f" 0] assms(3) that by (simp add: frame_def)
    then show ?thesis using full that by (simp add: sint_of_nat)
  qed
  then have "map (taken send) fs = fs" by (intro map_idI) (simp add: taken_def)
  with transmit_series_taken [where send = send, OF assms(1-3)] s show ?thesis by simp
qed

lemma transmit_failure:
  assumes b: "buffer_ok (response_buffer (connection w))"
    and c: "complete (contents (response_buffer (connection w)))"
    and s: "\<forall>bs. sint (send bs) < 0"
  obtains w' where "transmit_round send w = Inr (False, w', [])"
    "block (response_buffer (connection w')) = 0"
proof -
  let ?b = "response_buffer (connection w)"
  have "iscsi_pdu_valid (bdata ?b) 0 (iscsi_buffer_length ?b)" using b c by (simp add: complete_contents)
  moreover have "iscsi_buffer_acquire_lock ?b = Inr (?b\<lparr>block := 0\<rparr>)"
    using b by (simp add: iscsi_buffer_acquire_lock_def buffer_ok_def)
  ultimately show thesis
    using s by (intro that [of "w\<lparr>connection := (connection w)\<lparr>response_buffer := ?b\<lparr>block := 0\<rparr>\<rparr>\<rparr>"])
      (simp_all add: transmit_round_def Let_def)
qed

lemma held_lock_blocks:
  "block (response_buffer c) = 0 \<Longrightarrow> sint len \<le> 4194304 \<Longrightarrow> response_acquire c len = Inl Blocked"
  by (simp add: response_acquire_def acquire_no_lock)

section \<open>Reachable states\<close>

lemma transmit_round_progress:
  assumes "world_ok w" "transmit_round send w = Inr (go, w', out)"
  shows "default_session w' = default_session w \<and> device w' = device w
    \<and> receive_buffer (connection w') = receive_buffer (connection w) \<and> (go \<longrightarrow> world_ok w')"
proof (cases "iscsi_pdu_valid (bdata (response_buffer (connection w))) 0 (iscsi_buffer_length (response_buffer (connection w)))")
  case False
  with assms show ?thesis by (simp add: transmit_round_def Let_def)
next
  case True
  let ?b = "response_buffer (connection w)"
  have b: "buffer_ok ?b" using assms(1) by (simp add: world_ok_def)
  have "plen (bdata ?b) 0 \<le> fill ?b"
    using True b by (simp add: pdu_valid_iff iscsi_buffer_length_def sint_fill)
  from flush_ok [OF b sint_pdu_length this] obtain b' where b': "iscsi_buffer_flush ?b (iscsi_pdu_length (bdata ?b) 0) = Inr b'"
    "buffer_ok b'" by blast
  have lock: "iscsi_buffer_acquire_lock ?b = Inr (?b\<lparr>block := 0\<rparr>)"
    "iscsi_buffer_release_lock (?b\<lparr>block := 0\<rparr>) 0 = ?b"
    using b by (simp_all add: iscsi_buffer_acquire_lock_def iscsi_buffer_release_lock_def buffer_ok_def)
  have "world_ok (w\<lparr>connection := (connection w)\<lparr>response_buffer := b'\<rparr>\<rparr>)"
    using assms(1) b'(2) by (simp add: world_ok_def split: session_ptr.splits)
  then show ?thesis
    using assms(2) True b'(1) lock by (auto simp: transmit_round_def Let_def split: if_splits)
qed

text \<open>
  The device is not touched before the full feature phase; while the transmitter runs, both
  buffers are free and in bounds, the session of the connection has its target, and the transfer entry
  has no R2T left.
\<close>

definition safe :: "'d \<Rightarrow> 'd process \<Rightarrow> bool" where
  "safe d p \<longleftrightarrow> (transmitting p \<longrightarrow> world_ok (proc_world p)
     \<and> no_r2t_left (transfer_entry (default_session (proc_world p)))
     \<and> (is_full_feature_phase (default_session (proc_world p)) = 0 \<longrightarrow> device (proc_world p) = d))"

lemma safe_step:
  assumes "step os p q" "safe d p"
  shows "safe d q"
  using assms(1)
proof (cases rule: step.cases)
  case (step_receive piece rest go w)
  then show ?thesis
    using assms(2) receive_round_progress [of "proc_world p" piece os go w] by (auto simp: safe_def)
next
  case (step_transmit send go w out)
  then show ?thesis
    using assms(2) transmit_round_progress [of "proc_world p" send go w out] by (auto simp: safe_def)
qed (use assms(2) in \<open>simp add: safe_def\<close>)

interpretation process: step_invariant "step os" "safe d" for os and d
  by unfold_locales (rule safe_step)

lemma reachable_steps: "reachable os p q \<longleftrightarrow> (step os)\<^sup>*\<^sup>* p q"
proof
  show "reachable os p q \<Longrightarrow> (step os)\<^sup>*\<^sup>* p q"
    by (induction rule: reachable.induct) (auto intro: rtranclp.rtrancl_into_rtrancl)
  show "(step os)\<^sup>*\<^sup>* p q \<Longrightarrow> reachable os p q"
    by (induction rule: rtranclp_induct) (auto intro: reachable.intros)
qed

lemma reachable_trans: "reachable os q r \<Longrightarrow> reachable os p q \<Longrightarrow> reachable os p r"
  unfolding reachable_steps by (rule rtranclp_trans)

lemma safe_reachable: "reachable os p q \<Longrightarrow> safe d p \<Longrightarrow> safe d q"
  unfolding reachable_steps by (rule process.always)

lemma fresh_safe: "fresh (proc_world p) \<Longrightarrow> safe (device (proc_world p)) p"
  by (simp add: safe_def fresh_ok) (simp add: fresh_def no_r2t_left_def)

end
