(* ===== verification/Iscsi_Interleaving.thy ===== *)
theory Iscsi_Interleaving
  imports Iscsi_Main
begin

text \<open>
  The two threads of a connection on the response buffer, statement by statement. The transmitter
  (\<open>start_transmit\<close> of \<^verbatim>\<open>main.c\<close>) reads the length and the header without the semaphore, takes it for
  \<open>send\<close>, gives it back and takes it again in \<open>iscsi_buffer_flush\<close>; as long as the buffer holds no
  complete PDU it polls. A handler asks for space in \<open>iscsi_buffer_acquire_lock_for_length\<close> by taking
  the semaphore, and gives it back to ask again when the space is missing; with the space it writes
  its answer and gives the semaphore back in \<open>iscsi_buffer_release_lock\<close>. A step of
  \<open>transmitter_step\<close> or \<open>handler_step\<close> is one such statement, and \<open>interleaved\<close> is a step of either
  thread. The lemmas show that the buffer is still a channel of whole messages, that the semaphore is
  held by one thread at most, and that a step of either thread that neither polls nor asks again for
  space nor writes bytes brings the connection further.
\<close>

section \<open>The two threads\<close>

datatype transmitter_pc = CHECKING | MEASURING | LOCKING cint | SENDING cint | RELEASING cint | FLUSHING cint | STOPPED

datatype handler_pc = WAITING | TESTING | WRITING nat

text \<open>
  The shared buffer, the place of each thread, the answers the receiver thread has still to give and
  the bytes handed to the network.
\<close>

record line =
  line_buffer :: iSCSIBuffer
  transmitter :: transmitter_pc
  handler :: handler_pc
  answers :: "byte list list"
  wire :: "byte list"

text \<open>
  The transmitter: a round of its loop without a complete PDU (\<open>poll\<close>) only comes back to the test.
\<close>

inductive transmitter_step :: "(byte list \<Rightarrow> cint) \<Rightarrow> line \<Rightarrow> line \<Rightarrow> bool" for send where
  poll: "transmitter s = CHECKING
    \<Longrightarrow> \<not> iscsi_pdu_valid (bdata (line_buffer s)) 0 (iscsi_buffer_length (line_buffer s))
    \<Longrightarrow> transmitter_step send s s"
| check: "transmitter s = CHECKING
    \<Longrightarrow> iscsi_pdu_valid (bdata (line_buffer s)) 0 (iscsi_buffer_length (line_buffer s))
    \<Longrightarrow> transmitter_step send s (s\<lparr>transmitter := MEASURING\<rparr>)"
| read_length: "transmitter s = MEASURING
    \<Longrightarrow> transmitter_step send s (s\<lparr>transmitter := LOCKING (iscsi_pdu_length (bdata (line_buffer s)) 0)\<rparr>)"
| take_lock: "transmitter s = LOCKING len \<Longrightarrow> iscsi_buffer_acquire_lock (line_buffer s) = Inr b
    \<Longrightarrow> transmitter_step send s (s\<lparr>line_buffer := b, transmitter := SENDING len\<rparr>)"
| transmit: "transmitter s = SENDING len \<Longrightarrow> pdu = bytes_of (bdata (line_buffer s)) 0 (nat (sint len))
    \<Longrightarrow> 0 \<le> sint (send pdu)
    \<Longrightarrow> transmitter_step send s
          (s\<lparr>transmitter := RELEASING len, wire := wire s @ take (nat (sint (send pdu))) pdu\<rparr>)"
| fail: "transmitter s = SENDING len \<Longrightarrow> sint (send (bytes_of (bdata (line_buffer s)) 0 (nat (sint len)))) < 0
    \<Longrightarrow> transmitter_step send s (s\<lparr>transmitter := STOPPED\<rparr>)"
| give_back: "transmitter s = RELEASING len
    \<Longrightarrow> transmitter_step send s
          (s\<lparr>line_buffer := iscsi_buffer_release_lock (line_buffer s) 0, transmitter := FLUSHING len\<rparr>)"
| flush: "transmitter s = FLUSHING len \<Longrightarrow> iscsi_buffer_flush (line_buffer s) len = Inr b
    \<Longrightarrow> transmitter_step send s (s\<lparr>line_buffer := b, transmitter := CHECKING\<rparr>)"

text \<open>
  A handler with the answer \<open>f\<close>. The loop of \<open>iscsi_buffer_acquire_lock_for_length\<close>: the semaphore is taken,
  the space tested, and without it the semaphore given back (\<open>retry\<close>); with it, \<open>memset\<close> clears the
  space. Then the handler may write the memory from its position on, in any order and any number of
  steps, and commits when its answer is there.
\<close>

inductive handler_step :: "line \<Rightarrow> line \<Rightarrow> bool" where
  lock: "handler s = WAITING \<Longrightarrow> answers s = f # fs
    \<Longrightarrow> \<not> sint (word_of_nat (length f) :: cint) > ISCSI_BUFFER_SIZE
    \<Longrightarrow> iscsi_buffer_acquire_lock (line_buffer s) = Inr b
    \<Longrightarrow> handler_step s (s\<lparr>line_buffer := b, handler := TESTING\<rparr>)"
| retry: "handler s = TESTING \<Longrightarrow> answers s = f # fs
    \<Longrightarrow> sint (iscsi_buffer_free_space (line_buffer s)) < sint (word_of_nat (length f) :: cint)
    \<Longrightarrow> handler_step s (s\<lparr>line_buffer := iscsi_buffer_release_lock (line_buffer s) 0, handler := WAITING\<rparr>)"
| allocate: "handler s = TESTING \<Longrightarrow> answers s = f # fs
    \<Longrightarrow> \<not> sint (iscsi_buffer_free_space (line_buffer s)) < sint (word_of_nat (length f) :: cint)
    \<Longrightarrow> c_memset (bdata (line_buffer s)) ISCSI_BUFFER_SIZE (sint (blength (line_buffer s))) 0
          (sint (word_of_nat (length f) :: cint)) = Inr m
    \<Longrightarrow> handler_step s (s\<lparr>line_buffer := (line_buffer s)\<lparr>bdata := m\<rparr>,
          handler := WRITING (nat (sint (blength (line_buffer s))))\<rparr>)"
| put: "handler s = WRITING p \<Longrightarrow> \<forall>i < p. m i = bdata (line_buffer s) i
    \<Longrightarrow> handler_step s (s\<lparr>line_buffer := (line_buffer s)\<lparr>bdata := m\<rparr>\<rparr>)"
| commit: "handler s = WRITING p \<Longrightarrow> answers s = f # fs
    \<Longrightarrow> bytes_of (bdata (line_buffer s)) p (length f) = f
    \<Longrightarrow> handler_step s (s\<lparr>line_buffer := iscsi_buffer_release_lock (line_buffer s) (word_of_nat (length f)),
          handler := WAITING, answers := fs\<rparr>)"

inductive interleaved :: "(byte list \<Rightarrow> cint) \<Rightarrow> line \<Rightarrow> line \<Rightarrow> bool" for send where
  transmits: "transmitter_step send s t \<Longrightarrow> interleaved send s t"
| handles: "handler_step s t \<Longrightarrow> interleaved send s t"

abbreviation runs :: "(byte list \<Rightarrow> cint) \<Rightarrow> line \<Rightarrow> line \<Rightarrow> bool" where
  "runs send \<equiv> (interleaved send)\<^sup>*\<^sup>*"

definition idle :: "iSCSIBuffer \<Rightarrow> byte list list \<Rightarrow> byte list \<Rightarrow> line" where
  "idle b fs out = \<lparr>line_buffer = b, transmitter = CHECKING, handler = WAITING, answers = fs, wire = out\<rparr>"

lemma idle_sel [simp]:
  "line_buffer (idle b fs out) = b" "transmitter (idle b fs out) = CHECKING" "handler (idle b fs out) = WAITING"
  "answers (idle b fs out) = fs" "wire (idle b fs out) = out"
  by (simp_all add: idle_def)

text \<open>
  The loop as the single operation that the handlers of the model call: when the operation succeeds it is
  \<open>lock\<close> and \<open>allocate\<close>; when it is \<open>Blocked\<close>, the handler cannot take the semaphore, or \<open>lock\<close> and \<open>retry\<close>
  bring it back to the same state, as often as it likes, until the other thread acts.
\<close>

lemma runs_transmits: "transmitter_step send s t \<Longrightarrow> runs send s t"
  by (rule r_into_rtranclp) (rule transmits)

lemma runs_handles: "handler_step s t \<Longrightarrow> runs send s t"
  by (rule r_into_rtranclp) (rule handles)

lemma acquire_is_steps:
  assumes pc: "handler s = WAITING" "answers s = f # fs"
    and b: "iscsi_buffer_acquire_lock_for_length (line_buffer s) (word_of_nat (length f)) = Inr (Some p, b)"
  shows "\<exists>u. handler_step s u \<and> handler_step u (s\<lparr>line_buffer := b, handler := WRITING p\<rparr>)"
proof -
  have n: "\<not> sint (word_of_nat (length f) :: cint) > ISCSI_BUFFER_SIZE"
    using b by (auto simp: iscsi_buffer_acquire_lock_for_length_def)
  with b obtain b1 m where b1: "iscsi_buffer_acquire_lock (line_buffer s) = Inr b1"
    "\<not> sint (iscsi_buffer_free_space b1) < sint (word_of_nat (length f) :: cint)"
    "c_memset (bdata b1) ISCSI_BUFFER_SIZE (sint (blength b1)) 0 (sint (word_of_nat (length f) :: cint)) = Inr m"
    "p = nat (sint (blength b1))" "b = b1\<lparr>bdata := m\<rparr>"
    by (auto simp: iscsi_buffer_acquire_lock_for_length_def split: if_splits elim!: bindR_InrE)
  let ?u = "s\<lparr>line_buffer := b1, handler := TESTING\<rparr>"
  have "handler_step ?u (s\<lparr>line_buffer := b, handler := WRITING p\<rparr>)"
    using allocate [of ?u f fs m] pc b1 by simp
  with lock [OF pc n b1(1)] show ?thesis by blast
qed

lemma blocked_is_retry:
  assumes pc: "handler s = WAITING" "answers s = f # fs" and free: "block (line_buffer s) \<noteq> 0"
    and b: "iscsi_buffer_acquire_lock_for_length (line_buffer s) (word_of_nat (length f)) = Inl Blocked"
  shows "\<exists>u. handler_step s u \<and> handler_step u s"
proof -
  let ?b = "line_buffer s" and ?b1 = "(line_buffer s)\<lparr>block := block (line_buffer s) - 1\<rparr>"
  have l: "iscsi_buffer_acquire_lock ?b = Inr ?b1" using free by (simp add: iscsi_buffer_acquire_lock_def)
  have n: "\<not> sint (word_of_nat (length f) :: cint) > ISCSI_BUFFER_SIZE"
    using b by (auto simp: iscsi_buffer_acquire_lock_for_length_def)
  have "sint (iscsi_buffer_free_space ?b1) < sint (word_of_nat (length f) :: cint)"
    using b n l by (auto simp: iscsi_buffer_acquire_lock_for_length_def c_memset_def bindR_eq_Inl
        split: if_splits)
  moreover have "iscsi_buffer_release_lock ?b1 0 = ?b"
    using free by (cases ?b) (simp add: iscsi_buffer_release_lock_def)
  ultimately have "handler_step (s\<lparr>line_buffer := ?b1, handler := TESTING\<rparr>) s"
    using retry [of "s\<lparr>line_buffer := ?b1, handler := TESTING\<rparr>" f fs] pc by (cases s) simp
  with lock [OF pc n l] show ?thesis by blast
qed

section \<open>The contract: a channel of messages\<close>

text \<open>The messages that wait, the answers still to come, and the bytes on the network.\<close>

type_synonym channel_state = "byte list list \<times> byte list list \<times> byte list"

inductive channel :: "(byte list \<Rightarrow> cint) \<Rightarrow> channel_state \<Rightarrow> channel_state \<Rightarrow> bool" for send where
  enqueue: "channel send (q, f # fs, out) (q @ [f], fs, out)"
| deliver: "0 \<le> sint (send f) \<Longrightarrow> channel send (f # q, fs, out) (q, fs, out @ taken send f)"

section \<open>The invariant\<close>

fun sending :: "transmitter_pc \<Rightarrow> bool" where
  "sending (SENDING len) = True"
| "sending (RELEASING len) = True"
| "sending STOPPED = True"
| "sending _ = False"

text \<open>What the transmitter knows of the first message; it is still in the buffer after it was sent.\<close>

fun at_front :: "transmitter_pc \<Rightarrow> byte list list \<Rightarrow> byte list list \<Rightarrow> bool" where
  "at_front MEASURING gone q = (q \<noteq> [])"
| "at_front (LOCKING len) gone q = (\<exists>f q'. q = f # q' \<and> sint len = int (length f))"
| "at_front (SENDING len) gone q = (\<exists>f q'. q = f # q' \<and> sint len = int (length f))"
| "at_front (RELEASING len) gone q = (gone \<noteq> [] \<and> sint len = int (length (last gone)))"
| "at_front (FLUSHING len) gone q = (gone \<noteq> [] \<and> sint len = int (length (last gone)))"
| "at_front _ gone q = True"

fun unflushed :: "transmitter_pc \<Rightarrow> byte list list \<Rightarrow> byte list list" where
  "unflushed (RELEASING len) gone = [last gone]"
| "unflushed (FLUSHING len) gone = [last gone]"
| "unflushed _ gone = []"

fun in_place :: "handler_pc \<Rightarrow> nat \<Rightarrow> byte list list \<Rightarrow> bool" where
  "in_place WAITING n fs = True"
| "in_place TESTING n fs = (fs \<noteq> [])"
| "in_place (WRITING p) n fs = (p = n \<and> fs \<noteq> [] \<and> n + length (hd fs) \<le> 4194304)"

definition line_ok :: "(byte list \<Rightarrow> cint) \<Rightarrow> line \<Rightarrow> byte list list \<Rightarrow> byte list list \<Rightarrow> bool" where
  "line_ok send s gone q \<longleftrightarrow>
     (\<forall>f \<in> set (gone @ q @ answers s). frame f) \<and> wire s = concat (map (taken send) gone)
     \<and> \<not> (sending (transmitter s) \<and> handler s \<noteq> WAITING)
     \<and> buffer_ok ((line_buffer s)\<lparr>block := 1\<rparr>)
     \<and> block (line_buffer s) = (if sending (transmitter s) \<or> handler s \<noteq> WAITING then 0 else 1)
     \<and> contents (line_buffer s) = concat (unflushed (transmitter s) gone @ q)
     \<and> at_front (transmitter s) gone q \<and> in_place (handler s) (fill (line_buffer s)) (answers s)"

lemma line_ok_idle:
  assumes "buffer_ok b" "contents b = concat q" "\<forall>f \<in> set (q @ fs). frame f"
  shows "line_ok send (idle b fs []) [] q"
  using assms by (simp add: line_ok_def buffer_ok_def)

lemma fill_block [simp]: "fill (b\<lparr>block := n\<rparr>) = fill b" "contents (b\<lparr>block := n\<rparr>) = contents b"
  by (simp_all add: fill_def contents_def)

lemma fill_bdata [simp]: "fill (b\<lparr>bdata := m\<rparr>) = fill b"
  by (simp add: fill_def)

lemma contents_write: "\<forall>i < fill b. m i = bdata b i \<Longrightarrow> contents (b\<lparr>bdata := m\<rparr>) = contents b"
  unfolding contents_def fill_bdata by (intro bytes_of_cong) simp

lemma line_locked:
  assumes "line_ok send s gone q" "sending (transmitter s) \<or> handler s \<noteq> WAITING"
  shows "block (line_buffer s) = 0" "0 \<le> sint (blength (line_buffer s))"
  using assms by (simp_all add: line_ok_def buffer_ok_def)

lemma line_free:
  assumes "line_ok send s gone q" "\<not> sending (transmitter s)" "handler s = WAITING"
  shows "buffer_ok (line_buffer s)"
  using assms by (simp add: line_ok_def buffer_ok_def)

text \<open>The invariant leaves the two lock operations no choice.\<close>

lemma acquired_lock: "iscsi_buffer_acquire_lock b = Inr b' \<Longrightarrow> block b \<noteq> 0 \<and> b' = b\<lparr>block := block b - 1\<rparr>"
  by (simp add: iscsi_buffer_acquire_lock_def split: if_splits)

lemma line_unlocked: "line_ok send s gone q \<Longrightarrow> block (line_buffer s) \<noteq> 0 \<Longrightarrow>
    \<not> sending (transmitter s) \<and> handler s = WAITING \<and> block (line_buffer s) = 1"
  by (auto simp: line_ok_def split: if_splits)


lemma sending_sel: "line_ok send s gone q \<Longrightarrow> sending (transmitter s) \<Longrightarrow> handler s = WAITING"
  by (auto simp: line_ok_def)

text \<open>The first message of the buffer, as the transmitter reads it.\<close>

lemma front_bytes:
  assumes "contents b = f @ rest"
  shows "bytes_of (bdata b) 0 (length f) = f"
proof -
  have "length f \<le> fill b" using assms by (metis length_append length_contents le_add1)
  then have "bytes_of (bdata b) 0 (length f) = take (length f) (contents b)"
    unfolding contents_def by (metis take_bytes_of)
  then show ?thesis by (simp add: assms)
qed

lemma front_length:
  assumes "line_ok send s gone q" "transmitter s = MEASURING"
  obtains f q' where "q = f # q'" "sint (iscsi_pdu_length (bdata (line_buffer s)) 0) = int (length f)"
proof -
  obtain f q' where q: "q = f # q'" using assms by (cases q) (auto simp: line_ok_def)
  then have c: "contents (line_buffer s) = f @ concat q'" and f: "frame f"
    using assms by (simp_all add: line_ok_def)
  show thesis
    using that [OF q] plen_frame [OF c f frame_length [OF f]] by (simp add: sint_pdu_length)
qed

lemma valid_nonempty:
  assumes "contents b = concat q" "iscsi_pdu_valid (bdata b) 0 (iscsi_buffer_length b)"
  shows "q \<noteq> []"
proof
  assume "q = []"
  then have "fill b = 0" using assms(1) by (simp add: fill_length del: length_contents)
  then have "sint (blength b) \<le> 0" by (simp add: fill_def)
  with assms(2) show False
    using plen_bounds(1) [of "bdata b" 0] by (simp add: pdu_valid_iff iscsi_buffer_length_def)
qed

section \<open>Every step keeps the invariant\<close>

definition follows ::
  "(byte list \<Rightarrow> cint) \<Rightarrow> line \<Rightarrow> byte list list \<Rightarrow> line \<Rightarrow> byte list list \<Rightarrow> bool" where
  "follows send s q t q' \<longleftrightarrow> (q', answers t, wire t) = (q, answers s, wire s)
     \<or> channel send (q, answers s, wire s) (q', answers t, wire t)"

text \<open>How far the threads still have to go; polling, and asking for space, do not change it.\<close>

fun pc_rank :: "transmitter_pc \<Rightarrow> nat" where
  "pc_rank STOPPED = 0"
| "pc_rank (SENDING len) = 1"
| "pc_rank (LOCKING len) = 2"
| "pc_rank MEASURING = 3"
| "pc_rank CHECKING = 4"
| "pc_rank (FLUSHING len) = 5"
| "pc_rank (RELEASING len) = 6"

definition rank :: "line \<Rightarrow> byte list list \<Rightarrow> nat" where
  "rank s q = 20 * length (answers s) + (case handler s of WRITING p \<Rightarrow> 0 | _ \<Rightarrow> 1) + 10 * length q
     + pc_rank (transmitter s)"

lemma step_transmit_ok:
  assumes l: "line_ok send s gone q" and pc: "transmitter s = SENDING len"
    and p: "pdu = bytes_of (bdata (line_buffer s)) 0 (nat (sint len))" "0 \<le> sint (send pdu)"
  obtains f q' where "q = f # q'" "pdu = f"
    "line_ok send (s\<lparr>transmitter := RELEASING len, wire := wire s @ taken send f\<rparr>) (gone @ [f]) q'"
proof -
  obtain f q' where q: "q = f # q'" "sint len = int (length f)"
    using l pc by (auto simp: line_ok_def)
  have c: "contents (line_buffer s) = f @ concat q'" using l pc q by (simp add: line_ok_def)
  have "pdu = f" using p(1) q(2) front_bytes [OF c] by simp
  moreover have "handler s = WAITING" using sending_sel [OF l] pc by simp
  ultimately show thesis
    using that [OF q(1)] l pc q by (simp add: line_ok_def del: length_contents)
qed

lemma step_flush_ok:
  assumes l: "line_ok send s gone q" and pc: "transmitter s = FLUSHING len"
    and b: "iscsi_buffer_flush (line_buffer s) len = Inr b"
  shows "line_ok send (s\<lparr>line_buffer := b, transmitter := CHECKING\<rparr>) gone q"
proof -
  have c: "contents (line_buffer s) = last gone @ concat q" and n: "sint len = int (length (last gone))"
    using l pc by (simp_all add: line_ok_def)
  have "block (line_buffer s) \<noteq> 0"
    using b by (auto simp: iscsi_buffer_flush_def iscsi_buffer_acquire_lock_def split: if_splits)
  then have h: "handler s = WAITING" using line_unlocked [OF l] by simp
  then have ok: "buffer_ok (line_buffer s)" using line_free [OF l] pc by simp
  have "length (last gone) \<le> fill (line_buffer s)"
    using c by (metis length_append length_contents le_add1)
  from flush_ok [OF ok n this] obtain b' where
    "iscsi_buffer_flush (line_buffer s) len = Inr b'" "buffer_ok b'" "contents b' = drop (length (last gone)) (contents (line_buffer s))"
    by blast
  with b have "buffer_ok b" "contents b = concat q" by (simp_all add: c)
  then show ?thesis using l h by (simp add: line_ok_def buffer_ok_def)
qed

lemma line_length:
  assumes "line_ok send s gone q"
  shows "sint (blength (line_buffer s)) = int (fill (line_buffer s))"
  using assms sint_fill [of "(line_buffer s)\<lparr>block := 1\<rparr>"] by (simp add: line_ok_def)

lemma line_space:
  assumes "line_ok send s gone q"
  shows "sint (iscsi_buffer_free_space (line_buffer s)) = 4194304 - int (fill (line_buffer s))"
  using assms sint_free_space [of "(line_buffer s)\<lparr>block := 1\<rparr>"]
  by (simp add: line_ok_def iscsi_buffer_free_space_def)

lemma line_answer:
  assumes "line_ok send s gone q" "answers s = f # fs"
  shows "sint (word_of_nat (length f) :: cint) = int (length f)"
  using assms plen_bounds(3) [of "mem_of f" 0] by (intro sint_of_nat) (simp add: line_ok_def frame_def)

lemma step_lock_ok:
  assumes l: "line_ok send s gone q" and pc: "handler s = WAITING" "answers s = f # fs"
    and b: "iscsi_buffer_acquire_lock (line_buffer s) = Inr b"
  shows "line_ok send (s\<lparr>line_buffer := b, handler := TESTING\<rparr>) gone q"
proof -
  have "\<not> sending (transmitter s)" "b = (line_buffer s)\<lparr>block := 0\<rparr>"
    using acquired_lock [OF b] line_unlocked [OF l] by auto
  then show ?thesis using l pc by (simp add: line_ok_def buffer_ok_def)
qed

lemma step_retry_ok:
  assumes l: "line_ok send s gone q" and pc: "handler s = TESTING"
  shows "line_ok send (s\<lparr>line_buffer := iscsi_buffer_release_lock (line_buffer s) 0, handler := WAITING\<rparr>) gone q"
proof -
  have "\<not> sending (transmitter s)" "block (line_buffer s) = 0"
    using sending_sel [OF l] line_locked [OF l] pc by auto
  then show ?thesis using l pc
    by (simp add: line_ok_def buffer_ok_def iscsi_buffer_release_lock_def contents_def fill_def)
qed

lemma step_allocate_ok:
  assumes l: "line_ok send s gone q" and pc: "handler s = TESTING" "answers s = f # fs"
    and n: "\<not> sint (iscsi_buffer_free_space (line_buffer s)) < sint (word_of_nat (length f) :: cint)"
    and m: "c_memset (bdata (line_buffer s)) ISCSI_BUFFER_SIZE (sint (blength (line_buffer s))) 0
      (sint (word_of_nat (length f) :: cint)) = Inr m"
  shows "line_ok send (s\<lparr>line_buffer := (line_buffer s)\<lparr>bdata := m\<rparr>,
      handler := WRITING (nat (sint (blength (line_buffer s))))\<rparr>) gone q"
proof -
  let ?b = "line_buffer s"
  have fit: "fill ?b + length f \<le> 4194304" using n line_space [OF l] line_answer [OF l pc(2)] by simp
  then have "m = blit (bdata ?b) (fill ?b) (\<lambda>_. 0) (length f)"
    using m line_length [OF l] line_answer [OF l pc(2)] by (simp add: c_memset_ok)
  then have "contents (?b\<lparr>bdata := m\<rparr>) = contents ?b" by (intro contents_write) (simp add: blit_out)
  moreover have "\<not> sending (transmitter s)" using sending_sel [OF l] pc by auto
  ultimately show ?thesis using l pc fit line_length [OF l] by (simp add: line_ok_def buffer_ok_def)
qed

lemma step_put_ok:
  assumes l: "line_ok send s gone q" and pc: "handler s = WRITING p"
    and m: "\<forall>i < p. m i = bdata (line_buffer s) i"
  shows "line_ok send (s\<lparr>line_buffer := (line_buffer s)\<lparr>bdata := m\<rparr>\<rparr>) gone q"
proof -
  have "p = fill (line_buffer s)" using l pc by (simp add: line_ok_def)
  then have "contents ((line_buffer s)\<lparr>bdata := m\<rparr>) = contents (line_buffer s)"
    using m by (intro contents_write) simp
  then show ?thesis using l by (simp add: line_ok_def buffer_ok_def)
qed

lemma step_commit_ok:
  assumes l: "line_ok send s gone q" and pc: "handler s = WRITING p" "answers s = f # fs"
    and m: "bytes_of (bdata (line_buffer s)) p (length f) = f"
  shows "line_ok send (s\<lparr>line_buffer := iscsi_buffer_release_lock (line_buffer s) (word_of_nat (length f)),
      handler := WAITING, answers := fs\<rparr>) gone (q @ [f])"
proof -
  let ?b = "line_buffer s"
  have p: "p = fill ?b" "fill ?b + length f \<le> 4194304" using l pc by (simp_all add: line_ok_def)
  have "sint (word_of_nat (length f) :: cint) = int (length f)" using p(2) by (intro sint_of_nat) simp
  from release_ok [OF line_locked [OF l] p(2) this]
  have b: "buffer_ok (iscsi_buffer_release_lock ?b (word_of_nat (length f)))"
    "contents (iscsi_buffer_release_lock ?b (word_of_nat (length f))) = contents ?b @ f"
    using pc(1) m p(1) by simp_all
  have t: "\<not> sending (transmitter s)" using sending_sel [OF l] pc(1) by auto
  have "at_front (transmitter s) gone (q @ [f])"
    using l by (cases "transmitter s") (auto simp: line_ok_def)
  then show ?thesis using l pc b t by (simp add: line_ok_def buffer_ok_def)
qed


text \<open>
  One step of either thread: the invariant holds again, for the buffer and the answers the step is
  either invisible or one step of the channel, and it uses up rank, unless it is a round of polling,
  a turn of the loop that asks for space, or a write of a handler.
\<close>

definition kept_line :: "(byte list \<Rightarrow> cint) \<Rightarrow> line \<Rightarrow> byte list list \<Rightarrow> byte list list
    \<Rightarrow> line \<Rightarrow> byte list list \<Rightarrow> byte list list \<Rightarrow> bool" where
  "kept_line send s gone q t gone' q' \<longleftrightarrow> line_ok send t gone' q'
     \<and> gone' @ q' @ answers t = gone @ q @ answers s \<and> follows send s q t q'"

lemma kept_lineI:
  "line_ok send t gone q \<Longrightarrow> answers t = answers s \<Longrightarrow> wire t = wire s \<Longrightarrow> kept_line send s gone q t gone q"
  by (simp add: kept_line_def follows_def)

lemma valid_front:
  assumes l: "line_ok send s gone q" and q: "unflushed (transmitter s) gone = []" "q = f # q'"
  shows "iscsi_pdu_valid (bdata (line_buffer s)) 0 (iscsi_buffer_length (line_buffer s))"
proof -
  have f: "frame f" "contents (line_buffer s) = f @ concat q'" using l q by (simp_all add: line_ok_def)
  then have "length f \<le> fill (line_buffer s)" by (metis length_append length_contents le_add1)
  then show ?thesis
    using plen_frame [OF f(2,1) frame_length [OF f(1)]] line_length [OF l]
    by (simp add: pdu_valid_iff iscsi_buffer_length_def)
qed

lemma transmitter_step_kept:
  assumes l: "line_ok send s gone q" and step: "transmitter_step send s t"
  shows "\<exists>gone' q'. kept_line send s gone q t gone' q' \<and> handler t = handler s
    \<and> (rank t q' < rank s q \<or> transmitter s = CHECKING \<and> t = s \<and> q = [] \<and> q' = [])"
  using step
proof cases
  case poll
  then have "q = []" using valid_front [OF l] by (cases q) auto
  then show ?thesis using l poll by (intro exI [of _ gone] exI [of _ q]) (simp add: kept_lineI)
next
  case check
  moreover have "q \<noteq> []" using l check valid_nonempty [of "line_buffer s" q] by (simp add: line_ok_def)
  ultimately show ?thesis
    using l by (intro exI [of _ gone] exI [of _ q]) (auto intro!: kept_lineI simp: line_ok_def rank_def)
next
  case read_length
  obtain f q' where "q = f # q'" "sint (iscsi_pdu_length (bdata (line_buffer s)) 0) = int (length f)"
    using front_length [OF l read_length(2)] .
  then show ?thesis
    using l read_length by (intro exI [of _ gone] exI [of _ q]) (auto intro!: kept_lineI simp: line_ok_def rank_def)
next
  case (take_lock len b)
  then have "\<not> sending (transmitter s) \<and> handler s = WAITING" "b = (line_buffer s)\<lparr>block := 0\<rparr>"
    using acquired_lock [OF take_lock(3)] line_unlocked [OF l] by simp_all
  then show ?thesis
    using l take_lock
    by (intro exI [of _ gone] exI [of _ q]) (auto intro!: kept_lineI simp: line_ok_def rank_def buffer_ok_def)
next
  case (transmit len pdu)
  from step_transmit_ok [OF l transmit(2-4)] obtain f q' where f: "q = f # q'" "pdu = f"
    "line_ok send (s\<lparr>transmitter := RELEASING len, wire := wire s @ taken send f\<rparr>) (gone @ [f]) q'" .
  moreover have "channel send (f # q', answers s, wire s) (q', answers s, wire s @ taken send f)"
    using transmit(4) f(2) by (intro deliver) simp
  ultimately show ?thesis
    using transmit
    by (intro exI [of _ "gone @ [f]"] exI [of _ q']) (simp add: kept_line_def follows_def rank_def taken_def)
next
  case (fail len)
  then show ?thesis
    using l by (intro exI [of _ gone] exI [of _ q]) (auto intro!: kept_lineI simp: line_ok_def rank_def)
next
  case (give_back len)
  then have "handler s = WAITING" "block (line_buffer s) = 0"
    using sending_sel [OF l] line_locked [OF l] by simp_all
  then show ?thesis
    using l give_back
    by (intro exI [of _ gone] exI [of _ q])
      (simp add: kept_line_def line_ok_def follows_def rank_def buffer_ok_def iscsi_buffer_release_lock_def
        contents_def fill_def)
next
  case (flush len b)
  then show ?thesis
    using step_flush_ok [OF l flush(2,3)]
    by (intro exI [of _ gone] exI [of _ q]) (auto intro!: kept_lineI simp: rank_def)
qed

lemma handler_step_kept:
  assumes l: "line_ok send s gone q" and step: "handler_step s t"
  shows "\<exists>q'. kept_line send s gone q t gone q' \<and> transmitter t = transmitter s
    \<and> (rank t q' < rank s q \<or> rank t q' = rank s q \<and> q' = q \<and> answers t = answers s
        \<and> (handler s = WAITING \<and> handler t = TESTING
          \<or> handler s = TESTING \<and> handler t = WAITING
              \<and> 4194304 < fill (line_buffer s) + length (hd (answers s))
          \<or> (\<exists>p. handler s = WRITING p \<and> handler t = WRITING p)))"
  using step
proof cases
  case (lock f fs b)
  then show ?thesis using step_lock_ok [OF l lock(2,3,5)]
    by (intro exI [of _ q]) (auto intro!: kept_lineI simp: rank_def)
next
  case (retry f fs)
  then have "4194304 < fill (line_buffer s) + length f"
    using line_space [OF l] line_answer [OF l retry(3)] by simp
  then show ?thesis using retry step_retry_ok [OF l retry(2)]
    by (intro exI [of _ q]) (auto intro!: kept_lineI simp: rank_def)
next
  case (allocate f fs m)
  then show ?thesis using step_allocate_ok [OF l allocate(2-5)]
    by (intro exI [of _ q]) (auto intro!: kept_lineI simp: rank_def)
next
  case (put p m)
  then show ?thesis using step_put_ok [OF l put(2,3)]
    by (intro exI [of _ q]) (auto intro!: kept_lineI simp: rank_def)
next
  case (commit p f fs)
  moreover have "channel send (q, f # fs, wire s) (q @ [f], fs, wire s)" by (rule enqueue)
  ultimately show ?thesis
    using step_commit_ok [OF l commit(2-4)]
    by (intro exI [of _ "q @ [f]"]) (simp add: kept_line_def follows_def rank_def)
qed

lemma interleaved_kept:
  assumes "line_ok send s gone q" "interleaved send s t"
  shows "\<exists>gone' q'. kept_line send s gone q t gone' q' \<and> rank t q' \<le> rank s q"
  using assms(2)
proof cases
  case transmits
  from transmitter_step_kept [OF assms(1) this] show ?thesis by fastforce
next
  case handles
  from handler_step_kept [OF assms(1) this] show ?thesis by fastforce
qed

text \<open>Any run of the threads is a run of the channel, and keeps the invariant.\<close>

lemma runs_channel:
  assumes "runs send s t" "line_ok send s gone q"
  shows "\<exists>gone' q'. line_ok send t gone' q' \<and> gone' @ q' @ answers t = gone @ q @ answers s
    \<and> (channel send)\<^sup>*\<^sup>* (q, answers s, wire s) (q', answers t, wire t)"
  using assms
proof (induction rule: rtranclp_induct)
  case base
  then show ?case by blast
next
  case (step t u)
  then obtain g q' where t: "line_ok send t g q'" "g @ q' @ answers t = gone @ q @ answers s"
    "(channel send)\<^sup>*\<^sup>* (q, answers s, wire s) (q', answers t, wire t)" by blast
  from step.hyps(2) interleaved_kept [OF t(1)] obtain g' q'' where u: "line_ok send u g' q''"
    "g' @ q'' @ answers u = g @ q' @ answers t" "follows send t q' u q''"
    unfolding kept_line_def by blast
  have "(channel send)\<^sup>*\<^sup>* (q, answers s, wire s) (q'', answers u, wire u)"
    using t(3) u(3) by (auto simp: follows_def)
  with t(2) u(1,2) show ?case by metis
qed

text \<open>What the transmitter found out without the semaphore is still true when it uses it.\<close>

lemma line_front:
  assumes l: "line_ok send s gone q" and pc: "transmitter s = LOCKING len \<or> transmitter s = SENDING len"
  shows "iscsi_pdu_length (bdata (line_buffer s)) 0 = len"
    and "iscsi_pdu_valid (bdata (line_buffer s)) 0 (iscsi_buffer_length (line_buffer s))"
proof -
  obtain f q' where q: "q = f # q'" "sint len = int (length f)" "frame f"
    and c: "contents (line_buffer s) = f @ concat q'"
    using l pc by (auto simp: line_ok_def)
  have p: "plen (bdata (line_buffer s)) 0 = length f" by (rule plen_frame [OF c q(3) frame_length [OF q(3)]])
  then have "sint (iscsi_pdu_length (bdata (line_buffer s)) 0) = sint len"
    using q(2) by (simp add: sint_pdu_length)
  then show "iscsi_pdu_length (bdata (line_buffer s)) 0 = len" by (rule signed_word_eqI)
  have "length f \<le> fill (line_buffer s)" using c by (metis length_append length_contents le_add1)
  then show "iscsi_pdu_valid (bdata (line_buffer s)) 0 (iscsi_buffer_length (line_buffer s))"
    using p line_length [OF l] by (simp add: pdu_valid_iff iscsi_buffer_length_def)
qed

lemma line_flush:
  assumes l: "line_ok send s gone q" and pc: "transmitter s = FLUSHING len"
  shows "sint len \<le> sint (blength (line_buffer s))"
proof -
  have c: "contents (line_buffer s) = last gone @ concat q" "sint len = int (length (last gone))"
    using l pc by (simp_all add: line_ok_def)
  have "length (last gone) \<le> fill (line_buffer s)" using c(1) by (metis length_append length_contents le_add1)
  then show ?thesis using c(2) line_length [OF l] by simp
qed

text \<open>A network that takes every frame whole.\<close>

definition takes_all :: "(byte list \<Rightarrow> cint) \<Rightarrow> bool" where
  "takes_all send \<longleftrightarrow> (\<forall>f. frame f \<longrightarrow> send f = word_of_nat (length f))"

lemma takes_all_frame:
  assumes "takes_all send" "frame f"
  shows "sint (send f) = int (length f)" "taken send f = f"
proof -
  have "length f < 2147483648" using plen_bounds(3) [of "mem_of f" 0] assms(2) by (simp add: frame_def)
  from sint_of_nat [OF this] show "sint (send f) = int (length f)"
    using assms by (simp add: takes_all_def)
  then show "taken send f = f" by (simp add: taken_def)
qed

section \<open>The rounds and the handlers are runs\<close>

lemma runs_3:
  assumes "runs send s t" "runs send t u" "runs send u v"
  shows "runs send s v"
  using rtranclp_trans [OF assms(1) rtranclp_trans [OF assms(2,3)]] .

lemma runs_acquire:
  assumes "handler s = WAITING" "answers s = f # fs"
    and "iscsi_buffer_acquire_lock_for_length (line_buffer s) (word_of_nat (length f)) = Inr (Some p, b)"
  shows "runs send s (s\<lparr>line_buffer := b, handler := WRITING p\<rparr>)"
proof -
  from acquire_is_steps [OF assms] obtain u where
    "handler_step s u" "handler_step u (s\<lparr>line_buffer := b, handler := WRITING p\<rparr>)" by blast
  then show ?thesis by (intro rtranclp_trans [OF runs_handles runs_handles])
qed

text \<open>A round of the transmitter on its own is a run of its statements.\<close>

lemma transmit_round_runs:
  assumes r: "transmit_round send w = Inr (True, w', out)"
  shows "runs send (idle (response_buffer (connection w)) fs past) (idle (response_buffer (connection w')) fs (past @ out))"
proof (cases "iscsi_pdu_valid (bdata (response_buffer (connection w))) 0
    (iscsi_buffer_length (response_buffer (connection w)))")
  case False
  then show ?thesis using r by (simp add: transmit_round_def Let_def)
next
  case True
  let ?b = "response_buffer (connection w)"
  let ?len = "iscsi_pdu_length (bdata ?b) 0"
  obtain b1 where b1: "iscsi_buffer_acquire_lock ?b = Inr b1" and
    n: "0 \<le> sint (send (bytes_of (bdata b1) 0 (nat (sint ?len))))" and
    rest: "bindR (iscsi_buffer_flush (iscsi_buffer_release_lock b1 0) ?len) (\<lambda>b.
        Inr (True, w\<lparr>connection := (connection w)\<lparr>response_buffer := b\<rparr>\<rparr>,
          take (nat (sint (send (bytes_of (bdata b1) 0 (nat (sint ?len)))))) (bytes_of (bdata b1) 0 (nat (sint ?len)))))
      = Inr (True, w', out)"
    using r True by (auto simp: transmit_round_def Let_def split: if_splits elim!: bindR_InrE)
  let ?pdu = "bytes_of (bdata b1) 0 (nat (sint ?len))"
  obtain b2 where b2: "iscsi_buffer_flush (iscsi_buffer_release_lock b1 0) ?len = Inr b2"
    "w' = w\<lparr>connection := (connection w)\<lparr>response_buffer := b2\<rparr>\<rparr>" "out = take (nat (sint (send ?pdu))) ?pdu"
    using rest by (auto elim!: bindR_InrE)
  let ?at = "\<lambda>pc b out. \<lparr>line_buffer = b, transmitter = pc, handler = WAITING, answers = fs, wire = out\<rparr>"
  let ?b1 = "iscsi_buffer_release_lock b1 0"
  have "transmitter_step send (?at CHECKING ?b past) (?at MEASURING ?b past)"
    using check [of "?at CHECKING ?b past" send] True by simp
  moreover have "transmitter_step send (?at MEASURING ?b past) (?at (LOCKING ?len) ?b past)"
    using read_length [of "?at MEASURING ?b past" send] by simp
  moreover have "transmitter_step send (?at (LOCKING ?len) ?b past) (?at (SENDING ?len) b1 past)"
    using take_lock [of "?at (LOCKING ?len) ?b past" ?len b1 send] b1 by simp
  ultimately have "runs send (?at CHECKING ?b past) (?at (SENDING ?len) b1 past)"
    by (rule runs_3 [OF runs_transmits runs_transmits runs_transmits])
  moreover have "transmitter_step send (?at (SENDING ?len) b1 past) (?at (RELEASING ?len) b1 (past @ out))"
    using transmit [of "?at (SENDING ?len) b1 past" ?len ?pdu send] n b2(3) by simp
  moreover have "transmitter_step send (?at (RELEASING ?len) b1 (past @ out)) (?at (FLUSHING ?len) ?b1 (past @ out))"
    using give_back [of "?at (RELEASING ?len) b1 (past @ out)" ?len send] by simp
  moreover have "transmitter_step send (?at (FLUSHING ?len) ?b1 (past @ out)) (?at CHECKING b2 (past @ out))"
    using flush [of "?at (FLUSHING ?len) ?b1 (past @ out)" ?len b2 send] b2(1) by simp
  ultimately have "runs send (?at CHECKING ?b past) (?at CHECKING b2 (past @ out))"
    by (rule rtranclp_trans [OF _ runs_3 [OF runs_transmits runs_transmits runs_transmits]])
  then show ?thesis by (simp add: b2(2) idle_def)
qed

text \<open>So is a handler under the contract \<open>sender\<close>, and a series of its messages.\<close>

context sender
begin

lemma messages_all:
  assumes "\<And>c a. good c a \<Longrightarrow> P (msg c a)"
  shows "\<forall>a \<in> set as. good c a \<Longrightarrow> \<forall>m \<in> set (messages msg c as). P m"
proof (induction as arbitrary: c)
  case (Cons a as)
  have "\<forall>m \<in> set (messages msg (c\<lparr>stat_sn := stat_sn c + 1\<rparr>) as). P m"
    using Cons.prems by (intro Cons.IH) (simp add: good_sn)
  moreover have "P (msg c a)" using Cons.prems by (intro assms) simp
  ultimately show ?case by simp
qed simp

lemma send_runs:
  assumes g: "good c a" and r: "room (response_buffer c) (length (msg c a))"
    and s: "send c a = Inr c'"
  shows "runs net (idle (response_buffer c) (msg c a # fs) out) (idle (response_buffer c') fs out)"
proof -
  let ?b = "response_buffer c" and ?n = "length (msg c a)"
  obtain b where b: "c' = c\<lparr>response_buffer := b, stat_sn := stat_sn c + 1\<rparr>" "buffer_ok b"
    "contents b = contents ?b @ msg c a"
    using sends [OF g r] s by (auto simp: after_def)
  have f: "fill b = fill ?b + ?n" using b(3) unfolding fill_length by simp
  have n: "sint (word_of_nat ?n :: cint) = int ?n" using r by (intro sint_of_nat) (simp add: room_def)
  let ?b1 = "?b\<lparr>block := 0, bdata := blit (bdata ?b) (fill ?b) (\<lambda>_. 0) ?n\<rparr>"
  let ?b2 = "?b\<lparr>block := 0, bdata := bdata b\<rparr>"
  let ?at = "\<lambda>pc b fs. \<lparr>line_buffer = b, transmitter = CHECKING, handler = pc, answers = fs, wire = out\<rparr>"
  have "bytes_of (bdata b) 0 (fill ?b) @ bytes_of (bdata b) (fill ?b) ?n = contents ?b @ msg c a"
    using b(3) f bytes_of_append [of "bdata b" 0 "fill ?b" ?n] by (simp add: contents_def)
  then have m: "bytes_of (bdata b) 0 (fill ?b) = contents ?b" "bytes_of (bdata b) (fill ?b) ?n = msg c a"
    by simp_all
  have old: "bdata b i = bdata ?b1 i" if "i < fill ?b" for i
    using arg_cong [OF m(1), of "\<lambda>xs. xs ! i"] that by (simp add: contents_nth blit_out)
  have "blength b = blength ?b + word_of_nat ?n"
  proof (rule signed_word_eqI)
    have o: "sint (blength ?b) = int (fill ?b)" using r by (intro sint_fill) (rule room_buffer_ok)
    then have "sint (blength ?b + word_of_nat ?n) = sint (blength ?b) + sint (word_of_nat ?n :: cint)"
      using r n by (intro sint_plus) (simp_all add: room_def)
    then show "sint (blength b) = sint (blength ?b + word_of_nat ?n)"
      using sint_fill [OF b(2)] o f n by simp
  qed
  moreover have "block b = 1" using b(2) by (simp add: buffer_ok_def)
  ultimately have last: "iscsi_buffer_release_lock ?b2 (word_of_nat ?n) = b"
    by (cases b) (simp add: iscsi_buffer_release_lock_def)
  have "runs net (?at WAITING ?b (msg c a # fs)) (?at (WRITING (fill ?b)) ?b1 (msg c a # fs))"
    using runs_acquire [of "?at WAITING ?b (msg c a # fs)" "msg c a" fs "fill ?b" ?b1 net] acquire_ok [OF r n]
    by simp
  moreover have "handler_step (?at (WRITING (fill ?b)) ?b1 (msg c a # fs)) (?at (WRITING (fill ?b)) ?b2 (msg c a # fs))"
    using put [of "?at (WRITING (fill ?b)) ?b1 (msg c a # fs)" "fill ?b" "bdata b"] old by simp
  moreover have "handler_step (?at (WRITING (fill ?b)) ?b2 (msg c a # fs)) (?at WAITING b fs)"
    using commit [of "?at (WRITING (fill ?b)) ?b2 (msg c a # fs)" "fill ?b" "msg c a" fs] m(2) last by simp
  ultimately have "runs net (?at WAITING ?b (msg c a # fs)) (?at WAITING b fs)"
    by (rule runs_3 [OF _ runs_handles runs_handles])
  then show ?thesis by (simp add: b(1) idle_def)
qed

lemma send_all_runs:
  assumes "\<forall>a \<in> set as. good c a" "room (response_buffer c) (length (concat (messages msg c as)))"
    and "send_all send c as = Inr c'"
  shows "runs net (idle (response_buffer c) (messages msg c as @ fs) out) (idle (response_buffer c') fs out)"
  using assms
proof (induction as arbitrary: c)
  case (Cons a as)
  obtain c1 where c1: "send c a = Inr c1" "send_all send c1 as = Inr c'"
    using Cons.prems(3) by (auto elim!: bindR_InrE)
  have r: "room (response_buffer c) (length (msg c a))" using Cons.prems(2) by (simp add: room_def)
  have g: "good c a" using Cons.prems(1) by simp
  obtain b where b: "c1 = c\<lparr>response_buffer := b, stat_sn := stat_sn c + 1\<rparr>" "buffer_ok b"
    "contents b = contents (response_buffer c) @ msg c a"
    using sends [OF g r] c1(1) by (auto simp: after_def)
  have f: "fill b = fill (response_buffer c) + length (msg c a)" using b(3) unfolding fill_length by simp
  have m: "messages msg c1 as = messages msg (c\<lparr>stat_sn := stat_sn c + 1\<rparr>) as"
    using messages_stable [where c = "c\<lparr>stat_sn := stat_sn c + 1\<rparr>"] by (simp add: b(1))
  have "\<forall>a \<in> set as. good c1 a" using Cons.prems(1) good_stable by (simp add: b(1))
  moreover have "room (response_buffer c1) (length (concat (messages msg c1 as)))"
    using Cons.prems(2) b f unfolding m by (simp add: room_def)
  ultimately have "runs net (idle (response_buffer c1) (messages msg c1 as @ fs) out) (idle (response_buffer c') fs out)"
    using Cons.IH c1(2) by blast
  moreover have "runs net (idle (response_buffer c) (msg c a # messages msg c1 as @ fs) out)
      (idle (response_buffer c1) (messages msg c1 as @ fs) out)"
    by (rule send_runs [OF g r c1(1)])
  ultimately show ?case by (simp add: m)
qed simp

end

end
