(* ===== verification/Iscsi_Sessions.thy ===== *)
theory Iscsi_Sessions
  imports Iscsi_Invariant
begin

text \<open>
  The login phase in detail: the messages \<^verbatim>\<open>request/login.c\<close> builds from the header of the request, and
  the outcome of the session setup. The final responses carry their own data segment length and are
  frames; the partial and the failing ones copy the length of the request without its data.
\<close>

section \<open>The messages\<close>

definition word16 :: "cint \<Rightarrow> byte list" where
  "word16 v = [byte_at v 8, byte_at v 0]"

text \<open>The header of a final response: the request with the fields that the handler overwrites.\<close>

definition final_header :: "mem \<Rightarrow> login_status \<Rightarrow> cint \<Rightarrow> cint \<Rightarrow> cint \<Rightarrow> cint \<Rightarrow> byte list" where
  "final_header req st tsih len sn ec =
     [0x23 OR (req 0 AND 0x80), req 1 OR 0x80, req 2, req 3, req 4] @ be24 len
     @ bytes_of req 8 6 @ word16 tsih @ bytes_of req 16 8 @ be32 sn @ be32 ec @ be32 ec
     @ word16 (login_status_value st) @ bytes_of req 38 10"

definition partial_message :: "mem \<Rightarrow> login_status \<Rightarrow> cint \<Rightarrow> cint \<Rightarrow> byte list" where
  "partial_message req st sn ec =
     [0x23 OR (req 0 AND 0xC0), req 1 AND 0x7F] @ bytes_of req 2 22 @ be32 sn @ be32 ec @ be32 ec
     @ word16 (login_status_value st) @ bytes_of req 38 10"

definition status_message :: "mem \<Rightarrow> login_status \<Rightarrow> byte list" where
  "status_message req st =
     [0x23 OR (req 0 AND 0xC0)] @ bytes_of req 1 35 @ word16 (login_status_value st) @ bytes_of req 38 10"

lemma ucast_byte_ops:
  "ucast (x OR y :: cint) = (ucast x OR ucast y :: byte)"
  "ucast (x AND y :: cint) = (ucast x AND ucast y :: byte)"
  by (simp_all add: unsigned_or_eq unsigned_and_eq)

lemma login_bytes:
  "ucast ((0x23 AND 0x3F) OR (ucast b AND 0xC0) :: cint) = (0x23 OR (b AND 0xC0) :: byte)"
  by (simp add: ucast_byte_ops)

lemma length_word16 [simp]: "length (word16 v) = 2"
  by (simp add: word16_def)

lemma login_message_lengths [simp]:
  "length (final_header req st tsih len sn ec) = 48"
  "length (partial_message req st sn ec) = 48" "length (status_message req st) = 48"
  by (simp_all add: final_header_def partial_message_def status_message_def)

lemmas [pdu_setters] = iscsi_pdu_login_set_response_status_def iscsi_pdu_login_set_TSIH_def
  iscsi_pdu_generate_from_buffer_def

text \<open>Unfolds a block at a closed address.\<close>

lemma bytes_of_numeral:
  "bytes_of m a (numeral k) = m a # bytes_of m (a + 1) (pred_numeral k)"
  by (simp add: bytes_of_def numeral_eq_Suc upt_rec)

lemma bytes_of_1: "bytes_of m a 1 = [m a]"
  by (simp add: bytes_of_def)

text \<open>The three single-bit writes of the login responses.\<close>

lemma bit_writes:
  "iscsi_byte_bit2byte m a 0 1 = m(a := m a OR 0x80)"
  "iscsi_byte_bit2byte m a 0 0 = m(a := m a AND 0x7F)"
  "iscsi_byte_bit2byte m a 1 0 = m(a := m a AND 0xBF)"
proof -
  have e: "iscsi_byte_bit2byte m a p v = m(a := iscsi_byte_bit2byte m a p v a)" for p v
    by (simp add: iscsi_byte_bit2byte_def)
  have "iscsi_byte_bit2byte m a 0 1 a = m a OR 0x80"
    by (rule bit_word_eqI) (simp add: bit_bit2byte bit_or_iff bit_masks)
  moreover have "iscsi_byte_bit2byte m a 0 0 a = m a AND 0x7F"
    by (rule bit_word_eqI) (auto simp: bit_bit2byte bit_and_iff bit_masks)
  moreover have "iscsi_byte_bit2byte m a 1 0 a = m a AND 0xBF"
    by (rule bit_word_eqI) (auto simp: bit_bit2byte bit_and_iff bit_masks)
  ultimately show "iscsi_byte_bit2byte m a 0 1 = m(a := m a OR 0x80)"
    "iscsi_byte_bit2byte m a 0 0 = m(a := m a AND 0x7F)"
    "iscsi_byte_bit2byte m a 1 0 = m(a := m a AND 0xBF)"
    using e by metis+
qed

lemmas login_setters = iscsi_pdu_set_opcode_def iscsi_pdu_set_final_def iscsi_pdu_set_bit_def bit_writes
  iscsi_pdu_set_data_segment_length_def iscsi_byte_int2byte_def iscsi_pdu_generate_from_buffer_def
  iscsi_pdu_login_set_response_status_def iscsi_pdu_login_set_TSIH_def

lemmas copied_simps = login_setters word16_def bytes_of_numeral bytes_of_1 ucast_byte_ops blit_in

lemma status_only_sends:
  assumes "room (response_buffer c) 48"
  shows "\<exists>b. response_status_only c st = Inr (48, c\<lparr>response_buffer := b\<rparr>) \<and> buffer_ok b
    \<and> contents b = contents (response_buffer c) @ status_message (request_of c) st"
proof -
  let ?p = "fill (response_buffer c)"
  define m where "m = iscsi_pdu_login_set_response_status
    (iscsi_pdu_set_opcode (iscsi_pdu_generate_from_buffer (reserved c 48) ?p (request_of c) 0) ?p LOGIN_RES) ?p st"
  have u: "untouched c m" by (simp add: m_def pdu_setters)
  have bytes: "bytes_of m ?p 48 = status_message (request_of c) st"
    unfolding bytes_of_48 [of m]
    by (simp add: m_def copied_simps status_message_def del: One_nat_def)
  have "response_status_only c st = Inr (48, committed c m 48)"
    by (simp add: response_status_only_def response_acquire_ok [OF assms] response_release_committed m_def)
  with committed_ok [OF assms u] bytes show ?thesis
    by (auto simp: committed_def)
qed

lemma partial_sends:
  assumes "room (response_buffer c) 48"
  shows "\<exists>b. response_partial_login c = Inr (48, c\<lparr>response_buffer := b, stat_sn := stat_sn c + 1\<rparr>) \<and> buffer_ok b
    \<and> contents b = contents (response_buffer c) @ partial_message (request_of c)
        (if iscsi_pdu_login_transit (request_of c) 0 \<noteq> 0 then INITIATOR_ERROR else SUCCESS)
        (stat_sn c) (expected_cmd_sn c)"
proof -
  let ?p = "fill (response_buffer c)" and ?st = "if iscsi_pdu_login_transit (request_of c) 0 \<noteq> 0 then INITIATOR_ERROR else SUCCESS"
  define m where "m = iscsi_pdu_login_set_response_status
    (iscsi_pdu_set_final (iscsi_pdu_set_opcode
      (iscsi_byte_int2byte (iscsi_byte_int2byte (iscsi_byte_int2byte
        (iscsi_pdu_generate_from_buffer (reserved c 48) ?p (request_of c) 0)
        (?p + 24) (stat_sn c)) (?p + 28) (expected_cmd_sn c)) (?p + 32) (expected_cmd_sn c))
      ?p LOGIN_RES) ?p 0) ?p ?st"
  have u: "untouched c m" by (simp add: m_def pdu_setters)
  have bytes: "bytes_of m ?p 48 = partial_message (request_of c) ?st (stat_sn c) (expected_cmd_sn c)"
    unfolding bytes_of_48 [of m]
    by (simp add: m_def copied_simps partial_message_def be32_def split del: if_split del: One_nat_def)
  have "response_partial_login c = Inr (48, (committed c m 48)\<lparr>stat_sn := stat_sn c + 1\<rparr>)"
    by (simp add: response_partial_login_def response_acquire_ok [OF assms] respond_simps m_def Let_def)
  with committed_ok [OF assms u] bytes show ?thesis
    by (auto simp: committed_def)
qed

lemma final_sends:
  assumes r: "room (response_buffer c) (padn (48 + n))" and l: "sint len = int n"
    and q: "pos q + n \<le> bsz q"
  shows "\<exists>b. response_final_with_parameters s c st q len =
      Inr (word_of_nat (padn (48 + n)), c\<lparr>response_buffer := b, stat_sn := stat_sn c + 1\<rparr>) \<and> buffer_ok b
    \<and> contents b = contents (response_buffer c)
        @ final_header (request_of c) st (TSIH s) len (stat_sn c) (expected_cmd_sn c)
        @ bytes_of (blk q) (pos q) n @ pad_zeros (48 + n)"
proof -
  let ?p = "fill (response_buffer c)" and ?k = "padn (48 + n)"
  note b = padn_bounds [of "48 + n"]
  have p: "?p + ?k \<le> 4194304" using r by (simp add: room_def)
  then have n: "n \<le> 4194304" using b by linarith
  have l48: "sint (48 + len) = int (48 + n)" using l n by (simp add: c_arith)
  then have lk: "sint (iscsi_pdu_padded_length (48 + len)) = int ?k"
    using n by (intro sint_padded_nat) simp_all
  have pad: "iscsi_pdu_pad0 m ?p (48 + len) = Inr (blit m (?p + (48 + n)) (\<lambda>_. 0) (?k - (48 + n)))" for m
    using l48 p by (intro pad0_ok) simp_all
  have nat_p: "nat (int ?p + 48) = ?p + 48" by simp
  define h where "h = iscsi_pdu_set_data_segment_length (iscsi_pdu_login_set_TSIH
    (iscsi_pdu_login_set_response_status
    (iscsi_pdu_set_final (iscsi_pdu_set_opcode (iscsi_pdu_set_bit
      (iscsi_byte_int2byte (iscsi_byte_int2byte (iscsi_byte_int2byte
        (iscsi_pdu_generate_from_buffer (reserved c ?k) ?p (request_of c) 0)
        (?p + 24) (stat_sn c)) (?p + 28) (expected_cmd_sn c)) (?p + 32) (expected_cmd_sn c))
      ?p 1 0) ?p LOGIN_RES) ?p 1) ?p st) ?p (TSIH s)) ?p len"
  define m where "m = blit (blit h (?p + (48 + n)) (\<lambda>_. 0) (?k - (48 + n))) (?p + 48)
    (\<lambda>i. blk q (pos q + i)) n"
  have u: "untouched c m" by (simp add: m_def h_def pdu_setters)
  have swap: "m = blit (blit h (?p + 48) (\<lambda>i. blk q (pos q + i)) n) (?p + (48 + n)) (\<lambda>_. 0) (?k - (48 + n))"
    by (rule ext) (auto simp: m_def blit_def)
  have hdr: "bytes_of h ?p 48 = final_header (request_of c) st (TSIH s) len (stat_sn c) (expected_cmd_sn c)"
    unfolding bytes_of_48 [of h]
    apply (simp add: h_def copied_simps final_header_def be32_def be24_def and.assoc del: One_nat_def)
    done
  have bytes: "bytes_of m ?p ?k = final_header (request_of c) st (TSIH s) len (stat_sn c) (expected_cmd_sn c)
      @ bytes_of (blk q) (pos q) n @ pad_zeros (48 + n)"
    unfolding swap by (simp add: bytes_of_padded hdr bytes_of_map)
  have "response_final_with_parameters s c st q len
      = Inr (iscsi_pdu_padded_length (48 + len), (committed c m ?k)\<lparr>stat_sn := stat_sn c + 1\<rparr>)"
    using p b l q
    by (simp add: response_final_with_parameters_def response_acquire_ok [OF r lk] lk respond_simps Let_def
        pad c_memcpy_ok nat_p m_def h_def)
  with committed_ok [OF r u] bytes sint_word_of_nat [OF lk] show ?thesis
    by (auto simp: committed_def)
qed

end
