(* ===== verification/Iscsi_Lookup.thy ===== *)
theory Iscsi_Lookup
  imports Iscsi_Negotiation
begin

text \<open>
  What \<open>iscsi_parameter_get\<close> finds. The text is cut into items by commas and NULs; an item whose
  part before its first \<open>=\<close> is a prefix of the requested key, the empty part included, is a match
  (\<open>key_match\<close>). The scanner returns the position after the \<open>=\<close> of the first match, and the null
  pointer when there is none; it reads nothing outside the text and the key.
\<close>

definition is_sep :: "byte \<Rightarrow> bool" where
  "is_sep b \<longleftrightarrow> b = 44 \<or> b = 0"

definition slice :: "byte list \<Rightarrow> nat \<Rightarrow> nat \<Rightarrow> byte list" where
  "slice bs s j = take (j - s) (drop s bs)"

text \<open>The item that starts at \<open>s\<close> has its first \<open>=\<close> at \<open>j\<close> and matches \<open>key\<close>.\<close>

definition item_start :: "byte list \<Rightarrow> nat \<Rightarrow> nat \<Rightarrow> bool" where
  "item_start bs s j \<longleftrightarrow> s \<le> j \<and> (s = 0 \<or> is_sep (bs ! (s - 1))) \<and> (\<forall>x. s \<le> x \<and> x < j \<longrightarrow> \<not> is_sep (bs ! x))"

definition key_match :: "byte list \<Rightarrow> byte list \<Rightarrow> nat \<Rightarrow> nat \<Rightarrow> bool" where
  "key_match bs key s j \<longleftrightarrow> j < length bs \<and> bs ! j = 61 \<and> item_start bs s j
     \<and> (\<forall>x. s \<le> x \<and> x < j \<longrightarrow> bs ! x \<noteq> 61) \<and> prefix (slice bs s j) key"

definition first_match :: "byte list \<Rightarrow> byte list \<Rightarrow> nat option \<Rightarrow> bool" where
  "first_match bs key r = (case r of
     None \<Rightarrow> \<forall>s j. \<not> key_match bs key s j
   | Some p \<Rightarrow> \<exists>s j. p = j + 1 \<and> key_match bs key s j \<and> (\<forall>s' j'. j' < j \<longrightarrow> \<not> key_match bs key s' j'))"

lemma slice_self [simp]: "slice bs s s = []"
  by (simp add: slice_def)

lemma slice_Suc: "s \<le> i \<Longrightarrow> i < length bs \<Longrightarrow> slice bs s (Suc i) = slice bs s i @ [bs ! i]"
  by (simp add: slice_def Suc_diff_le take_Suc_conv_app_nth)

lemma length_slice: "s \<le> i \<Longrightarrow> i \<le> length bs \<Longrightarrow> length (slice bs s i) = i - s"
  by (simp add: slice_def)

lemma prefix_snoc_nth: "prefix (xs @ [b]) ys \<longleftrightarrow> prefix xs ys \<and> length xs < length ys \<and> ys ! length xs = b"
  by (auto simp: prefix_def nth_append nth_Cons' neq_Nil_conv)

lemma item_start_unique: "item_start bs s j \<Longrightarrow> item_start bs s' j \<Longrightarrow> s = s'"
  unfolding item_start_def
  by (metis Suc_pred' diff_less le_less_trans less_Suc_eq_le less_numeral_extra(1) linorder_neqE_nat not_gr_zero order_less_le_trans less_or_eq_imp_le)

text \<open>The state of the scan at \<open>i\<close>: nothing matched before, and what the flags say of the current item.\<close>

definition scan_inv ::
  "byte list \<Rightarrow> byte list \<Rightarrow> nat \<Rightarrow> connection_parameter_symbol \<Rightarrow> nat \<Rightarrow> bool \<Rightarrow> bool" where
  "scan_inv bs key i symbol count valid \<longleftrightarrow>
     (\<forall>s j. j < i \<longrightarrow> \<not> key_match bs key s j) \<and> count \<le> length key
     \<and> (\<exists>s. item_start bs s i
         \<and> (if symbol = KEY \<or> symbol = SEPARATOR
            then (\<forall>x. s \<le> x \<and> x < i \<longrightarrow> bs ! x \<noteq> 61) \<and> (valid \<longleftrightarrow> prefix (slice bs s i) key)
              \<and> (valid \<longrightarrow> count = i - s)
            else (\<exists>x. s \<le> x \<and> x < i \<and> bs ! x = 61) \<and> \<not> valid))"

lemma item_start_step: "item_start bs s i \<Longrightarrow> \<not> is_sep (bs ! i) \<Longrightarrow> item_start bs s (Suc i)"
  by (auto simp: item_start_def less_Suc_eq)

lemma scan_equal_match:
  assumes "scan_inv bs key i symbol count True" "i < length bs" "bs ! i = 61"
  shows "first_match bs key (Some (i + 1))"
proof -
  obtain s where "item_start bs s i" "\<forall>x. s \<le> x \<and> x < i \<longrightarrow> bs ! x \<noteq> 61" "prefix (slice bs s i) key"
    using assms(1) by (auto simp: scan_inv_def split: if_splits)
  then have "key_match bs key s i" using assms by (simp add: key_match_def)
  then show ?thesis using assms(1) by (auto simp: first_match_def scan_inv_def)
qed

lemma scan_equal_skip:
  assumes inv: "scan_inv bs key i symbol count False" and "i < length bs" "bs ! i = 61"
  shows "scan_inv bs key (Suc i) EQUAL count False"
proof -
  obtain s where s: "item_start bs s i"
    and no: "(\<exists>x. s \<le> x \<and> x < i \<and> bs ! x = 61) \<or> \<not> prefix (slice bs s i) key"
    using inv by (auto simp: scan_inv_def split: if_splits)
  have "\<not> key_match bs key s' i" for s'
  proof
    assume k: "key_match bs key s' i"
    then have "s' = s" using item_start_unique [OF _ s] by (simp add: key_match_def)
    with k no show False by (auto simp: key_match_def)
  qed
  moreover have "item_start bs s (Suc i)"
    using item_start_step [OF s] assms(3) by (simp add: is_sep_def)
  moreover have "s \<le> i" using s by (simp add: item_start_def)
  ultimately show ?thesis
    using inv assms(3) by (auto simp: scan_inv_def less_Suc_eq)
qed

lemma scan_separator:
  assumes inv: "scan_inv bs key i symbol count valid" and "is_sep (bs ! i)"
  shows "scan_inv bs key (Suc i) SEPARATOR 0 True"
proof -
  have "\<not> key_match bs key s i" for s
    using assms(2) by (auto simp: key_match_def is_sep_def)
  moreover have "item_start bs (Suc i) (Suc i)"
    using assms(2) by (auto simp: item_start_def)
  ultimately show ?thesis
    using inv by (auto simp: scan_inv_def less_Suc_eq intro!: exI [of _ "Suc i"])
qed

lemma scan_value:
  assumes inv: "scan_inv bs key i symbol count valid" and "symbol = EQUAL \<or> symbol = VALUE"
    and b: "bs ! i \<noteq> 61" "\<not> is_sep (bs ! i)"
  shows "scan_inv bs key (Suc i) VALUE count valid"
proof -
  obtain s where s: "item_start bs s i" "\<exists>x. s \<le> x \<and> x < i \<and> bs ! x = 61" "\<not> valid"
    using inv assms(2) by (auto simp: scan_inv_def split: if_splits)
  have "item_start bs s (Suc i)" using item_start_step [OF s(1) b(2)] .
  moreover have "\<exists>x. s \<le> x \<and> x < Suc i \<and> bs ! x = 61" using s(2) less_SucI by blast
  moreover have "\<not> key_match bs key s' i" for s' using b by (simp add: key_match_def)
  ultimately show ?thesis
    using inv s(3) by (auto simp: scan_inv_def less_Suc_eq)
qed

lemma scan_key:
  assumes inv: "scan_inv bs key i symbol count valid" and "symbol = KEY \<or> symbol = SEPARATOR"
    and b: "i < length bs" "bs ! i \<noteq> 61" "\<not> is_sep (bs ! i)"
  shows "if (key @ [0]) ! count = bs ! i then scan_inv bs key (Suc i) KEY (count + 1) valid
         else scan_inv bs key (Suc i) KEY count False"
proof -
  obtain s where s: "item_start bs s i" "\<forall>x. s \<le> x \<and> x < i \<longrightarrow> bs ! x \<noteq> 61"
    "valid \<longleftrightarrow> prefix (slice bs s i) key" "valid \<longrightarrow> count = i - s"
    using inv assms(2) by (auto simp: scan_inv_def split: if_splits)
  have si: "s \<le> i" using s(1) by (simp add: item_start_def)
  have c: "count \<le> length key" using inv by (simp add: scan_inv_def)
  have p: "prefix (slice bs s (Suc i)) key \<longleftrightarrow>
      prefix (slice bs s i) key \<and> i - s < length key \<and> key ! (i - s) = bs ! i"
    using slice_Suc [OF si b(1)] length_slice [OF si] b(1) by (simp add: prefix_snoc_nth)
  have at_end: "(key @ [0]) ! count = bs ! i \<longleftrightarrow> count < length key \<and> key ! count = bs ! i"
    using c b(3) by (auto simp: nth_append is_sep_def nth_Cons' split: if_splits)
  have step: "item_start bs s (Suc i)" "\<forall>x. s \<le> x \<and> x < Suc i \<longrightarrow> bs ! x \<noteq> 61"
    using item_start_step [OF s(1) b(3)] s(2) b(2) by (auto simp: less_Suc_eq)
  have nomatch: "\<forall>s' j. j < Suc i \<longrightarrow> \<not> key_match bs key s' j"
    using inv b(2) by (auto simp: scan_inv_def less_Suc_eq key_match_def)
  show ?thesis
    unfolding scan_inv_def using nomatch step s(3,4) p at_end c si
    by (auto intro!: exI [of _ s] simp: Suc_diff_le)
qed

lemma get_loop_first:
  assumes "at data 0 bs" "str_at key k"
  shows "scan_inv bs k i symbol count valid \<Longrightarrow> i + n = length bs \<Longrightarrow>
    \<exists>r. get_loop data key i n symbol count valid = Inr r \<and> first_match bs k r"
proof (induction n arbitrary: i symbol count valid)
  case 0
  then show ?case by (auto simp: first_match_def scan_inv_def key_match_def)
next
  case (Suc n)
  have i: "i < length bs" and rdi: "rd data i = Inr (bs ! i)"
    using Suc.prems(2) at_rd [OF assms(1), of i] by simp_all
  have c: "count \<le> length k" using Suc.prems(1) by (simp add: scan_inv_def)
  have rdk: "rd key count = Inr ((k @ [0]) ! count)"
    using assms(2) c by (cases "count = length k") (auto simp: str_at_def rd_def nth_append)
  consider "bs ! i = 61" valid | "bs ! i = 61" "\<not> valid" | "is_sep (bs ! i)"
    | "bs ! i \<noteq> 61" "\<not> is_sep (bs ! i)" "symbol = EQUAL \<or> symbol = VALUE"
    | "bs ! i \<noteq> 61" "\<not> is_sep (bs ! i)" "symbol = KEY \<or> symbol = SEPARATOR"
    using connection_parameter_symbol.exhaust by blast
  then show ?case
  proof cases
    case 1
    then show ?thesis
      using scan_equal_match Suc.prems(1) i rdi by (auto simp: next_key_def)
  next
    case 2
    then show ?thesis
      using Suc.IH [OF scan_equal_skip] Suc.prems i rdi by (simp add: next_key_def)
  next
    case 3
    then have "bs ! i \<noteq> 61" by (auto simp: is_sep_def)
    with 3 show ?thesis
      using Suc.IH [OF scan_separator [OF Suc.prems(1)]] Suc.prems rdi
      by (simp add: next_key_def is_sep_def)
  next
    case 4
    then have "next_key symbol (bs ! i) = VALUE" by (auto simp: next_key_def is_sep_def)
    with 4 show ?thesis
      using Suc.IH [OF scan_value [OF Suc.prems(1)]] Suc.prems rdi by simp
  next
    case 5
    then have "next_key symbol (bs ! i) = KEY" by (auto simp: next_key_def is_sep_def)
    with 5 show ?thesis
      using Suc.IH [of "Suc i" KEY "count + 1" valid] Suc.IH [of "Suc i" KEY count False]
        scan_key [OF Suc.prems(1) 5(3) i 5(1,2)] Suc.prems(2) rdi rdk
      by (auto split: if_splits)
  qed
qed

lemma get_first_match:
  assumes "at data 0 bs" "str_at key k" "sint len = int (length bs)"
  shows "\<exists>r. iscsi_parameter_get data len key = Inr r \<and> first_match bs k r"
proof -
  have "scan_inv bs k 0 KEY 0 True" by (auto simp: scan_inv_def item_start_def intro!: exI [of _ 0])
  from get_loop_first [OF assms(1,2) this, of "length bs"] assms(3)
  show ?thesis by (simp add: iscsi_parameter_get_def)
qed

end
