(* ===== verification/Iscsi_Offer.thy ===== *)
theory Iscsi_Offer
  imports Iscsi_Negotiation
begin

text \<open>
  The parameters the target sends back: \<open>iscsi_connection_parameter_generate_operational_data\<close> fills
  the parameter buffer with ten \<open>key=value\<close> pairs and, since each pair also goes through
  \<open>update_information\<close>, sets every parameter to what it printed. The lemmas show that the text is
  the expected one and that no negotiated value changes.
\<close>

text \<open>
  \<open>emits q f t\<close>: on the parameters \<open>q\<close>, whatever its buffer holds, \<open>f\<close> appends the text \<open>t\<close> and
  changes nothing else, as long as the buffer has the space.
\<close>

definition emits ::
  "iSCSIConnectionParameter \<Rightarrow> (iSCSIConnectionParameter \<Rightarrow> iSCSIConnectionParameter result)
   \<Rightarrow> byte list \<Rightarrow> bool" where
  "emits q f t \<longleftrightarrow> (\<forall>m n. 0 \<le> sint n \<longrightarrow> sint n + int (length t) \<le> 1048576 \<longrightarrow>
     (\<exists>m' n'. f (q\<lparr>pbuffer := m, plength := n\<rparr>) = Inr (q\<lparr>pbuffer := m', plength := n'\<rparr>)
        \<and> sint n' = sint n + int (length t)
        \<and> bytes_of m' 0 (nat (sint n')) = bytes_of m 0 (nat (sint n)) @ t))"

lemma emitsD:
  "emits q f t \<Longrightarrow> 0 \<le> sint n \<Longrightarrow> sint n + int (length t) \<le> 1048576 \<Longrightarrow>
   \<exists>m' n'. f (q\<lparr>pbuffer := m, plength := n\<rparr>) = Inr (q\<lparr>pbuffer := m', plength := n'\<rparr>)
     \<and> sint n' = sint n + int (length t)
     \<and> bytes_of m' 0 (nat (sint n')) = bytes_of m 0 (nat (sint n)) @ t"
  by (simp add: emits_def)

lemma emits_bind:
  assumes "emits q f t" "emits q g u"
  shows "emits q (\<lambda>p. bindR (f p) g) (t @ u)"
  unfolding emits_def
proof (intro allI impI)
  fix m and n :: cint assume n: "0 \<le> sint n" "sint n + int (length (t @ u)) \<le> 1048576"
  then have "sint n + int (length t) \<le> 1048576" by simp
  from emitsD [OF assms(1) n(1) this, of m] obtain m1 n1
    where 1: "f (q\<lparr>pbuffer := m, plength := n\<rparr>) = Inr (q\<lparr>pbuffer := m1, plength := n1\<rparr>)"
    "sint n1 = sint n + int (length t)"
    "bytes_of m1 0 (nat (sint n1)) = bytes_of m 0 (nat (sint n)) @ t" by blast
  then have "0 \<le> sint n1" "sint n1 + int (length u) \<le> 1048576" using n by simp_all
  from emitsD [OF assms(2) this, of m1] obtain m2 n2
    where "g (q\<lparr>pbuffer := m1, plength := n1\<rparr>) = Inr (q\<lparr>pbuffer := m2, plength := n2\<rparr>)"
    "sint n2 = sint n1 + int (length u)"
    "bytes_of m2 0 (nat (sint n2)) = bytes_of m1 0 (nat (sint n1)) @ u" by blast
  with 1 show "\<exists>m' n'. bindR (f (q\<lparr>pbuffer := m, plength := n\<rparr>)) g = Inr (q\<lparr>pbuffer := m', plength := n'\<rparr>)
        \<and> sint n' = sint n + int (length (t @ u))
        \<and> bytes_of m' 0 (nat (sint n')) = bytes_of m 0 (nat (sint n)) @ t @ u"
    by (intro exI [of _ m2] exI [of _ n2]) simp
qed

lemma blit_append:
  "bytes_of (blit m a f k) 0 (a + k) = bytes_of m 0 a @ map f [0..<k]"
proof -
  have "bytes_of (blit m a f k) 0 a = bytes_of m 0 a"
    by (rule bytes_of_cong) (simp add: blit_out)
  then show ?thesis by (simp add: bytes_of_append)
qed

lemma emits_write:
  assumes "str_at d s"
  shows "emits q (\<lambda>p. iscsi_connection_parameter_write p d) s"
  unfolding emits_def
proof (intro allI impI)
  fix m and n :: cint assume n: "0 \<le> sint n" "sint n + int (length s) \<le> 1048576"
  let ?m = "blit m (nat (sint n)) (\<lambda>i. blk d (pos d + i)) (length s)"
  let ?n = "n + word_of_nat (length s)"
  have w: "iscsi_connection_parameter_write (q\<lparr>pbuffer := m, plength := n\<rparr>) d
      = Inr (q\<lparr>pbuffer := ?m, plength := ?n\<rparr>)"
    using assms n c_strlen_str [OF assms]
    by (simp add: iscsi_connection_parameter_write_def c_memcpy_ok str_at_def)
  have l: "sint ?n = sint n + int (length s)"
    using n sint_of_nat [of "length s"] by (simp add: c_arith)
  have "map (\<lambda>i. blk d (pos d + i)) [0..<length s] = s"
    using assms by (intro nth_equalityI) (auto simp: str_at_def)
  then have "bytes_of ?m 0 (nat (sint n) + length s) = bytes_of m 0 (nat (sint n)) @ s"
    by (simp add: blit_append)
  moreover have "nat (sint ?n) = nat (sint n) + length s" using l n by simp
  ultimately show "\<exists>m' n'. iscsi_connection_parameter_write (q\<lparr>pbuffer := m, plength := n\<rparr>) d
        = Inr (q\<lparr>pbuffer := m', plength := n'\<rparr>) \<and> sint n' = sint n + int (length s)
        \<and> bytes_of m' 0 (nat (sint n')) = bytes_of m 0 (nat (sint n)) @ s"
    using w l by metis
qed

lemma emits_nul:
  "emits q (\<lambda>p. bindR (c_memset (pbuffer p) 1048576 (sint (plength p)) 0 1)
      (\<lambda>m. Inr (p\<lparr>pbuffer := m, plength := plength p + 1\<rparr>))) [0]"
  unfolding emits_def
proof (intro allI impI)
  fix m and n :: cint assume n: "0 \<le> sint n" "sint n + int (length [0 :: byte]) \<le> 1048576"
  let ?m = "blit m (nat (sint n)) (\<lambda>_. 0) 1"
  have l: "sint (n + 1) = sint n + 1" using n by (simp add: c_arith)
  have "bytes_of ?m 0 (nat (sint n) + 1) = bytes_of m 0 (nat (sint n)) @ [0]"
    using blit_append [of m "nat (sint n)" "\<lambda>_. 0" 1] by simp
  moreover have "nat (sint (n + 1)) = nat (sint n) + 1" using l n by simp
  ultimately show "\<exists>m' n'. bindR (c_memset (pbuffer (q\<lparr>pbuffer := m, plength := n\<rparr>)) 1048576
          (sint (plength (q\<lparr>pbuffer := m, plength := n\<rparr>))) 0 1)
          (\<lambda>m'. Inr (q\<lparr>pbuffer := m, plength := n\<rparr>\<lparr>pbuffer := m', plength := plength (q\<lparr>pbuffer := m, plength := n\<rparr>) + 1\<rparr>))
        = Inr (q\<lparr>pbuffer := m', plength := n'\<rparr>) \<and> sint n' = sint n + int (length [0 :: byte])
        \<and> bytes_of m' 0 (nat (sint n')) = bytes_of m 0 (nat (sint n)) @ [0]"
    using l n by (intro exI [of _ ?m] exI [of _ "n + 1"]) (simp add: c_memset_ok)
qed

text \<open>A pair whose value the parameters already have.\<close>

definition settled :: "iSCSIConnectionParameter \<Rightarrow> byte list \<times> byte list \<Rightarrow> bool" where
  "settled q kv \<longleftrightarrow> (\<forall>m n. apply_pair (q\<lparr>pbuffer := m, plength := n\<rparr>) kv = q\<lparr>pbuffer := m, plength := n\<rparr>)"

lemma emits_settled:
  assumes "settled q (k, v)" "str_at key k" "str_at val v"
  shows "emits q (\<lambda>p. update_information p key val) []"
  using assms by (auto simp: emits_def settled_def update_information_str)

lemma update_unfold:
  "iscsi_connection_parameter_update p key val =
     bindR (iscsi_connection_parameter_write p key) (\<lambda>p.
     bindR (iscsi_connection_parameter_write p (lit (cstr ''=''))) (\<lambda>p.
     bindR (iscsi_connection_parameter_write p val) (\<lambda>p.
     bindR (bindR (c_memset (pbuffer p) 1048576 (sint (plength p)) 0 1)
       (\<lambda>m. Inr (p\<lparr>pbuffer := m, plength := plength p + 1\<rparr>)))
       (\<lambda>p. update_information p key val))))"
  by (simp only: iscsi_connection_parameter_update_def bindR_assoc bindR.simps
      ISCSI_CONNECTION_PARAMETER_BUFFER_SIZE_def)

lemma emits_update:
  assumes "settled q (k, v)" "str_at key k" "str_at val v"
  shows "emits q (\<lambda>p. iscsi_connection_parameter_update p key val) (pair_text (k, v))"
proof -
  have e: "str_at (lit (cstr ''='')) [61]"
    using str_at_lit [of "cstr ''=''"] by (simp add: cstr_def)
  have "emits q (\<lambda>p. iscsi_connection_parameter_update p key val) (k @ [61] @ v @ [0] @ [])"
    unfolding update_unfold
    by (intro emits_bind emits_write emits_nul emits_settled [OF assms] assms e)
  then show ?thesis by (simp add: pair_text_def)
qed

lemma emits_int:
  assumes "settled q (k, decimal (nat (sint (get q))))" "0 \<le> sint (get q)" "0 \<notin> set k"
    and "\<And>m n. get (q\<lparr>pbuffer := m, plength := n\<rparr>) = get q"
  shows "emits q (update_int k get) (pair_text (k, decimal (nat (sint (get q)))))"
  using emits_update [OF assms(1) str_at_lit [OF assms(3)]
      int_to_string_str [OF assms(2), of "\<lambda>_. 0"]] assms(4)
  by (simp add: emits_def update_int_def)

lemma emits_bool:
  assumes "settled q (k, cstr ''YES'')" "get q = 1" "0 \<notin> set k"
    and "\<And>m n. get (q\<lparr>pbuffer := m, plength := n\<rparr>) = get q"
  shows "emits q (update_bool k get) (pair_text (k, cstr ''YES''))"
  using emits_update [OF assms(1) str_at_lit [OF assms(3)] str_at_lit [OF cstr_no_nul(2)]] assms(2,4)
  by (simp add: emits_def update_bool_def bool_to_string_def)

text \<open>The ten pairs, in the order the code writes them.\<close>

definition offered :: "iSCSIConnectionParameter \<Rightarrow> (byte list \<times> byte list) list" where
  "offered q =
    [(MAX_CONNECTIONS, decimal (nat (sint (max_connections q)))),
     (INITIAL_R2T, cstr ''YES''),
     (IMMEDIATE_DATA, cstr ''YES''),
     (MAX_BURST_LENGTH, decimal (nat (sint (max_burst_length q)))),
     (FIRST_BURST_LENGTH, decimal (nat (sint (first_burst_length q)))),
     (DATA_PDU_IN_ORDER, cstr ''YES''),
     (DATA_SEQUENCE_IN_ORDER, cstr ''YES''),
     (DEFAULT_TIME_2_WAIT, decimal (nat (sint (default_time_2_wait q)))),
     (DEFAULT_TIME_2_RETAIN, decimal (nat (sint (default_time_2_retain q)))),
     (MAX_OUTSTANDING_R2T, decimal (nat (sint (max_outstanding_r2t q))))]"

definition non_negative :: "iSCSIConnectionParameter \<Rightarrow> bool" where
  "non_negative q \<longleftrightarrow> 0 \<le> sint (max_connections q) \<and> 0 \<le> sint (max_burst_length q)
     \<and> 0 \<le> sint (first_burst_length q) \<and> 0 \<le> sint (max_outstanding_r2t q)"

lemma digits_value_self: "0 \<le> sint x \<Longrightarrow> digits_value 0 (decimal (nat (sint x))) = x"
  by (simp add: digits_value_decimal)

lemma c_min_self: "sint x \<le> sint y \<Longrightarrow> c_min x y = x"
  by (metis c_min_def order_le_less signed_word_eqI)

lemma c_max_self: "sint y \<le> sint x \<Longrightarrow> c_max x y = x"
  by (metis c_max_def order_le_less signed_word_eqI)

lemma apply_pair_numbers:
  "apply_pair q (MAX_CONNECTIONS, v) = q\<lparr>max_connections := c_min (digits_value 0 v) 1\<rparr>"
  "apply_pair q (MAX_BURST_LENGTH, v) = q\<lparr>max_burst_length := c_min (digits_value 0 v) 8192\<rparr>"
  "apply_pair q (FIRST_BURST_LENGTH, v) = q\<lparr>first_burst_length := c_min (digits_value 0 v) 8192\<rparr>"
  "apply_pair q (DEFAULT_TIME_2_WAIT, v) = q\<lparr>default_time_2_wait := c_max (digits_value 0 v) 10\<rparr>"
  "apply_pair q (DEFAULT_TIME_2_RETAIN, v) = q\<lparr>default_time_2_retain := c_max (digits_value 0 v) 10\<rparr>"
  "apply_pair q (MAX_OUTSTANDING_R2T, v) = q\<lparr>max_outstanding_r2t := c_min (digits_value 0 v) 10\<rparr>"
  by (simp_all add: apply_pair_def Let_def keep_or_def parameter_keys cstr_def)

lemma apply_pair_booleans:
  "apply_pair q (INITIAL_R2T, v) = q\<lparr>initial_r2t := 1\<rparr>"
  "apply_pair q (IMMEDIATE_DATA, v) = q\<lparr>immediate_data := 1\<rparr>"
  "apply_pair q (DATA_PDU_IN_ORDER, v) = q\<lparr>data_pdu_in_order := 1\<rparr>"
  "apply_pair q (DATA_SEQUENCE_IN_ORDER, v) = q\<lparr>data_sequence_in_order := 1\<rparr>"
  by (simp_all add: apply_pair_def Let_def keep_or_def parameter_keys cstr_def)

lemma settled_numbers:
  assumes "negotiated q" "non_negative q"
  shows "settled q (MAX_CONNECTIONS, decimal (nat (sint (max_connections q))))"
    "settled q (MAX_BURST_LENGTH, decimal (nat (sint (max_burst_length q))))"
    "settled q (FIRST_BURST_LENGTH, decimal (nat (sint (first_burst_length q))))"
    "settled q (DEFAULT_TIME_2_WAIT, decimal (nat (sint (default_time_2_wait q))))"
    "settled q (DEFAULT_TIME_2_RETAIN, decimal (nat (sint (default_time_2_retain q))))"
    "settled q (MAX_OUTSTANDING_R2T, decimal (nat (sint (max_outstanding_r2t q))))"
  using assms
  by (simp_all add: settled_def apply_pair_numbers digits_value_self c_min_self c_max_self
      negotiated_def non_negative_def)

lemma settled_booleans:
  assumes "negotiated q"
  shows "settled q (INITIAL_R2T, v)" "settled q (IMMEDIATE_DATA, v)"
    "settled q (DATA_PDU_IN_ORDER, v)" "settled q (DATA_SEQUENCE_IN_ORDER, v)"
  using assms by (simp_all add: settled_def apply_pair_booleans negotiated_def)

lemma emits_operational_data:
  assumes "negotiated q" "non_negative q"
  shows "emits q (\<lambda>p.
     bindR (update_int MAX_CONNECTIONS max_connections p) (\<lambda>p.
     bindR (update_bool INITIAL_R2T initial_r2t p) (\<lambda>p.
     bindR (update_bool IMMEDIATE_DATA immediate_data p) (\<lambda>p.
     bindR (update_int MAX_BURST_LENGTH max_burst_length p) (\<lambda>p.
     bindR (update_int FIRST_BURST_LENGTH first_burst_length p) (\<lambda>p.
     bindR (update_bool DATA_PDU_IN_ORDER data_pdu_in_order p) (\<lambda>p.
     bindR (update_bool DATA_SEQUENCE_IN_ORDER data_sequence_in_order p) (\<lambda>p.
     bindR (update_int DEFAULT_TIME_2_WAIT default_time_2_wait p) (\<lambda>p.
     bindR (update_int DEFAULT_TIME_2_RETAIN default_time_2_retain p) (\<lambda>p.
     update_int MAX_OUTSTANDING_R2T max_outstanding_r2t p))))))))))
   (pairs_text (offered q))"
proof -
  have n: "0 \<le> sint (max_connections q)" "0 \<le> sint (max_burst_length q)"
    "0 \<le> sint (first_burst_length q)" "0 \<le> sint (default_time_2_wait q)"
    "0 \<le> sint (default_time_2_retain q)" "0 \<le> sint (max_outstanding_r2t q)"
    "initial_r2t q = 1" "immediate_data q = 1" "data_pdu_in_order q = 1" "data_sequence_in_order q = 1"
    using assms by (simp_all add: negotiated_def non_negative_def)
  show ?thesis
    unfolding pairs_text_def offered_def list.map concat.simps append_Nil2
    by (intro emits_bind emits_int emits_bool settled_numbers settled_booleans assms n keys_no_nul)
      simp_all
qed

lemma length_pair_text: "length (pair_text (k, v)) = length k + length v + 2"
  by (simp add: pair_text_def)

lemma length_decimal: "length (decimal (nat (sint (s :: cint)))) \<le> 10"
  using nat_sint_dec_length [of s] by (simp add: decimal_def)

lemma length_offered: "length (pairs_text (offered q)) \<le> 300"
  using length_decimal [of "max_connections q"] length_decimal [of "max_burst_length q"]
    length_decimal [of "first_burst_length q"] length_decimal [of "default_time_2_wait q"]
    length_decimal [of "default_time_2_retain q"] length_decimal [of "max_outstanding_r2t q"]
  by (simp add: offered_def pairs_text_def length_pair_text parameter_keys)

lemma generate_operational_data_ok:
  assumes "negotiated q" "non_negative q"
  obtains m n where "iscsi_connection_parameter_generate_operational_data q
      = Inr (q\<lparr>pbuffer := m, plength := n\<rparr>)"
    "sint n = int (length (pairs_text (offered q)))"
    "bytes_of m 0 (length (pairs_text (offered q))) = pairs_text (offered q)"
proof -
  have q: "q\<lparr>plength := 0\<rparr> = q\<lparr>pbuffer := pbuffer q, plength := 0\<rparr>" by simp
  have l: "0 \<le> sint (0 :: cint)" "sint (0 :: cint) + int (length (pairs_text (offered q))) \<le> 1048576"
    using length_offered [of q] by simp_all
  from emitsD [OF emits_operational_data [OF assms] l, of "pbuffer q"] obtain m n
    where "iscsi_connection_parameter_generate_operational_data q
      = Inr (q\<lparr>pbuffer := m, plength := n\<rparr>)"
    "sint n = sint (0 :: cint) + int (length (pairs_text (offered q)))"
    "bytes_of m 0 (nat (sint n)) = bytes_of (pbuffer q) 0 (nat (sint (0 :: cint))) @ pairs_text (offered q)"
    unfolding iscsi_connection_parameter_generate_operational_data_def parameter_getters q by blast
  with that show thesis by simp
qed

section \<open>Reading the offer back\<close>

text \<open>Two parameter records that agree on every value the offer carries.\<close>

definition same_offer :: "iSCSIConnectionParameter \<Rightarrow> iSCSIConnectionParameter \<Rightarrow> bool" where
  "same_offer p q \<longleftrightarrow> max_connections p = max_connections q \<and> initial_r2t p = initial_r2t q
     \<and> immediate_data p = immediate_data q \<and> max_burst_length p = max_burst_length q
     \<and> first_burst_length p = first_burst_length q \<and> data_pdu_in_order p = data_pdu_in_order q
     \<and> data_sequence_in_order p = data_sequence_in_order q
     \<and> default_time_2_wait p = default_time_2_wait q
     \<and> default_time_2_retain p = default_time_2_retain q
     \<and> max_outstanding_r2t p = max_outstanding_r2t q"

lemma dec_no_equal: "61 \<notin> set (dec n)"
proof (induction n rule: dec.induct)
  case (1 n)
  have "n mod 10 < 10" by simp
  then have "(n mod 10 + 48) mod 256 \<noteq> 61" by arith
  then have "(of_nat (n mod 10 + 48) :: byte) \<noteq> of_nat 61"
    by (simp only: word_of_nat_eq_iff) (simp add: take_bit_eq_mod)
  with 1 show ?case by (subst dec.simps) auto
qed

lemma offered_wf: "list_all wf_pair (offered q)"
  by (simp add: offered_def wf_pair_def keys_no_nul decimal_def dec_no_nul dec_no_equal cstr_def)
    (simp add: parameter_keys cstr_def)

lemma foldl_offered:
  assumes "negotiated q" "non_negative q"
  shows "same_offer (foldl apply_pair p (offered q)) q"
  using assms by (simp add: offered_def apply_pair_numbers apply_pair_booleans same_offer_def
      digits_value_self c_min_self c_max_self negotiated_def non_negative_def)

end
