(* ===== verification/Iscsi_Setup.thy ===== *)
theory Iscsi_Setup
  imports Iscsi_Sessions Iscsi_Lookup Iscsi_Offer
begin

text \<open>
  Logins whose text is a sequence of \<open>key=value\<close> pairs without commas. On such a text the look-up of a
  key is the first pair whose key is a prefix of it (\<open>find_pair\<close>), so the session setup can be
  written over the pairs, and a login in the operational stage runs through to the full feature
  phase.
\<close>

section \<open>Looking a key up among pairs\<close>

definition plain :: "byte list \<Rightarrow> bool" where
  "plain xs \<longleftrightarrow> (\<forall>b \<in> set xs. b \<noteq> 61 \<and> \<not> is_sep b)"

definition plain_pair :: "byte list \<times> byte list \<Rightarrow> bool" where
  "plain_pair kv \<longleftrightarrow> fst kv \<noteq> [] \<and> plain (fst kv) \<and> plain (snd kv)"

definition find_pair :: "(byte list \<times> byte list) list \<Rightarrow> byte list \<Rightarrow> (byte list \<times> byte list) option" where
  "find_pair kvs key = find (\<lambda>kv. prefix (fst kv) key) kvs"

lemma plain_pair_wf: "list_all plain_pair kvs \<Longrightarrow> list_all wf_pair kvs"
  by (auto simp: list_all_iff plain_pair_def plain_def wf_pair_def is_sep_def)

declare get_loop.simps(2) [simp del]

lemma key_byte: "str_at key k \<Longrightarrow> count \<le> length k \<Longrightarrow> rd key count = Inr ((k @ [0]) ! count)"
  by (auto simp: str_at_def rd_def nth_append)

text \<open>The scan over the key part of an item, and over the value part.\<close>

lemma get_loop_key:
  assumes key: "str_at key k0"
  shows "at data s k \<Longrightarrow> k \<noteq> [] \<Longrightarrow> plain k \<Longrightarrow> symbol = KEY \<or> symbol = SEPARATOR \<Longrightarrow> count \<le> length k0
    \<Longrightarrow> \<exists>count' valid'. get_loop data key s (length k + n) symbol count valid
          = get_loop data key (s + length k) n KEY count' valid'
        \<and> count' \<le> length k0 \<and> (valid' \<longleftrightarrow> valid \<and> prefix k (drop count k0))"
proof (induction k arbitrary: s symbol count valid)
  case (Cons b k)
  have b: "rd data s = Inr b" "b \<noteq> 61" "\<not> is_sep b" "b \<noteq> 0"
    using Cons.prems(1,3) at_rd [OF Cons.prems(1), of 0] by (auto simp: plain_def is_sep_def)
  have sym: "next_key symbol b = KEY" using b Cons.prems(4) by (auto simp: next_key_def is_sep_def)
  let ?eq = "b = (k0 @ [0]) ! count"
  let ?c = "if ?eq then count + 1 else count" and ?v = "if ?eq then valid else False"
  have step: "get_loop data key s (length (b # k) + n) symbol count valid
      = get_loop data key (Suc s) (length k + n) KEY ?c ?v"
    using b key_byte [OF key Cons.prems(5)] by (simp add: get_loop.simps(2) sym)
  have c: "?c \<le> length k0" using Cons.prems(5) b by (auto simp: nth_append split: if_splits)
  have p: "prefix (b # k) (drop count k0) \<longleftrightarrow> ?eq \<and> prefix k (drop (count + 1) k0)"
    using Cons.prems(5) b by (cases "drop count k0") (auto simp: nth_append drop_Suc drop_eq_Nil
        dest: nth_via_drop arg_cong [where f = tl] simp flip: tl_drop)
  show ?case
  proof (cases "k = []")
    case True
    then show ?thesis using step c p by (intro exI [of _ ?c] exI [of _ ?v]) auto
  next
    case False
    have "at data (Suc s) k" "plain k" using Cons.prems(1,3) by (simp_all add: at_Cons plain_def)
    from Cons.IH [OF this(1) False this(2) _ c, of KEY ?v] step p show ?thesis by auto
  qed
qed simp

lemma get_loop_value:
  "at data s v \<Longrightarrow> plain v \<Longrightarrow> symbol = EQUAL \<or> symbol = VALUE \<Longrightarrow>
   \<exists>symbol'. (symbol' = EQUAL \<or> symbol' = VALUE) \<and>
     get_loop data key s (length v + n) symbol count valid = get_loop data key (s + length v) n symbol' count valid"
proof (induction v arbitrary: s symbol)
  case (Cons b v)
  have b: "rd data s = Inr b" "b \<noteq> 61" "\<not> is_sep b"
    using Cons.prems(1,2) at_rd [OF Cons.prems(1), of 0] by (auto simp: plain_def)
  have sym: "next_key symbol b = VALUE" using b Cons.prems(3) by (auto simp: next_key_def is_sep_def)
  have step: "get_loop data key s (length (b # v) + n) symbol count valid
      = get_loop data key (Suc s) (length v + n) VALUE count valid"
    using b by (simp add: get_loop.simps(2) sym)
  have "at data (Suc s) v" "plain v" using Cons.prems(1,2) by (simp_all add: at_Cons plain_def)
  from Cons.IH [OF this, of VALUE] step show ?case by simp
qed auto

lemma get_loop_pair:
  assumes a: "at data s (pair_text (k, v))" and w: "plain_pair (k, v)" and key: "str_at key k0"
    and symbol: "symbol = KEY \<or> symbol = SEPARATOR"
  shows "get_loop data key s (length (pair_text (k, v)) + n) symbol 0 True
    = (if prefix k k0 then Inr (Some (s + length k + 1))
       else get_loop data key (s + length (pair_text (k, v))) n SEPARATOR 0 True)"
proof -
  have k: "k \<noteq> []" "plain k" "plain v" using w by (simp_all add: plain_pair_def)
  have parts: "at data s k" "rd data (s + length k) = Inr 61" "at data (s + length k + 1) v"
    "rd data (s + length k + 1 + length v) = Inr 0"
    using a by (auto simp: pair_text_def at_append at_Cons at_Nil rd_def)
  obtain count valid where g: "get_loop data key s (length k + (length v + 2 + n)) symbol 0 True
      = get_loop data key (s + length k) (length v + 2 + n) KEY count valid" "valid \<longleftrightarrow> prefix k k0"
    using get_loop_key [OF key parts(1) k(1,2) symbol, of 0 "length v + 2 + n" True] by auto
  have e: "get_loop data key (s + length k) (length v + 2 + n) KEY count valid
      = (if valid then Inr (Some (s + length k + 1))
         else get_loop data key (s + length k + 1) (length v + (1 + n)) EQUAL count False)"
    using parts(2) by (simp add: get_loop.simps(2) next_key_def)
  obtain symbol' where sv: "symbol' = EQUAL \<or> symbol' = VALUE"
    "get_loop data key (s + length k + 1) (length v + (1 + n)) EQUAL count False
      = get_loop data key (s + length k + 1 + length v) (1 + n) symbol' count False"
    using get_loop_value [OF parts(3) k(3), of EQUAL key "1 + n" count False] by auto
  have "get_loop data key (s + length k + 1 + length v) (1 + n) symbol' count False
      = get_loop data key (s + length k + length v + 2) n SEPARATOR 0 True"
    using parts(4) by (simp add: get_loop.simps(2) next_key_def)
  with g e sv show ?thesis by (simp add: length_pair_text add.assoc)
qed

lemma get_loop_pairs:
  assumes key: "str_at key k0"
  shows "at data s (pairs_text kvs) \<Longrightarrow> list_all plain_pair kvs \<Longrightarrow> symbol = KEY \<or> symbol = SEPARATOR \<Longrightarrow>
    \<exists>r. get_loop data key s (length (pairs_text kvs)) symbol 0 True = Inr r
      \<and> (case find_pair kvs k0 of None \<Rightarrow> r = None | Some kv \<Rightarrow> \<exists>p. r = Some p \<and> at data p (snd kv @ [0]))"
proof (induction kvs arbitrary: s symbol)
  case (Cons kv kvs)
  obtain k v where kv: "kv = (k, v)" by (cases kv)
  have parts: "at data s (pair_text (k, v))" "at data (s + length (pair_text (k, v))) (pairs_text kvs)"
    "plain_pair (k, v)"
    using Cons.prems(1,2) by (simp_all add: kv pairs_text_def at_append)
  have v: "at data (s + length k + 1) (v @ [0])"
    using parts(1) by (simp add: pair_text_def at_append at_Cons)
  show ?case
    using get_loop_pair [OF parts(1,3) key Cons.prems(3), of "length (pairs_text kvs)"] v
      Cons.IH [OF parts(2), of SEPARATOR] Cons.prems(2)
    by (auto simp: kv find_pair_def pairs_text_def)
qed (simp add: pairs_text_def find_pair_def)

lemma parameter_get_pairs:
  assumes "at (iscsi_connection_parameter_data par) 0 (pairs_text kvs)" "list_all plain_pair kvs"
    "sint (plength par) = int (length (pairs_text kvs))" "0 \<notin> set k0"
  shows "\<exists>r. iscsi_connection_parameter_get par (lit k0) = Inr r
      \<and> (case find_pair kvs k0 of None \<Rightarrow> r = None
         | Some kv \<Rightarrow> \<exists>p. r = Some p \<and> str_at (padd (iscsi_connection_parameter_data par) p) (snd kv))"
proof -
  from get_loop_pairs [OF str_at_lit [OF assms(4)] assms(1,2), of KEY] assms(3)
  obtain r where r: "iscsi_connection_parameter_get par (lit k0) = Inr r"
    "case find_pair kvs k0 of None \<Rightarrow> r = None
      | Some kv \<Rightarrow> \<exists>p. r = Some p \<and> at (iscsi_connection_parameter_data par) p (snd kv @ [0])"
    by (auto simp: iscsi_connection_parameter_get_def iscsi_parameter_get_def)
  have "0 \<notin> set (snd kv)" if "find_pair kvs k0 = Some kv" for kv
    using that assms(2) by (auto simp: find_pair_def find_Some_iff list_all_length plain_pair_def plain_def is_sep_def)
  with r show ?thesis by (auto simp: split: option.splits intro!: at_str)
qed

lemma parameter_get_found:
  assumes "at (iscsi_connection_parameter_data par) 0 (pairs_text kvs)" "list_all plain_pair kvs"
    "sint (plength par) = int (length (pairs_text kvs))" "0 \<notin> set k0"
  shows "\<exists>r. iscsi_connection_parameter_get par (lit k0) = Inr r \<and> (r = None \<longleftrightarrow> find_pair kvs k0 = None)"
  using parameter_get_pairs [OF assms] by (cases "find_pair kvs k0") auto

section \<open>The session setup over pairs\<close>

lemma key_equal_exact: "str_at key k \<Longrightarrow> 0 \<notin> set name \<Longrightarrow> key_equal key (name @ [0]) = Inr (k = name)"
proof (induction name arbitrary: key k)
  case Nil
  then show ?case by (cases k) (auto simp: str_at_Cons rd_def str_at_Nil)
next
  case (Cons c name)
  then show ?case by (cases k) (auto simp: str_at_Cons rd_def str_at_Nil)
qed

text \<open>The reference for \<open>setup_session\<close>, on the pairs of the login text.\<close>

definition joined :: "'d world \<Rightarrow> 'd world" where
  "joined w = w\<lparr>connection := (connection w)\<lparr>session_reference := DefaultSession,
     connection_id := iscsi_pdu_login_CID (request_of (connection w)) 0\<rparr>\<rparr>"

definition setup_by_pairs ::
  "'d os \<Rightarrow> (byte list \<times> byte list) list \<Rightarrow> 'd world \<Rightarrow> (login_status \<times> 'd world) result" where
  "setup_by_pairs os kvs w =
     (if find_pair kvs (cstr ''InitiatorName'') = None then Inr (INITIATOR_ERROR, w)
      else if iscsi_pdu_login_TSIH (request_of (connection w)) 0 \<noteq> 0 then
        (if iscsi_session_full (default_session w) then Inr (TOO_MANY_CONNECTION, w)
         else Inr (SUCCESS, joined w))
      else
        bindR (iscsi_session_create os w) (\<lambda>w.
        let w = (joined w)\<lparr>default_session := (default_session w)\<lparr>
                  ExpCmdSN := iscsi_pdu_login_ExpCmdSN (request_of (connection w)) 0\<rparr>\<rparr> in
        case find_pair kvs (cstr ''SessionType'') of
          None \<Rightarrow> Inl NullPointer
        | Some kv \<Rightarrow>
            if snd kv = cstr ''Discovery'' then
              Inr (SUCCESS, w\<lparr>default_session := (default_session w)\<lparr>is_discovery := 1\<rparr>\<rparr>)
            else if find_pair kvs (cstr ''TargetName'') = None then Inr (INITIATOR_ERROR, w)
            else Inr (SUCCESS, w\<lparr>default_session := (default_session w)\<lparr>is_discovery := 0,
                       session_target := DefaultTarget\<rparr>\<rparr>)))"

lemma login_names_no_nul:
  "0 \<notin> set (cstr ''InitiatorName'')" "0 \<notin> set (cstr ''SessionType'')" "0 \<notin> set (cstr ''TargetName'')"
  "0 \<notin> set (cstr ''Discovery'')"
  by (simp_all add: cstr_def)

lemma session_create_parts:
  "iscsi_session_create os w = Inr w' \<Longrightarrow> connection w' = connection w \<and> device w' = device w"
  by (auto simp: iscsi_session_create_def)

lemma setup_session_pairs:
  fixes w :: "'d world"
  defines "par \<equiv> conn_parameter (connection w)"
  assumes a: "at (iscsi_connection_parameter_data par) 0 (pairs_text kvs)" "list_all plain_pair kvs"
    "sint (plength par) = int (length (pairs_text kvs))"
  shows "setup_session os w = setup_by_pairs os kvs w"
proof -
  obtain ini where i: "iscsi_connection_parameter_get par (lit (cstr ''InitiatorName'')) = Inr ini"
    "ini = None \<longleftrightarrow> find_pair kvs (cstr ''InitiatorName'') = None"
    using parameter_get_found [OF a login_names_no_nul(1)] by auto
  obtain ty where ty: "iscsi_connection_parameter_get par (lit (cstr ''SessionType'')) = Inr ty"
    "case find_pair kvs (cstr ''SessionType'') of None \<Rightarrow> ty = None
       | Some kv \<Rightarrow> \<exists>p. ty = Some p \<and> str_at (padd (iscsi_connection_parameter_data par) p) (snd kv)"
    using parameter_get_pairs [OF a login_names_no_nul(2)] by auto
  obtain tn where tn: "iscsi_connection_parameter_get par (lit (cstr ''TargetName'')) = Inr tn"
    "tn = None \<longleftrightarrow> find_pair kvs (cstr ''TargetName'') = None"
    using parameter_get_found [OF a login_names_no_nul(3)] by auto
  show ?thesis
  proof (cases "iscsi_session_create os w")
    case (Inl e)
    then show ?thesis
      using i by (simp add: setup_session_def setup_by_pairs_def Let_def joined_def
          iscsi_session_add_connection_def flip: par_def)
  next
    case (Inr w1)
    note w1 = session_create_parts [OF Inr]
    note unfold = setup_session_def setup_by_pairs_def Let_def joined_def iscsi_session_add_connection_def
    show ?thesis
    proof (cases "ini = None \<or> iscsi_pdu_login_TSIH (request_of (connection w)) 0 \<noteq> 0")
      case True
      then show ?thesis using i by (auto simp: unfold simp flip: par_def)
    next
      case False
      then obtain kv0 i0 where new: "find_pair kvs (cstr ''InitiatorName'') = Some kv0" "ini = Some i0"
        "iscsi_pdu_login_TSIH (request_of (connection w)) 0 = 0"
        using i by (cases "find_pair kvs (cstr ''InitiatorName'')"; cases ini) auto
      show ?thesis
      proof (cases "find_pair kvs (cstr ''SessionType'')")
        case None
        then show ?thesis using new i ty Inr by (simp add: unfold flip: par_def)
      next
        case (Some kv)
        then obtain p where p: "ty = Some p"
          "key_equal (padd (iscsi_connection_parameter_data par) p) (cstr ''Discovery'' @ [0])
            = Inr (snd kv = cstr ''Discovery'')"
          using ty key_equal_exact [OF _ login_names_no_nul(4)] by auto
        show ?thesis
          using new i ty(1) tn Inr Some p w1
          by (cases "snd kv = cstr ''Discovery''"; cases "tn = None")
            (simp_all add: unfold c_strcmp_eq_def setup_normal_session_def flip: par_def)
      qed
    qed
  qed
qed

section \<open>A login request whose text is pairs\<close>

definition login_text :: "iSCSIConnection \<Rightarrow> (byte list \<times> byte list) list \<Rightarrow> bool" where
  "login_text c kvs \<longleftrightarrow> list_all plain_pair kvs \<and> at (iscsi_pdu_data c) 0 (pairs_text kvs)
     \<and> dsl (request_of c) 0 = length (pairs_text kvs) \<and> length (pairs_text kvs) \<le> 1048576"

definition login_parameter ::
  "iSCSIConnection \<Rightarrow> (byte list \<times> byte list) list \<Rightarrow> iSCSIConnectionParameter" where
  "login_parameter c kvs = foldl apply_pair (set_default_parameter ((conn_parameter c)\<lparr>
     pbuffer := blit (pbuffer (conn_parameter c)) 0 (\<lambda>i. request_of c (48 + i)) (length (pairs_text kvs)),
     plength := iscsi_pdu_data_segment_length (request_of c) 0\<rparr>)) kvs"

lemma apply_pair_buffer [simp]:
  "pbuffer (apply_pair p kv) = pbuffer p" "plength (apply_pair p kv) = plength p"
  by (simp_all add: apply_pair_def Let_def keep_or_def)

lemma foldl_apply_pair_buffer [simp]:
  "pbuffer (foldl apply_pair p kvs) = pbuffer p" "plength (foldl apply_pair p kvs) = plength p"
  by (induction kvs arbitrary: p) simp_all

lemma iscsi_pdu_data_sel [simp]:
  "blk (iscsi_pdu_data c) = request_of c" "pos (iscsi_pdu_data c) = 48" "bsz (iscsi_pdu_data c) = 4194304"
  by (simp_all add: iscsi_pdu_data_def request_ptr_def iscsi_buffer_data_def request_of_def)

lemma login_create:
  assumes "login_text c kvs"
  shows "iscsi_connection_parameter_create (conn_parameter c) (iscsi_pdu_data c)
      (iscsi_pdu_data_segment_length (request_of c) 0) = Inr (login_parameter c kvs, request_of c)"
    and "at (iscsi_connection_parameter_data (login_parameter c kvs)) 0 (pairs_text kvs)"
    and "sint (plength (login_parameter c kvs)) = int (length (pairs_text kvs))"
    and "negotiated (login_parameter c kvs)"
proof -
  have n: "sint (iscsi_pdu_data_segment_length (request_of c) 0) = int (length (pairs_text kvs))"
    using assms by (simp add: sint_dsl login_text_def)
  show c: "iscsi_connection_parameter_create (conn_parameter c) (iscsi_pdu_data c)
      (iscsi_pdu_data_segment_length (request_of c) 0) = Inr (login_parameter c kvs, request_of c)"
    using assms create_text [OF _ plain_pair_wf _ n, of "iscsi_pdu_data c" "conn_parameter c"]
    by (simp add: login_text_def login_parameter_def)
  show "sint (plength (login_parameter c kvs)) = int (length (pairs_text kvs))"
    using n by (simp add: login_parameter_def set_default_parameter_def)
  show "negotiated (login_parameter c kvs)" by (rule create_negotiated [OF c])
  show "at (iscsi_connection_parameter_data (login_parameter c kvs)) 0 (pairs_text kvs)"
    using assms by (simp add: login_text_def at_def iscsi_connection_parameter_data_def login_parameter_def
        set_default_parameter_def blit_def)
qed

lemma login_process_text:
  fixes w :: "'d world"
  assumes t: "login_text (connection w) kvs"
  defines "w1 \<equiv> w\<lparr>connection := (connection w)\<lparr>conn_parameter := login_parameter (connection w) kvs\<rparr>\<rparr>"
  shows "iscsi_request_login_process os w =
    (if iscsi_pdu_login_continue (request_of (connection w)) 0 \<noteq> 0
     then with_connection w1 (response_partial_login (connection w1))
     else if session_reference (connection w) = NoSession then
       bindR (setup_by_pairs os kvs w1) (\<lambda>(st, w2).
         if st \<noteq> SUCCESS then with_connection w2 (response_status_only (connection w2) st)
         else response_final_login w2)
     else response_final_login w1)"
proof -
  have "(receive_buffer (connection w))\<lparr>bdata := request_of (connection w)\<rparr> = receive_buffer (connection w)"
    by (simp add: request_of_def)
  then have "iscsi_request_login_process os w =
    (if iscsi_pdu_login_continue (request_of (connection w)) 0 \<noteq> 0
     then with_connection w1 (response_partial_login (connection w1))
     else if session_reference (connection w) = NoSession then
       bindR (setup_session os w1) (\<lambda>(st, w2).
         if st \<noteq> SUCCESS then with_connection w2 (response_status_only (connection w2) st)
         else response_final_login w2)
     else response_final_login w1)"
    by (simp add: iscsi_request_login_process_def login_create(1) [OF t] Let_def w1_def)
  moreover have "setup_session os w1 = setup_by_pairs os kvs w1"
    using login_create [OF t] t by (intro setup_session_pairs) (simp_all add: w1_def login_text_def)
  ultimately show ?thesis by simp
qed

section \<open>Entering the full feature phase\<close>

lemma final_header_frame:
  assumes "req 4 = 0" "sint len = int (length d)" "length d < 16777216"
  shows "frame (final_header req st tsih len sn ec @ d @ pad_zeros (48 + length d))"
  using assms by (intro frame_bytes) (simp_all add: final_header_def be24_def)

text \<open>The message that ends a login in the operational stage: the header, the offer, the padding.\<close>

definition operational_message :: "'d world \<Rightarrow> byte list" where
  "operational_message w = (let c = connection w; text = pairs_text (offered (conn_parameter c)) in
     final_header (request_of c) SUCCESS (TSIH (default_session w)) (word_of_nat (length text)) (stat_sn c)
       (expected_cmd_sn c) @ text @ pad_zeros (48 + length text))"

lemma length_operational_message:
  "length (operational_message w) = padn (48 + length (pairs_text (offered (conn_parameter (connection w)))))"
  using padn_bounds [of "48 + length (pairs_text (offered (conn_parameter (connection w))))"]
  by (simp add: operational_message_def Let_def)

definition operational_login :: "mem \<Rightarrow> bool" where
  "operational_login req \<longleftrightarrow> iscsi_pdu_login_csg req 0 = 1 \<and> iscsi_pdu_login_transit req 0 \<noteq> 0
     \<and> iscsi_pdu_login_nsg req 0 = 3"

lemma final_operational:
  assumes s: "session_reference (connection w) = DefaultSession"
    and l: "operational_login (request_of (connection w))"
    and p: "negotiated (conn_parameter (connection w))" "non_negative (conn_parameter (connection w))"
    and r: "room (response_buffer (connection w)) (length (operational_message w))"
  shows "\<exists>b m n. response_final_login w = Inr (word_of_nat (length (operational_message w)), w\<lparr>
        connection := (connection w)\<lparr>conn_parameter := (conn_parameter (connection w))\<lparr>pbuffer := m, plength := n\<rparr>,
          response_buffer := b, stat_sn := stat_sn (connection w) + 1\<rparr>,
        default_session := (default_session w)\<lparr>is_full_feature_phase := 1\<rparr>\<rparr>) \<and> buffer_ok b
    \<and> contents b = contents (response_buffer (connection w)) @ operational_message w"
proof -
  let ?c = "connection w" and ?p = "conn_parameter (connection w)"
  let ?text = "pairs_text (offered ?p)"
  obtain m n where g: "iscsi_connection_parameter_generate_operational_data ?p = Inr (?p\<lparr>pbuffer := m, plength := n\<rparr>)"
    and n: "sint n = int (length ?text)" and b: "bytes_of m 0 (length ?text) = ?text"
    by (rule generate_operational_data_ok [OF p])
  let ?q = "?p\<lparr>pbuffer := m, plength := n\<rparr>" and ?s = "(default_session w)\<lparr>is_full_feature_phase := 1\<rparr>"
  let ?c1 = "?c\<lparr>conn_parameter := ?q\<rparr>"
  have room: "room (response_buffer ?c1) (padn (48 + length ?text))"
    using r by (simp add: length_operational_message)
  have "pos (iscsi_connection_parameter_data ?q) + length ?text \<le> bsz (iscsi_connection_parameter_data ?q)"
    using length_offered [of ?p] by (simp add: iscsi_connection_parameter_data_def)
  from final_sends [OF room n this, of ?s SUCCESS] obtain b where
    f: "response_final_with_parameters ?s ?c1 SUCCESS (iscsi_connection_parameter_data ?q) n =
      Inr (word_of_nat (padn (48 + length ?text)), ?c1\<lparr>response_buffer := b, stat_sn := stat_sn ?c + 1\<rparr>)"
    "buffer_ok b" "contents b = contents (response_buffer ?c) @ operational_message w"
    by (auto simp: request_of_def operational_message_def Let_def b iscsi_connection_parameter_data_def
        sint_word_of_nat [OF n])
  have "response_final_login w = Inr (word_of_nat (padn (48 + length ?text)), w\<lparr>
      connection := ?c1\<lparr>response_buffer := b, stat_sn := stat_sn ?c + 1\<rparr>, default_session := ?s\<rparr>)"
    using s l f(1) by (simp add: response_final_login_def operational_login_def enter_full_feature_phase_def
        the_session_def g with_connection_def iscsi_connection_parameter_length_def Let_def)
  with f show ?thesis by (auto simp: length_operational_message)
qed

lemma operational_message_frame:
  assumes "request_of (connection w) 4 = 0"
  shows "frame (operational_message w)"
  using assms length_offered [of "conn_parameter (connection w)"]
  by (auto simp: operational_message_def Let_def sint_of_nat intro!: final_header_frame)

text \<open>
  The pairs of a login that opens a session: a discovery session names the initiator alone, a normal
  one the target too.
\<close>

definition opens_session :: "(byte list \<times> byte list) list \<Rightarrow> cint \<Rightarrow> bool" where
  "opens_session kvs d \<longleftrightarrow> find_pair kvs (cstr ''InitiatorName'') \<noteq> None
     \<and> (case find_pair kvs (cstr ''SessionType'') of
          None \<Rightarrow> False
        | Some ty \<Rightarrow> if snd ty = cstr ''Discovery'' then d = 1
            else d = 0 \<and> find_pair kvs (cstr ''TargetName'') \<noteq> None)"

lemma opens_normal:
  assumes "find_pair kvs (cstr ''InitiatorName'') = Some i" "find_pair kvs (cstr ''SessionType'') = Some ty"
    "snd ty \<noteq> cstr ''Discovery''" "find_pair kvs (cstr ''TargetName'') = Some tn"
  shows "opens_session kvs 0"
  using assms by (simp add: opens_session_def)

lemma opens_discovery:
  assumes "find_pair kvs (cstr ''InitiatorName'') = Some i" "find_pair kvs (cstr ''SessionType'') = Some ty"
    "snd ty = cstr ''Discovery''"
  shows "opens_session kvs 1"
  using assms by (simp add: opens_session_def)

text \<open>What a login that opens a session leaves of it for the initiator to see.\<close>

definition first_view :: "iSCSIConnectionParameter \<Rightarrow> 'd world \<Rightarrow> 'd session_view" where
  "first_view p w = (view w)\<lparr>view_sn := stat_sn (connection w) + 1, view_tag := 0, view_limits := limits p\<rparr>"

text \<open>The first login of a connection on its text.\<close>

lemma login_enters:
  fixes os :: "'d os" and w :: "'d world"
  defines "c \<equiv> connection w" and "req \<equiv> request_of (connection w)"
  assumes s: "session_reference c = NoSession" and t: "login_text c kvs"
    and h: "iscsi_pdu_login_continue req 0 = 0" "iscsi_pdu_login_TSIH req 0 = 0" "operational_login req"
    and f: "opens_session kvs d"
    and os: "0 \<le> sint (os_open os)" and p: "non_negative (login_parameter c kvs)"
  defines "w1 \<equiv> w\<lparr>connection := c\<lparr>conn_parameter := login_parameter c kvs\<rparr>,
      default_session := (default_session w)\<lparr>TSIH := 1\<rparr>\<rparr>"
  assumes r: "room (response_buffer c) (length (operational_message w1))"
  shows "\<exists>w'. iscsi_request_login_process os w = Inr (word_of_nat (length (operational_message w1)), w') \<and> device w' = device w
    \<and> session_reference (connection w') = DefaultSession
    \<and> session_target (default_session w') = DefaultTarget
    \<and> is_full_feature_phase (default_session w') = 1 \<and> is_discovery (default_session w') = d
    \<and> command_numbering_start (default_session w') = command_numbering_start (default_session w) \<and> session_transfer_tag (default_session w') = 0
    \<and> transfer_entry (default_session w') = transfer_entry (default_session w)
    \<and> contents (response_buffer (connection w')) = contents (response_buffer c) @ operational_message w1
    \<and> view w' = first_view (login_parameter c kvs) w"
proof -
  let ?w0 = "w\<lparr>connection := c\<lparr>conn_parameter := login_parameter c kvs\<rparr>\<rparr>"
  obtain w2 where su: "setup_by_pairs os kvs ?w0 = Inr (SUCCESS, w2)"
    and w2: "connection w2 = c\<lparr>conn_parameter := login_parameter c kvs, session_reference := DefaultSession,
        connection_id := iscsi_pdu_login_CID req 0\<rparr>" "device w2 = device w"
      "TSIH (default_session w2) = 1" "is_discovery (default_session w2) = d"
      "session_target (default_session w2) = DefaultTarget"
      "command_numbering_start (default_session w2) = command_numbering_start (default_session w)" "session_transfer_tag (default_session w2) = 0"
      "transfer_entry (default_session w2) = transfer_entry (default_session w)"
      "tbuffer (default_target w2) = tbuffer (default_target w)" "sense_buffer (default_target w2) = sense_buffer (default_target w)"
    using h f os by (auto simp: opens_session_def setup_by_pairs_def iscsi_session_create_def iscsi_target_create_default_def
        joined_def request_of_def c_def req_def split: option.splits if_splits)
  have m: "operational_message w2 = operational_message w1"
    by (simp add: operational_message_def w2 w1_def request_of_def Let_def)
  obtain b m n where "response_final_login w2 = Inr (word_of_nat (length (operational_message w2)), w2\<lparr>
        connection := (connection w2)\<lparr>conn_parameter := (conn_parameter (connection w2))\<lparr>pbuffer := m, plength := n\<rparr>,
          response_buffer := b, stat_sn := stat_sn (connection w2) + 1\<rparr>,
        default_session := (default_session w2)\<lparr>is_full_feature_phase := 1\<rparr>\<rparr>)"
    "contents b = contents (response_buffer (connection w2)) @ operational_message w2"
    using final_operational [of w2] h(3) p r login_create(4) [OF t]
    by (auto simp: w2 m request_of_def req_def c_def)
  moreover have "iscsi_request_login_process os w = bindR (setup_by_pairs os kvs ?w0) (\<lambda>(st, w2).
      if st \<noteq> SUCCESS then with_connection w2 (response_status_only (connection w2) st)
      else response_final_login w2)"
    using login_process_text [OF t [unfolded c_def], of os] s h(1) by (simp add: c_def req_def)
  ultimately show ?thesis by (simp add: su m w2 view_def first_view_def flip: c_def)
qed

end
