(* ===== verification/Iscsi_Text.thy ===== *)
theory Iscsi_Text
  imports Iscsi_Setup
begin

text \<open>
  Text requests (\<^verbatim>\<open>request/text.c\<close>) on each branch: a request that is to be continued is answered with
  its own header, a request for \<open>SendTargets\<close> with the name of the target, any other with nothing.
\<close>

definition text_header :: "mem \<Rightarrow> cint \<Rightarrow> byte list" where
  "text_header req len =
     [0x24 OR (req 0 AND 0xC0), req 1 OR 0x80, req 2, req 3, req 4] @ be24 len @ bytes_of req 8 40"

definition text_message :: "mem \<Rightarrow> byte list" where
  "text_message req = text_header req (word_of_nat (length response_text)) @ response_text
     @ pad_zeros (48 + length response_text)"

definition text_continue_message :: "mem \<Rightarrow> byte list" where
  "text_continue_message req = [0x24 OR (req 0 AND 0xC0), req 1 OR 0x80] @ bytes_of req 2 46"

lemma length_response_text: "length response_text = 55"
  by (simp add: response_text_def ISCSI_TARGET_IQN_def)

lemma length_text_messages [simp]:
  "length (text_header req len) = 48" "length (text_continue_message req) = 48"
  "length (text_message req) = 104"
  by (simp_all add: text_header_def text_continue_message_def text_message_def length_response_text padn_def)

lemma text_message_frame: "req 4 = 0 \<Longrightarrow> frame (text_message req)"
  unfolding text_message_def
  by (intro frame_bytes [where len = 55]) (simp_all add: text_header_def be24_def length_response_text)

lemma text_continue_sends:
  assumes "room (response_buffer c) 48" "iscsi_pdu_text_continue (request_of c) 0 \<noteq> 0"
  shows "\<exists>b. iscsi_request_text_process s c = Inr (48, c\<lparr>response_buffer := b\<rparr>) \<and> buffer_ok b
    \<and> contents b = contents (response_buffer c) @ text_continue_message (request_of c)"
proof -
  let ?p = "fill (response_buffer c)"
  define m where "m = iscsi_pdu_set_final
    (iscsi_pdu_set_opcode (iscsi_pdu_generate_from_buffer (reserved c 48) ?p (request_of c) 0) ?p TEXT_RES) ?p 1"
  have u: "untouched c m" by (simp add: m_def pdu_setters)
  have bytes: "bytes_of m ?p 48 = text_continue_message (request_of c)"
    unfolding bytes_of_48 [of m]
    by (simp add: m_def copied_simps text_continue_message_def del: One_nat_def)
  have "iscsi_request_text_process s c = Inr (48, committed c m 48)"
    using assms(2) by (simp add: iscsi_request_text_process_def response_acquire_ok [OF assms(1)]
        response_release_committed m_def Let_def)
  with committed_ok [OF assms(1) u] bytes show ?thesis by (auto simp: committed_def)
qed

lemma text_sends:
  assumes r: "room (response_buffer c) 104" and h: "iscsi_pdu_text_continue (request_of c) 0 = 0"
    and f: "iscsi_parameter_get (iscsi_pdu_data c) (iscsi_pdu_data_segment_length (request_of c) 0)
      (lit (cstr ''SendTargets'')) = Inr (Some i)"
  shows "\<exists>b. iscsi_request_text_process s c = Inr (104, c\<lparr>response_buffer := b\<rparr>) \<and> buffer_ok b
    \<and> contents b = contents (response_buffer c) @ text_message (request_of c)"
proof -
  let ?p = "fill (response_buffer c)"
  have p: "?p + 104 \<le> 4194304" using r by (simp add: room_def)
  have k: "padn 103 = 104" by (simp add: padn_def)
  have l: "iscsi_pdu_padded_length 103 = (104 :: cint)" by (simp add: iscsi_pdu_padded_length_def)
  have pad: "iscsi_pdu_pad0 m ?p 103 = Inr (blit m (?p + 103) (\<lambda>_. 0) 1)" for m
    using pad0_ok [of 103 103 ?p m] p by (simp add: k)
  have nat_p: "nat (int ?p + 48) = ?p + 48" by simp
  define h where "h = iscsi_pdu_set_data_segment_length (iscsi_pdu_set_final (iscsi_pdu_set_opcode
    (iscsi_pdu_generate_from_buffer (reserved c 104) ?p (request_of c) 0) ?p TEXT_RES) ?p 1) ?p 55"
  define m where "m = blit (blit h (?p + 48) (\<lambda>i. response_text ! i) 55) (?p + (48 + 55)) (\<lambda>_. 0) (104 - (48 + 55))"
  have u: "untouched c m" by (simp add: m_def h_def pdu_setters)
  have hdr: "bytes_of h ?p 48 = text_header (request_of c) 55"
    unfolding bytes_of_48 [of h]
    by (simp add: h_def copied_simps text_header_def be24_def del: One_nat_def)
  have tx: "map (\<lambda>i. response_text ! i) [0..<55] = response_text"
    by (simp only: length_response_text [symmetric] map_nth)
  have bytes: "bytes_of m ?p 104 = text_message (request_of c)"
    unfolding m_def using bytes_of_padded [of 55 104 h ?p "\<lambda>i. response_text ! i"]
    by (simp add: k hdr tx text_message_def length_response_text)
  have copy: "c_memcpy h 4194304 (int ?p + 48) (lit response_text) 55 = Inr (blit h (?p + 48) (\<lambda>i. response_text ! i) 55)"
    using p by (subst c_memcpy_ok)
      (auto simp: lit_def length_response_text nat_p mem_of_def blit_def intro!: ext)
  have "iscsi_request_text_process s c = Inr (104, committed c m 104)"
    using p h f copy by (simp add: iscsi_request_text_process_def length_response_text l response_acquire_ok [OF r]
        response_release_committed Let_def pad m_def flip: h_def)
  with committed_ok [OF r u] bytes show ?thesis by (auto simp: committed_def)
qed

end
