(* ===== verification/Iscsi_Delivery.thy ===== *)
theory Iscsi_Delivery
  imports Iscsi_Interleaving Iscsi_Text
begin

text \<open>
  From the socket to the handler and back: the pieces in which \<open>recv\<close> returns a PDU are collected in
  the receive buffer, whose state does not depend on how the PDU was cut; the last piece hands the PDU
  to the dispatcher. For a first login this gives the whole exchange, from the bytes the peer sends
  to the bytes the target sends back.
\<close>

section \<open>The receive buffer after some pieces\<close>

definition received :: "iSCSIBuffer \<Rightarrow> byte list \<Rightarrow> iSCSIBuffer" where
  "received b xs = b\<lparr>blength := blength b + word_of_nat (length xs),
     bdata := blit (bdata b) (fill b) (\<lambda>i. xs ! i) (length xs)\<rparr>"

definition into :: "'d world \<Rightarrow> iSCSIBuffer \<Rightarrow> 'd world" where
  "into w b = w\<lparr>connection := (connection w)\<lparr>receive_buffer := b\<rparr>\<rparr>"

lemma into_sel [simp]:
  "receive_buffer (connection (into w b)) = b" "into (into w b) b' = into w b'"
  "response_buffer (connection (into w b)) = response_buffer (connection w)"
  "default_session (into w b) = default_session w" "device (into w b) = device w"
  "default_target (into w b) = default_target w"
  "session_reference (connection (into w b)) = session_reference (connection w)"
  "conn_parameter (connection (into w b)) = conn_parameter (connection w)"
  "stat_sn (connection (into w b)) = stat_sn (connection w)"
  "expected_cmd_sn (connection (into w b)) = expected_cmd_sn (connection w)"
  by (simp_all add: into_def)

lemma into_ok: "world_ok w \<Longrightarrow> buffer_ok b \<Longrightarrow> world_ok (into w b)"
  by (simp add: world_ok_def split: session_ptr.splits)

lemma received_sint:
  assumes "room b (length xs)"
  shows "sint (blength (received b xs)) = int (fill b + length xs)"
proof -
  have "fill b + length xs \<le> 4194304" "sint (blength b) = int (fill b)"
    using assms by (auto simp: room_def sint_fill)
  moreover from this have "sint (word_of_nat (length xs) :: cint) = int (length xs)"
    by (intro sint_of_nat) simp
  ultimately show ?thesis by (simp add: received_def sint_plus)
qed

lemma received_ok:
  assumes "room b (length xs)"
  shows "buffer_ok (received b xs)" "fill (received b xs) = fill b + length xs"
    "contents (received b xs) = contents b @ xs"
proof -
  have r: "fill b + length xs \<le> 4194304" "block b = 1" using assms by (auto simp: room_def buffer_ok_def)
  show f: "fill (received b xs) = fill b + length xs"
    using received_sint [OF assms] unfolding fill_def [of "received b xs"] by simp
  have "block (received b xs) = 1" using r(2) by (simp add: received_def)
  then show "buffer_ok (received b xs)"
    using received_sint [OF assms] r(1) by (simp add: buffer_ok_def)
  show "contents (received b xs) = contents b @ xs"
    unfolding contents_def f bytes_of_append
    by (intro arg_cong2 [where f = append] nth_equalityI) (auto simp: received_def blit_out)
qed

lemma received_append:
  assumes "room b (length (xs @ ys))"
  shows "received (received b xs) ys = received b (xs @ ys)"
proof -
  have "room b (length xs)" using assms by (simp add: room_def)
  note f = received_ok(2) [OF this]
  show ?thesis
    unfolding received_def [of "received b xs"] f
    using blit_nth_append [of "bdata b" "fill b" xs ys] by (simp add: received_def add.assoc)
qed

lemma receive_exact:
  assumes r: "room b (length xs)" and l: "length xs \<le> 256"
  shows "iscsi_buffer_receive b (recv_ptr xs) (word_of_nat (length xs)) = Inr (0, received b xs)"
proof -
  have s: "sint (word_of_nat (length xs) :: cint) = int (length xs)" using l by (intro sint_of_nat) simp
  have "fill b + length xs \<le> 4194304" "block b = 1" using r by (simp_all add: room_def buffer_ok_def)
  moreover have "blit (blit (bdata b) (fill b) (\<lambda>_. 0) (length xs)) (fill b) (mem_of xs) (length xs)
      = blit (bdata b) (fill b) (\<lambda>i. xs ! i) (length xs)"
    by (rule ext) (auto simp: blit_def mem_of_def)
  ultimately show ?thesis
    using l by (simp add: iscsi_buffer_receive_def acquire_ok [OF r s] s c_memcpy_ok recv_ptr_def
        iscsi_buffer_release_lock_def received_def)
qed

section \<open>Rounds of the receiver\<close>

text \<open>A complete PDU in the receive buffer, as \<open>incoming_request\<close> and the receiver loop handle it.\<close>

definition handle_pdu :: "'d os \<Rightarrow> 'd world \<Rightarrow> (bool \<times> 'd world) result" where
  "handle_pdu os w = bindR (iscsi_server_process os w) (\<lambda>(v, w).
     bindR (iscsi_buffer_flush (receive_buffer (connection w))
              (iscsi_pdu_length (bdata (receive_buffer (connection w))) 0)) (\<lambda>b.
       Inr (v \<noteq> pdu_status_value SOCKET_TERMINATE, into w b)))"

lemma receive_round_into:
  assumes w: "world_ok w" and r: "room (receive_buffer (connection w)) (length xs)" and l: "length xs \<le> 256"
  shows "receive_round os w xs =
    (if complete (contents (receive_buffer (connection w)) @ xs)
     then handle_pdu os (into w (received (receive_buffer (connection w)) xs))
     else Inr (True, into w (received (receive_buffer (connection w)) xs)))"
proof -
  let ?b = "received (receive_buffer (connection w)) xs"
  have "iscsi_pdu_valid (bdata ?b) 0 (iscsi_buffer_length ?b)
      \<longleftrightarrow> complete (contents (receive_buffer (connection w)) @ xs)"
    using complete_contents [OF received_ok(1) [OF r]] received_ok(3) [OF r] by simp
  then show ?thesis
    by (auto simp: receive_round_def incoming_request_def receive_exact [OF r l] handle_pdu_def into_def
        Let_def bindR_assoc split_def simp del: bindR_eq_Inr intro!: bindR_cong)
qed

text \<open>The loop of \<open>start_receiver\<close> over the pieces that \<open>recv\<close> returns.\<close>

fun receive_rounds :: "'d os \<Rightarrow> 'd world \<Rightarrow> byte list list \<Rightarrow> (bool \<times> 'd world) result" where
  "receive_rounds os w [] = Inr (True, w)"
| "receive_rounds os w (x # xs) = bindR (receive_round os w x) (\<lambda>(go, w).
     if go then receive_rounds os w xs else Inr (False, w))"

lemma receive_rounds_reachable:
  assumes "reachable os q p" "receive_rounds os (proc_world p) ps = Inr (True, w)" "receiving p"
    and "to_receive p = concat ps @ rest" "\<forall>x \<in> set ps. x \<noteq> [] \<and> length x \<le> 256"
  shows "reachable os q (p\<lparr>proc_world := w, to_receive := rest\<rparr>)"
  using assms
proof (induction ps arbitrary: p)
  case Nil
  then have "p\<lparr>proc_world := w, to_receive := rest\<rparr> = p" by (cases p) simp
  then show ?case using Nil.prems(1) by simp
next
  case (Cons x xs)
  then obtain w1 where w1: "receive_round os (proc_world p) x = Inr (True, w1)"
    "receive_rounds os w1 xs = Inr (True, w)"
    by (auto split: if_splits)
  let ?p = "p\<lparr>proc_world := w1, receiving := True, to_receive := concat xs @ rest\<rparr>"
  have "step os p ?p" using Cons.prems by (intro step_receive [OF _ _ _ _ w1(1)]) auto
  then have "reachable os q ?p" by (rule reachable_step [OF Cons.prems(1)])
  then have "reachable os q (?p\<lparr>proc_world := w, to_receive := rest\<rparr>)"
    using w1(2) Cons.prems(5) by (intro Cons.IH) simp_all
  moreover have "?p\<lparr>proc_world := w, to_receive := rest\<rparr> = p\<lparr>proc_world := w, to_receive := rest\<rparr>"
    using Cons.prems(3) by (cases p) simp
  ultimately show ?case by simp
qed

lemma receive_rounds_last:
  "bindR m (\<lambda>(go, w). if go then receive_rounds os w [] else Inr (False, w)) = m"
  by (cases m) (auto split: if_splits)

lemma prefix_incomplete:
  assumes "frame (xs @ ys)" "ys \<noteq> []"
  shows "\<not> complete xs"
proof
  assume c: "complete xs"
  then have "plen (mem_of xs) 0 = plen (mem_of (xs @ ys)) 0"
    by (intro plen_cong) (simp add: complete_def mem_of_def nth_append)
  with c assms show False by (simp add: complete_def frame_def)
qed

lemma frame_complete: "frame f \<Longrightarrow> complete f"
  using plen_bounds(1) [of "mem_of f" 0] by (simp add: complete_def frame_def)

text \<open>However a PDU is cut into pieces, the dispatcher gets the same state at the last one.\<close>

lemma receive_rounds_pdu:
  assumes "world_ok w" "contents (receive_buffer (connection w)) @ concat ps = f"
    and f: "frame f" "length f \<le> 4194304"
    and "\<forall>x \<in> set ps. x \<noteq> [] \<and> length x \<le> 256" "ps \<noteq> []"
  shows "receive_rounds os w ps = handle_pdu os (into w (received (receive_buffer (connection w)) (concat ps)))"
  using assms(1,2,5,6)
proof (induction ps arbitrary: w)
  case (Cons x xs)
  let ?b = "receive_buffer (connection w)"
  have fl: "length f = fill ?b + length (concat (x # xs))"
    using arg_cong [OF Cons.prems(2), of length] by (simp only: length_append length_contents)
  have ok: "buffer_ok ?b" using Cons.prems(1) by (simp add: world_ok_def)
  have r: "room ?b (length x)" "room ?b (length (x @ concat xs))"
    using ok f(2) fl by (simp_all add: room_def)
  note rr = receive_round_into [OF Cons.prems(1) r(1)]
  show ?case
  proof (cases xs)
    case Nil
    then have "complete (contents ?b @ x)" using Cons.prems(2) frame_complete [OF f(1)] by simp
    then show ?thesis using rr Cons.prems(3) Nil by (simp add: receive_rounds_last del: receive_rounds.simps(1))
  next
    case (Cons y ys)
    then have "concat xs \<noteq> []" using \<open>\<forall>x \<in> set (_ # _). _\<close> by simp
    then have n: "\<not> complete (contents ?b @ x)"
      using prefix_incomplete [of "contents ?b @ x" "concat xs"] f(1) Cons.prems(2) by simp
    have "receive_rounds os (into w (received ?b x)) xs
        = handle_pdu os (into (into w (received ?b x)) (received (received ?b x) (concat xs)))"
      using Cons.IH [of "into w (received ?b x)"] Cons Cons.prems received_ok [OF r(1)]
      by (simp add: into_ok)
    then show ?thesis using rr n Cons.prems(3) received_append [OF r(2)] by simp
  qed
qed simp


section \<open>The offer does not depend on the connection\<close>

definition same_limits :: "iSCSIConnectionParameter \<Rightarrow> iSCSIConnectionParameter \<Rightarrow> bool" where
  "same_limits p q \<longleftrightarrow> same_offer p q \<and> max_receive_data_segment_length p = max_receive_data_segment_length q"

lemmas same_limits_fields = same_limits_def same_offer_def

lemma same_limits_keep:
  "same_limits p q \<Longrightarrow> (same_limits p q \<Longrightarrow> same_limits (f p) (f q)) \<Longrightarrow> same_limits (keep_or b f p) (keep_or b f q)"
  by (simp add: keep_or_def)

lemma same_limits_pair: "same_limits p q \<Longrightarrow> same_limits (apply_pair p kv) (apply_pair q kv)"
  unfolding apply_pair_def Let_def by (intro same_limits_keep; simp add: same_limits_fields)

lemma same_limits_pairs: "same_limits p q \<Longrightarrow> same_limits (foldl apply_pair p kvs) (foldl apply_pair q kvs)"
  by (induction kvs arbitrary: p q) (simp_all add: same_limits_pair)

lemma same_limits_login: "same_limits (login_parameter c kvs) (login_parameter c' kvs)"
  unfolding login_parameter_def by (intro same_limits_pairs) (simp add: same_limits_fields set_default_parameter_def)

lemma same_limits_offered: "same_limits p q \<Longrightarrow> offered p = offered q \<and> non_negative p = non_negative q"
  by (simp add: same_limits_fields offered_def non_negative_def)

lemma same_limits_limits: "same_limits p q \<Longrightarrow> limits p = limits q"
  by (cases p; cases q) (simp add: same_limits_fields limits_def)

lemmas limits_login = same_limits_limits [OF same_limits_login]

section \<open>A first login, from the socket to the socket\<close>

text \<open>A login PDU with the given pairs that asks for the full feature phase, and its answer.\<close>

definition login_request :: "byte list \<Rightarrow> (byte list \<times> byte list) list \<Rightarrow> bool" where
  "login_request f kvs \<longleftrightarrow> frame f \<and> list_all plain_pair kvs \<and> length (pairs_text kvs) \<le> 1048576
     \<and> mem_of f 4 = 0 \<and> dsl (mem_of f) 0 = length (pairs_text kvs)
     \<and> bytes_of (mem_of f) 48 (length (pairs_text kvs)) = pairs_text kvs
     \<and> iscsi_pdu_opcode (mem_of f) 0 = opcode_value LOGIN \<and> iscsi_pdu_login_continue (mem_of f) 0 = 0
     \<and> iscsi_pdu_login_TSIH (mem_of f) 0 = 0 \<and> operational_login (mem_of f)"

definition login_answer :: "byte list \<Rightarrow> iSCSIConnectionParameter \<Rightarrow> byte list" where
  "login_answer f par = (let text = pairs_text (offered par) in
     final_header (mem_of f) SUCCESS 1 (word_of_nat (length text)) 0 0 @ text @ pad_zeros (48 + length text))"

lemma login_request_length:
  assumes "login_request f kvs"
  shows "48 + length (pairs_text kvs) \<le> length f" "length f \<le> 4194304"
proof -
  have p: "plen (mem_of f) 0 = length f" "mem_of f 4 = 0" "dsl (mem_of f) 0 = length (pairs_text kvs)"
    "length (pairs_text kvs) \<le> 1048576"
    using assms by (simp_all add: login_request_def frame_def)
  then have "length f = padn (48 + length (pairs_text kvs))" by (simp add: plen_def)
  then show "48 + length (pairs_text kvs) \<le> length f" "length f \<le> 4194304"
    using p(4) padn_bounds [of "48 + length (pairs_text kvs)"] by simp_all
qed

lemma received_request:
  "fill b = 0 \<Longrightarrow> i < length f \<Longrightarrow> bdata (received b f) i = mem_of f i"
  by (simp add: received_def mem_of_def blit_in)

lemma final_header_cong:
  assumes "\<And>i. i < 48 \<Longrightarrow> req i = req' i"
  shows "final_header req st tsih len sn ec = final_header req' st tsih len sn ec"
  using assms by (auto simp: final_header_def intro!: bytes_of_cong)

text \<open>The fields that the login handler reads are those of the frame.\<close>

lemma login_fields:
  assumes "\<And>i. i < 48 \<Longrightarrow> req i = mem_of f i"
  shows "iscsi_pdu_opcode req 0 = iscsi_pdu_opcode (mem_of f) 0"
    "iscsi_pdu_login_continue req 0 = iscsi_pdu_login_continue (mem_of f) 0"
    "iscsi_pdu_login_TSIH req 0 = iscsi_pdu_login_TSIH (mem_of f) 0"
    "operational_login req = operational_login (mem_of f)"
  using assms
  by (simp_all add: iscsi_pdu_opcode_def iscsi_pdu_login_continue_def iscsi_pdu_login_TSIH_def operational_login_def
      iscsi_pdu_login_csg_def iscsi_pdu_login_transit_def iscsi_pdu_login_nsg_def)

lemma login_text_received:
  assumes l: "login_request f kvs" and e: "fill b = 0"
  shows "login_text (c\<lparr>receive_buffer := received b f\<rparr>) kvs"
proof -
  note n = login_request_length [OF l]
  have d: "dsl (bdata (received b f)) 0 = dsl (mem_of f) 0"
    using e n by (intro dsl_cong) (simp add: received_request)
  have "bdata (received b f) (48 + i) = pairs_text kvs ! i" if "i < length (pairs_text kvs)" for i
  proof -
    have "bytes_of (mem_of f) 48 (length (pairs_text kvs)) ! i = pairs_text kvs ! i"
      using l by (simp add: login_request_def)
    then show ?thesis using that e n by (simp add: received_request)
  qed
  then show ?thesis
    using l d n by (simp add: login_text_def login_request_def at_def request_of_def)
qed


lemma login_exchange:
  fixes os :: "'d os" and w :: "'d world" and kvs :: "(byte list \<times> byte list) list"
  defines "par \<equiv> login_parameter (connection w) kvs"
  assumes w: "fresh w" and l: "login_request f kvs"
    and ps: "concat ps = f" "\<forall>x \<in> set ps. x \<noteq> [] \<and> length x \<le> 256"
    and k: "opens_session kvs d"
    and os: "0 \<le> sint (os_open os)" and p: "non_negative par" and net: "takes_all send"
  shows "\<exists>w1 w2. receive_rounds os w ps = Inr (True, w1) \<and> transmit_round send w1 = Inr (True, w2, login_answer f par)
    \<and> session_reference (connection w2) = DefaultSession \<and> session_target (default_session w2) = DefaultTarget
    \<and> is_full_feature_phase (default_session w2) = 1 \<and> is_discovery (default_session w2) = d
    \<and> command_numbering_start (default_session w2) = 0 \<and> session_transfer_tag (default_session w2) = 0
    \<and> transfer_entry (default_session w2) = transfer_entry (default_session w)
    \<and> contents (receive_buffer (connection w2)) = [] \<and> contents (response_buffer (connection w2)) = []
    \<and> device w2 = device w \<and> view w2 = first_view par w"
proof -
  let ?b = "receive_buffer (connection w)" and ?a = "login_answer f par"
  let ?w = "into w (received ?b f)"
  have ok: "world_ok w" using w by (rule fresh_ok)
  have e: "fill ?b = 0" "fill (response_buffer (connection w)) = 0" and n: "session_reference (connection w) = NoSession"
    and sn: "stat_sn (connection w) = 0" "expected_cmd_sn (connection w) = 0" "command_numbering_start (default_session w) = 0"
    using w by (auto simp: fresh_def iscsi_connection_create_def iscsi_buffer_new_def fill_def)
  have empty: "contents ?b = []" "contents (response_buffer (connection w)) = []"
    using e by (simp_all add: contents_def)
  note fl = login_request_length [OF l]
  have fr: "frame f" using l by (simp add: login_request_def)
  have r: "room ?b (length f)" using ok e fl by (simp add: room_def world_ok_def)
  have req: "request_of (connection ?w) j = mem_of f j" if "j < length f" for j
    using received_request [OF e(1) that] by (simp add: request_of_def)
  have req': "\<And>j. j < 48 \<Longrightarrow> request_of (connection ?w) j = mem_of f j" using req fl by simp
  note fields = login_fields [OF req']
  let ?w1 = "?w\<lparr>connection := (connection ?w)\<lparr>conn_parameter := login_parameter (connection ?w) kvs\<rparr>,
      default_session := (default_session ?w)\<lparr>TSIH := 1\<rparr>\<rparr>"
  have so: "offered (login_parameter (connection ?w) kvs) = offered par"
    "non_negative (login_parameter (connection ?w) kvs)"
    using same_limits_offered [OF same_limits_login [of "connection ?w" kvs "connection w"]] p by (simp_all add: par_def)
  have m: "operational_message ?w1 = ?a"
    using final_header_cong [of "request_of (connection ?w)" "mem_of f", OF req'] sn
    by (simp add: operational_message_def login_answer_def Let_def so request_of_def)
  have al: "length ?a \<le> 1000" "48 \<le> length ?a"
    using length_offered [of par] padn_bounds [of "48 + length (pairs_text (offered par))"]
    by (simp_all add: login_answer_def Let_def)
  have rm: "room (response_buffer (connection ?w)) (length (operational_message ?w1))"
    using ok e(2) al m by (simp add: room_def world_ok_def)
  have t: "login_text (connection ?w) kvs" unfolding into_def using login_text_received [OF l e(1)] by simp
  obtain w3 where login: "iscsi_request_login_process os ?w = Inr (word_of_nat (length ?a), w3)"
    and w3: "device w3 = device w" "session_reference (connection w3) = DefaultSession"
      "is_full_feature_phase (default_session w3) = 1" "contents (response_buffer (connection w3)) = ?a"
      "session_target (default_session w3) = DefaultTarget" "is_discovery (default_session w3) = d"
      "command_numbering_start (default_session w3) = 0" "session_transfer_tag (default_session w3) = 0"
      "transfer_entry (default_session w3) = transfer_entry (default_session w)"
      "view w3 = first_view (login_parameter (connection ?w) kvs) ?w"
    using login_enters [OF _ t _ _ _ k os so(2) rm] n fields l unfolding m by (auto simp: empty sn(3) login_request_def)
  have dispatch: "iscsi_server_process os ?w = Inr (word_of_nat (length ?a), w3)"
    using n fields(1) l login by (simp add: iscsi_server_process_def valid_command_numbering_def login_request_def)
  from server_progress [OF dispatch into_ok [OF ok received_ok(1) [OF r]]]
  have ok3: "world_ok w3" "receive_buffer (connection w3) = received ?b f" by (simp_all add: progress_def)
  have pl: "plen (bdata (received ?b f)) 0 = length f"
    using plen_frame [of "received ?b f" f "[]"] received_ok(3) [OF r] empty fr fl by simp
  have "plen (bdata (received ?b f)) 0 \<le> fill (received ?b f)" using pl received_ok(2) [OF r] by simp
  from flush_ok [OF received_ok(1) [OF r] sint_pdu_length this] obtain b where
    b: "iscsi_buffer_flush (received ?b f) (iscsi_pdu_length (bdata (received ?b f)) 0) = Inr b"
    "buffer_ok b" "contents b = drop (length f) (contents (received ?b f))"
    unfolding pl by blast
  have "sint (word_of_nat (length ?a) :: cint) = int (length ?a)" using al(1) by (intro sint_of_nat) simp
  then have go: "word_of_nat (length ?a) \<noteq> (pdu_status_value SOCKET_TERMINATE :: cint)" using al(2) by auto
  have "ps \<noteq> []" using ps(1) fl by auto
  from receive_rounds_pdu [OF ok _ fr fl(2) ps(2) this] ps(1)
  have rounds: "receive_rounds os w ps = Inr (True, into w3 b)"
    using empty dispatch ok3(2) b(1) go by (simp add: handle_pdu_def)
  have fa: "frame ?a"
    using operational_message_frame [of ?w1] m req [of 4] fl l
    by (simp add: request_of_def login_request_def into_def)
  have s: "0 \<le> sint (send ?a)" using takes_all_frame [OF net fa] by simp
  have "buffer_ok (response_buffer (connection (into w3 b)))" using ok3(1) by (simp add: world_ok_def)
  from transmit_frame [where send = send, OF this _ fa s, of "[]"] w3(4) obtain b' where b': "transmit_round send (into w3 b) =
      Inr (True, (into w3 b)\<lparr>connection := (connection (into w3 b))\<lparr>response_buffer := b'\<rparr>\<rparr>, take (nat (sint (send ?a))) ?a)"
    "contents b' = []"
    by auto
  then show ?thesis
    using rounds w3 b(3) received_ok(3) [OF r] empty takes_all_frame [OF net fa]
      limits_login [of "connection ?w" kvs "connection w"]
    by (simp add: first_view_def par_def view_def into_def)
qed


text \<open>The same as steps of the process.\<close>

lemma login_reachable:
  fixes os :: "'d os" and p :: "'d process" and kvs :: "(byte list \<times> byte list) list"
  defines "par \<equiv> login_parameter (connection (proc_world p)) kvs"
  assumes p: "fresh (proc_world p)" "receiving p" "transmitting p" "to_receive p = f @ rest"
    and l: "login_request f kvs"
    and ps: "concat ps = f" "\<forall>x \<in> set ps. x \<noteq> [] \<and> length x \<le> 256"
    and k: "opens_session kvs d"
    and os: "0 \<le> sint (os_open os)" and n: "non_negative par" and net: "takes_all send"
  shows "\<exists>w1 w2. receive_rounds os (proc_world p) ps = Inr (True, w1)
    \<and> transmit_round send w1 = Inr (True, w2, login_answer f par)
    \<and> reachable os p (p\<lparr>proc_world := w2, to_receive := rest, sent := sent p @ login_answer f par\<rparr>)
    \<and> logged_in w2 \<and> is_full_feature_phase (default_session w2) = 1 \<and> is_discovery (default_session w2) = d
    \<and> command_numbering_start (default_session w2) = 0 \<and> session_transfer_tag (default_session w2) = 0
    \<and> transfer_entry (default_session w2) = transfer_entry (default_session (proc_world p))
    \<and> contents (receive_buffer (connection w2)) = [] \<and> contents (response_buffer (connection w2)) = []
    \<and> device w2 = device (proc_world p) \<and> view w2 = first_view par (proc_world p)"
proof -
  let ?a = "login_answer f par"
  from login_exchange [OF p(1) l ps k os n [unfolded par_def] net, folded par_def] obtain w1 w2 where
    r: "receive_rounds os (proc_world p) ps = Inr (True, w1)" and s: "transmit_round send w1 = Inr (True, w2, ?a)"
    and w2: "session_reference (connection w2) = DefaultSession" "session_target (default_session w2) = DefaultTarget"
      "is_full_feature_phase (default_session w2) = 1" "is_discovery (default_session w2) = d"
      "command_numbering_start (default_session w2) = 0" "session_transfer_tag (default_session w2) = 0"
      "transfer_entry (default_session w2) = transfer_entry (default_session (proc_world p))"
      "contents (receive_buffer (connection w2)) = []" "contents (response_buffer (connection w2)) = []"
      "device w2 = device (proc_world p)" "view w2 = first_view par (proc_world p)" by blast
  let ?q = "p\<lparr>proc_world := w1, to_receive := rest\<rparr>"
  have q: "reachable os p ?q"
    using receive_rounds_reachable [OF reachable_start r p(2) _ ps(2), of rest] p(4) ps(1) by simp
  have "step os ?q (?q\<lparr>proc_world := w2, transmitting := True, sent := sent ?q @ ?a\<rparr>)"
    using p(3) s by (intro step_transmit) simp_all
  moreover have "?q\<lparr>proc_world := w2, transmitting := True, sent := sent ?q @ ?a\<rparr>
      = p\<lparr>proc_world := w2, to_receive := rest, sent := sent p @ ?a\<rparr>"
    using p(3) by (cases p) simp
  ultimately have "reachable os p (p\<lparr>proc_world := w2, to_receive := rest, sent := sent p @ ?a\<rparr>)"
    using reachable_step [OF q] by simp
  with r s w2 show ?thesis unfolding logged_in_def by blast
qed


text \<open>When the response to the login cannot be sent, both threads of the process come to their end.\<close>

lemma login_dropped:
  fixes os :: "'d os" and p :: "'d process" and kvs :: "(byte list \<times> byte list) list"
  assumes p: "fresh (proc_world p)" "receiving p" "transmitting p" "to_receive p = f"
    and l: "login_request f kvs"
    and ps: "concat ps = f" "\<forall>x \<in> set ps. x \<noteq> [] \<and> length x \<le> 256"
    and k: "opens_session kvs d"
    and os: "0 \<le> sint (os_open os)" and n: "non_negative (login_parameter (connection (proc_world p)) kvs)"
  shows "\<exists>q. reachable os p q \<and> \<not> receiving q \<and> \<not> transmitting q
    \<and> is_full_feature_phase (default_session (proc_world q)) = 1"
proof -
  let ?a = "login_answer f (login_parameter (connection (proc_world p)) kvs)"
  have "takes_all (\<lambda>bs. word_of_nat (length bs))" by (simp add: takes_all_def)
  from login_exchange [OF p(1) l ps k os n this] obtain w1 w2 where
    r: "receive_rounds os (proc_world p) ps = Inr (True, w1)" and
    s: "transmit_round (\<lambda>bs. word_of_nat (length bs)) w1 = Inr (True, w2, ?a)" and
    f: "is_full_feature_phase (default_session w2) = 1" by blast
  let ?q = "p\<lparr>proc_world := w1, to_receive := []\<rparr>"
  have q: "reachable os p ?q"
    using receive_rounds_reachable [OF reachable_start r p(2) _ ps(2), of "[]"] p(4) ps(1) by simp
  have ok: "world_ok w1" using safe_reachable [OF q fresh_safe [OF p(1)]] p(3) by (simp add: safe_def)
  have f1: "is_full_feature_phase (default_session w1) = 1" using transmit_round_progress [OF ok s] f by simp
  have "?a \<noteq> []" by (simp add: login_answer_def Let_def final_header_def)
  then have "iscsi_pdu_valid (bdata (response_buffer (connection w1))) 0 (iscsi_buffer_length (response_buffer (connection w1)))"
    using s by (auto simp: transmit_round_def Let_def split: if_splits)
  then have c: "complete (contents (response_buffer (connection w1)))" "buffer_ok (response_buffer (connection w1))"
    using ok complete_contents by (auto simp: world_ok_def)
  have "\<forall>bs. sint ((\<lambda>_. - 1 :: cint) bs) < 0" by simp
  from transmit_failure [OF c(2,1) this] obtain w3 where w3: "transmit_round (\<lambda>_. - 1) w1 = Inr (False, w3, [])" by blast
  have f3: "is_full_feature_phase (default_session w3) = 1" using transmit_round_progress [OF ok w3] f1 by simp
  let ?q1 = "?q\<lparr>proc_world := w3, transmitting := False, sent := sent ?q @ []\<rparr>"
  have "step os ?q ?q1" using p(3) w3 by (intro step_transmit) simp_all
  moreover have "step os ?q1 (?q1\<lparr>receiving := False\<rparr>)" using p(2) by (intro step_receive_error) simp
  ultimately have "reachable os p (?q1\<lparr>receiving := False\<rparr>)" using q by (blast intro: reachable_step)
  then show ?thesis using f3 by (intro exI [of _ "?q1\<lparr>receiving := False\<rparr>"]) simp
qed

end
