(* ===== verification/Iscsi_System.thy ===== *)
theory Iscsi_System
  imports Iscsi_Delivery
begin

text \<open>
  The server as a whole: the loop of \<open>main\<close> (\<^verbatim>\<open>main.c\<close>) that accepts connections and forks a process for
  each, and the processes it has forked, which share nothing but the SCSI device. A process that has
  been forked serves its connection until both threads have ended, and then falls back into the same
  loop of \<open>main\<close>, with the global objects as the connection left them.
\<close>

section \<open>Processes and the device they share\<close>

record 'd task =
  process_of :: "'d process"
  serving :: bool
  forked_by :: nat

record 'd system =
  tasks :: "'d task list"
  disk :: 'd

text \<open>
  What \<open>main\<close> does between \<open>accept\<close> and \<open>start_connection\<close> in the child: the globals are copies of
  the parent's, the connection is allocated and created without a session. The descriptor is not
  tested, so it may be any number.
\<close>

definition child :: "'d process \<Rightarrow> iSCSIConnection \<Rightarrow> cint \<Rightarrow> byte list \<Rightarrow> 'd process" where
  "child p c client_socket_fd bs =
     p\<lparr>proc_world := (proc_world p)\<lparr>connection := iscsi_connection_create c client_socket_fd NoSession\<rparr>,
       to_receive := bs, sent := []\<rparr>"

text \<open>
  The two threads are started with the results of \<open>pthread_create\<close>. A failure is only logged, and
  \<open>pthread_join\<close> then gets a thread identifier that was never written, which has no meaning.
\<close>

definition start_connection :: "cint \<Rightarrow> cint \<Rightarrow> 'd process \<Rightarrow> 'd process option" where
  "start_connection stat1 stat2 p =
     (if stat1 = 0 \<and> stat2 = 0 then Some (p\<lparr>receiving := True, transmitting := True\<rparr>) else None)"

text \<open>
  The start of \<open>main\<close>: without a socket it returns 1, otherwise it enters its loop, whatever \<open>bind\<close> and
  \<open>listen\<close> return. The globals of the process are those of the world.
\<close>

definition main_start :: "cint \<Rightarrow> 'd world \<Rightarrow> 'd system option" where
  "main_start socket_desc w =
     (if socket_desc = -1 then None
      else Some \<lparr>tasks = [\<lparr>process_of = \<lparr>proc_world = w, receiving = False, transmitting = False, to_receive = [], sent = []\<rparr>,
        serving = False, forked_by = 0\<rparr>], disk = device w\<rparr>)"

definition with_disk :: "'d \<Rightarrow> 'd process \<Rightarrow> 'd process" where
  "with_disk d p = p\<lparr>proc_world := (proc_world p)\<lparr>device := d\<rparr>\<rparr>"

text \<open>
  The steps of the server: a process in the loop of \<open>main\<close> accepts and forks (when \<open>fork\<close> fails nothing
  changes), one that serves a connection makes a step of one of its threads on the device, and one
  whose threads have both ended returns to the loop. The lengths of the buffers that \<open>malloc\<close> gives
  are 0, as the program relies on.
\<close>

inductive server :: "'d os \<Rightarrow> 'd system \<Rightarrow> 'd system \<Rightarrow> bool" for os where
  accept_fork: "i < length (tasks s) \<Longrightarrow> \<not> serving (tasks s ! i)
    \<Longrightarrow> blength (receive_buffer c) = 0 \<Longrightarrow> blength (response_buffer c) = 0
    \<Longrightarrow> start_connection stat1 stat2 (child (process_of (tasks s ! i)) c client_socket_fd bs) = Some q
    \<Longrightarrow> server os s (s\<lparr>tasks := tasks s @ [\<lparr>process_of = q, serving = True, forked_by = i\<rparr>]\<rparr>)"
| serve: "i < length (tasks s) \<Longrightarrow> serving (tasks s ! i)
    \<Longrightarrow> step os (with_disk (disk s) (process_of (tasks s ! i))) p
    \<Longrightarrow> server os s (s\<lparr>tasks := (tasks s)[i := (tasks s ! i)\<lparr>process_of := p\<rparr>], disk := device (proc_world p)\<rparr>)"
| leave: "i < length (tasks s) \<Longrightarrow> serving (tasks s ! i)
    \<Longrightarrow> \<not> receiving (process_of (tasks s ! i)) \<Longrightarrow> \<not> transmitting (process_of (tasks s ! i))
    \<Longrightarrow> server os s (s\<lparr>tasks := (tasks s)[i := (tasks s ! i)\<lparr>serving := False\<rparr>]\<rparr>)"

abbreviation serves :: "'d os \<Rightarrow> 'd system \<Rightarrow> 'd system \<Rightarrow> bool" where
  "serves os \<equiv> (server os)\<^sup>*\<^sup>*"

text \<open>The globals of the program when it starts: zero, as C leaves them.\<close>

definition zero_globals :: "'d world \<Rightarrow> bool" where
  "zero_globals w \<longleftrightarrow> num_connections (default_session w) = 0 \<and> session_max_connections (default_session w) = 0
     \<and> is_full_feature_phase (default_session w) = 0 \<and> command_numbering_start (default_session w) = 0
     \<and> r2t_sn (transfer_entry (default_session w)) = 0 \<and> total_r2t_sn (transfer_entry (default_session w)) = 0"

section \<open>The invariant\<close>

lemma child_fresh:
  "zero_globals (proc_world p) \<Longrightarrow> blength (receive_buffer c) = 0 \<Longrightarrow> blength (response_buffer c) = 0
   \<Longrightarrow> start_connection stat1 stat2 (child p c client_socket_fd bs) = Some q \<Longrightarrow> fresh (proc_world q)"
  by (auto simp: child_def start_connection_def fresh_def zero_globals_def split: if_splits
      intro!: exI [of _ c] exI [of _ client_socket_fd])

definition guarded :: "'d process \<Rightarrow> bool" where
  "guarded p \<longleftrightarrow> (transmitting p \<longrightarrow> world_ok (proc_world p)
     \<and> no_r2t_left (transfer_entry (default_session (proc_world p))))"

lemma with_disk_sel [simp]:
  "device (proc_world (with_disk d p)) = d" "transmitting (with_disk d p) = transmitting p"
  "receiving (with_disk d p) = receiving p" "connection (proc_world (with_disk d p)) = connection (proc_world p)"
  "default_session (proc_world (with_disk d p)) = default_session (proc_world p)"
  "to_receive (with_disk d p) = to_receive p"
  by (simp_all add: with_disk_def)

lemma with_disk_guarded: "guarded p \<Longrightarrow> safe d (with_disk d p)"
  by (simp add: guarded_def safe_def world_ok_def split: session_ptr.splits)

lemma guarded_step: "guarded p \<Longrightarrow> step os (with_disk d p) q \<Longrightarrow> guarded q"
  using safe_step [OF _ with_disk_guarded, of os d p q] by (simp add: safe_def guarded_def)

lemma child_guarded: "fresh (proc_world p) \<Longrightarrow> guarded p"
  using fresh_safe [of p] by (simp add: safe_def guarded_def)

text \<open>
  The first process never serves and keeps its globals; every process it forked is guarded.
\<close>

definition system_ok :: "'d system \<Rightarrow> bool" where
  "system_ok s \<longleftrightarrow> tasks s \<noteq> [] \<and> \<not> serving (tasks s ! 0) \<and> zero_globals (proc_world (process_of (tasks s ! 0)))
     \<and> (\<forall>i < length (tasks s). 0 < i \<longrightarrow> forked_by (tasks s ! i) = 0 \<longrightarrow> guarded (process_of (tasks s ! i)))"

lemma main_start_ok: "main_start socket_desc w = Some s \<Longrightarrow> zero_globals w \<Longrightarrow> system_ok s"
  by (auto simp: main_start_def system_ok_def split: if_splits)

lemma system_step:
  assumes "server os s t" "system_ok s"
  shows "system_ok t"
  using assms(1)
proof cases
  case (accept_fork i c stat1 stat2 fd bs q)
  let ?t = "\<lparr>process_of = q, serving = True, forked_by = i\<rparr>"
  have "guarded (process_of ((tasks s @ [?t]) ! j))"
    if "j < length (tasks s @ [?t])" "0 < j" "forked_by ((tasks s @ [?t]) ! j) = 0" for j
  proof (cases "j < length (tasks s)")
    case True
    then show ?thesis using that assms(2) by (simp add: system_ok_def nth_append)
  next
    case False
    then have "j = length (tasks s)" using that(1) by simp
    then have "i = 0" using that(3) by simp
    then have "zero_globals (proc_world (process_of (tasks s ! i)))" using assms(2) by (simp add: system_ok_def)
    from child_guarded [OF child_fresh [OF this accept_fork(4,5,6)]] show ?thesis
      using \<open>j = length (tasks s)\<close> by simp
  qed
  moreover have "0 < length (tasks s)" using assms(2) by (simp add: system_ok_def)
  ultimately show ?thesis using assms(2) accept_fork(1) by (simp add: system_ok_def nth_append)
next
  case (serve i p)
  then have i: "0 < i" using assms(2) by (cases i) (simp_all add: system_ok_def)
  have "guarded p" if "forked_by (tasks s ! i) = 0"
  proof (rule guarded_step [OF _ serve(4)])
    show "guarded (process_of (tasks s ! i))" using that assms(2) serve(2) i by (simp add: system_ok_def)
  qed
  then show ?thesis using assms(2) serve(1,2) i by (auto simp: system_ok_def nth_list_update)
next
  case (leave i)
  then have "0 < i" using assms(2) by (cases i) (simp_all add: system_ok_def)
  then show ?thesis using assms(2) leave(1,2) by (auto simp: system_ok_def nth_list_update)
qed

interpretation serving: step_invariant "server os" system_ok for os
  by unfold_locales (rule system_step)

text \<open>One step of a guarded process drives the device at most once, and only in the full feature phase.\<close>

lemma guarded_disk:
  assumes "guarded p" "transmitting p" "step os (with_disk d p) q"
  shows "device (proc_world q) = d \<or> driven os d (device (proc_world q)) \<and> is_full_feature_phase (default_session (proc_world p)) \<noteq> 0"
proof -
  have w: "world_ok (proc_world (with_disk d p))"
    using with_disk_guarded [OF assms(1), of d] assms(2) by (simp add: safe_def)
  show ?thesis
    using assms(3)
  proof cases
    case (step_receive piece rest go w')
    from receive_round_progress [OF w, of piece os go w'] step_receive show ?thesis by auto
  next
    case step_receive_error
    then show ?thesis by simp
  next
    case (step_transmit send go w' out)
    from transmit_round_progress [OF w step_transmit(3)] step_transmit(1) show ?thesis by simp
  qed
qed

section \<open>Back in the loop of main\<close>

text \<open>The process that a served child forks next has the session object the child left behind.\<close>

lemma leave_and_fork:
  assumes "i < length (tasks s)" "serving (tasks s ! i)"
    and "\<not> receiving (process_of (tasks s ! i))" "\<not> transmitting (process_of (tasks s ! i))"
    and c: "blength (receive_buffer c) = 0" "blength (response_buffer c) = 0"
  shows "\<exists>t q. serves os s t \<and> start_connection 0 0 (child (process_of (tasks s ! i)) c client_socket_fd bs) = Some q
    \<and> tasks t = (tasks s)[i := (tasks s ! i)\<lparr>serving := False\<rparr>] @ [\<lparr>process_of = q, serving = True, forked_by = i\<rparr>]"
proof -
  let ?u = "s\<lparr>tasks := (tasks s)[i := (tasks s ! i)\<lparr>serving := False\<rparr>]\<rparr>"
  have 1: "server os s ?u" by (rule leave) (use assms in simp_all)
  obtain q where q: "start_connection 0 0 (child (process_of (tasks s ! i)) c client_socket_fd bs) = Some q"
    by (simp add: start_connection_def)
  let ?t = "?u\<lparr>tasks := tasks ?u @ [\<lparr>process_of = q, serving = True, forked_by = i\<rparr>]\<rparr>"
  have 2: "server os ?u ?t" by (rule accept_fork) (use assms q in simp_all)
  have "serves os s ?t" using 1 2 by (meson converse_rtranclp_into_rtranclp r_into_rtranclp)
  then show ?thesis using q by (intro exI [of _ ?t] exI [of _ q]) simp
qed

section \<open>The run of one process as a run of the server\<close>

lemma reachable_serves:
  assumes "reachable os p q" "i < length (tasks s)" "serving (tasks s ! i)"
    and "process_of (tasks s ! i) = p" "device (proc_world p) = disk s"
  shows "\<exists>t. serves os s t \<and> tasks t = (tasks s)[i := (tasks s ! i)\<lparr>process_of := q\<rparr>]
    \<and> disk t = device (proc_world q)"
  using assms
proof (induction rule: reachable.induct)
  case reachable_start
  then have "(tasks s)[i := (tasks s ! i)\<lparr>process_of := p\<rparr>] = tasks s"
    by (metis list_update_id task.surjective task.update_convs(1))
  then show ?case using reachable_start by auto
next
  case (reachable_step q r)
  then obtain t where t: "serves os s t" "tasks t = (tasks s)[i := (tasks s ! i)\<lparr>process_of := q\<rparr>]"
    "disk t = device (proc_world q)" by blast
  have i: "tasks t ! i = (tasks s ! i)\<lparr>process_of := q\<rparr>" "i < length (tasks t)"
    using reachable_step.prems(1) by (simp_all add: t(2))
  have "with_disk (disk t) q = q" by (cases q) (simp add: with_disk_def t(3))
  then have "server os t (t\<lparr>tasks := (tasks t)[i := (tasks t ! i)\<lparr>process_of := r\<rparr>], disk := device (proc_world r)\<rparr>)"
    using i reachable_step by (intro serve) simp_all
  with t(1) have "serves os s (t\<lparr>tasks := (tasks t)[i := (tasks t ! i)\<lparr>process_of := r\<rparr>], disk := device (proc_world r)\<rparr>)"
    by (rule rtranclp.rtrancl_into_rtrancl)
  then show ?case
    using i by (intro exI [of _ "t\<lparr>tasks := (tasks t)[i := (tasks t ! i)\<lparr>process_of := r\<rparr>],
        disk := device (proc_world r)\<rparr>"]) (simp add: t(2))
qed

end
