(* ===== verification/Iscsi_Logger.thy ===== *)
theory Iscsi_Logger
  imports Iscsi_State
begin

text \<open>
  The output for the operator: \<^verbatim>\<open>iscsi_logger.c\<close> on stderr, and on stdout the report of
  \<^verbatim>\<open>iscsi_target.c\<close> on a command that did not succeed and the bytes that the receiver of \<^verbatim>\<open>main.c\<close> prints. A
  stream is the list of the bytes written to it. The hexadecimal dump can be read back, and the report
  stays within the sense buffer when the device keeps to the length it was given.
\<close>

section \<open>Hexadecimal conversions of printf\<close>

definition hex_digit :: "nat \<Rightarrow> byte" where
  "hex_digit n = of_nat (if n < 10 then 48 + n else 87 + n)"

text \<open>The conversion \<open>%02x\<close> of a byte, and \<open>%x\<close> of any number.\<close>

definition hex2 :: "byte \<Rightarrow> byte list" where
  "hex2 b = [hex_digit (unat b div 16), hex_digit (unat b mod 16)]"

fun hex :: "nat \<Rightarrow> byte list" where
  "hex n = (if n < 16 then [hex_digit n] else hex (n div 16) @ [hex_digit (n mod 16)])"

declare hex.simps [simp del]

section \<open>The logger\<close>

text \<open>\<open>logger\<close> writes the formatted text and gives the number of bytes that \<open>vfprintf\<close> returned.\<close>

definition logger :: "byte list \<Rightarrow> byte list \<Rightarrow> cint \<times> byte list" where
  "logger formatted err = (word_of_nat (length formatted), err @ formatted)"

definition logger_line :: "byte list \<Rightarrow> byte list" where
  "logger_line err = snd (logger (replicate 44 35 @ [10]) err)"

definition BYTE_PER_LINE :: nat where
  "BYTE_PER_LINE = 16"

fun logger_hex_loop :: "cptr \<Rightarrow> nat \<Rightarrow> nat \<Rightarrow> byte list \<Rightarrow> byte list result" where
  "logger_hex_loop buffer i 0 err = Inr err"
| "logger_hex_loop buffer i (Suc n) err =
     bindR (rd buffer i) (\<lambda>b.
       let err = (if i mod BYTE_PER_LINE = 0 then snd (logger [10] err) else err);
           err = snd (logger (hex2 b @ [32]) err) in
       logger_hex_loop buffer (i + 1) n err)"

definition logger_hex_array :: "cptr \<Rightarrow> cint \<Rightarrow> byte list \<Rightarrow> byte list result" where
  "logger_hex_array buffer len err =
     bindR (logger_hex_loop buffer 0 (nat (sint len)) err) (\<lambda>err. Inr (snd (logger [10] err)))"

section \<open>The report on a SCSI command\<close>

text \<open>The fields of \<open>sg_io_hdr_t\<close> that the driver fills in and only the report reads.\<close>

record sg_outcome =
  info :: "32 word"
  masked_status :: byte
  host_status :: "16 word"
  driver_status :: "16 word"

definition SG_INFO_OK_MASK :: "32 word" where
  "SG_INFO_OK_MASK = 1"

definition SG_INFO_OK :: "32 word" where
  "SG_INFO_OK = 0"

fun sense_loop :: "cptr \<Rightarrow> nat \<Rightarrow> nat \<Rightarrow> byte list \<Rightarrow> byte list result" where
  "sense_loop sense k 0 out = Inr out"
| "sense_loop sense k (Suc n) out =
     (let out = (if 0 < k \<and> k mod 10 = 0 then out @ [10, 32, 32] else out) in
      bindR (rd sense k) (\<lambda>b. sense_loop sense (k + 1) n (out @ [48, 120] @ hex2 b @ [32])))"

definition sense_ptr :: "iSCSITarget \<Rightarrow> cptr" where
  "sense_ptr target = \<lparr>blk = sense_buffer target, bsz = nat ISCSI_TARGET_SENSE_BUFFER_SIZE, pos = 0\<rparr>"

definition report_status :: "string \<Rightarrow> nat \<Rightarrow> byte list \<Rightarrow> byte list" where
  "report_status name v out = out @ cstr name @ [48, 120] @ hex v @ [10]"

definition report_outcome :: "iSCSITarget \<Rightarrow> sg_outcome \<Rightarrow> byte list \<Rightarrow> byte list result" where
  "report_outcome target outcome out =
     (if info outcome AND SG_INFO_OK_MASK \<noteq> SG_INFO_OK then
        bindR (if 0 < sb_len_wr (io_hdr target) then
                 bindR (sense_loop (sense_ptr target) 0 (unat (sb_len_wr (io_hdr target)))
                          (out @ cstr ''INQUIRY sense data: '')) (\<lambda>out. Inr (out @ [10]))
               else Inr out) (\<lambda>out.
        let out = (if masked_status outcome \<noteq> 0
                   then report_status ''INQUIRY SCSI status='' (unat (status (io_hdr target))) out else out);
            out = (if host_status outcome \<noteq> 0
                   then report_status ''INQUIRY host_status='' (unat (host_status outcome)) out else out);
            out = (if driver_status outcome \<noteq> 0
                   then report_status ''INQUIRY driver_status='' (unat (driver_status outcome)) out else out) in
        Inr out)
      else Inr out)"

text \<open>The receiver prints every byte it got from \<open>recv\<close>, at most as many as its array holds.\<close>

fun print_received :: "cptr \<Rightarrow> nat \<Rightarrow> nat \<Rightarrow> byte list \<Rightarrow> byte list result" where
  "print_received buffer i 0 out = Inr out"
| "print_received buffer i (Suc n) out =
     bindR (rd buffer i) (\<lambda>b. print_received buffer (i + 1) n (out @ [b]))"

section \<open>The dump\<close>

text \<open>The reference: each line of the dump starts with a newline.\<close>

fun dump :: "nat \<Rightarrow> byte list \<Rightarrow> byte list" where
  "dump i [] = []"
| "dump i (b # bs) = (if i mod 16 = 0 then [10] else []) @ hex2 b @ [32] @ dump (Suc i) bs"

lemma bytes_of_Suc: "bytes_of m off (Suc n) = m off # bytes_of m (Suc off) n"
  by (simp add: bytes_of_def upt_conv_Cons del: upt_Suc)

lemma rd_loop:
  assumes "pos p + i + Suc n \<le> bsz p"
  shows "rd p i = Inr (blk p (pos p + i))"
  using assms by (simp add: rd_def)

lemma logger_hex_loop_dump:
  "pos p + i + n \<le> bsz p \<Longrightarrow> logger_hex_loop p i n err = Inr (err @ dump i (bytes_of (blk p) (pos p + i) n))"
proof (induction n arbitrary: i err)
  case (Suc n)
  then have "pos p + Suc i + n \<le> bsz p" by simp
  note IH = Suc.IH [OF this]
  show ?case
    using rd_loop [OF Suc.prems] by (simp add: IH bytes_of_Suc logger_def BYTE_PER_LINE_def)
qed (simp add: bytes_of_def)

lemma hex_array_dump:
  assumes "sint len \<le> int n" "pos p + n \<le> bsz p"
  shows "logger_hex_array p len err = Inr (err @ dump 0 (bytes_of (blk p) (pos p) (nat (sint len))) @ [10])"
  using assms logger_hex_loop_dump [of p 0 "nat (sint len)" err] by (simp add: logger_hex_array_def logger_def)

text \<open>Reading the dump back: the digits in pairs, everything else skipped.\<close>

definition digit_of :: "byte \<Rightarrow> nat" where
  "digit_of c = (if 97 \<le> c then unat c - 87 else unat c - 48)"

fun undump :: "byte list \<Rightarrow> byte list" where
  "undump [] = []"
| "undump (c # cs) = (if c = 10 \<or> c = 32 then undump cs
     else case cs of [] \<Rightarrow> [] | d # ds \<Rightarrow> of_nat (16 * digit_of c + digit_of d) # undump ds)"

lemma hex_digit_values:
  assumes "n < 16"
  shows "digit_of (hex_digit n) = n" "hex_digit n \<noteq> 10" "hex_digit n \<noteq> 32"
proof -
  have v: "unat (hex_digit n) = (if n < 10 then 48 + n else 87 + n)"
    using assms by (simp add: hex_digit_def unat_of_nat)
  show "digit_of (hex_digit n) = n" using assms v by (auto simp: digit_of_def word_le_nat_alt)
  show "hex_digit n \<noteq> 10" "hex_digit n \<noteq> 32" using v by (auto split: if_splits)
qed

lemma undump_hex2: "undump (hex2 b @ 32 # rest) = b # undump rest"
proof -
  have "unat b < 2 ^ LENGTH(8)" by (rule unsigned_less)
  then have "unat b div 16 < 16" by simp
  then show ?thesis using hex_digit_values [of "unat b div 16"] hex_digit_values [of "unat b mod 16"]
    by (simp add: hex2_def)
qed

lemma undump_dump: "undump (dump i bs @ [10]) = bs"
  by (induction bs arbitrary: i) (simp_all add: undump_hex2)

lemma line_count: "(i + 16) div 16 = (i + 15) div 16 + (if i mod 16 = 0 then 1 else (0 :: nat))"
  by presburger

lemma length_dump: "length (dump i bs) + (i + 15) div 16 = 3 * length bs + (i + length bs + 15) div 16"
proof (induction bs arbitrary: i)
  case (Cons b bs)
  have "length (dump (Suc i) bs) + (i + 16) div 16 = 3 * length bs + (i + Suc (length bs) + 15) div 16"
    using Cons.IH [of "Suc i"] by (simp add: add.commute)
  then show ?case using line_count [of i] by (simp add: hex2_def split: if_splits)
qed simp

text \<open>
  The dump of an array that holds the bytes: it is read back to them, three characters for a byte and
  one for a line.
\<close>

lemma hex_array_read_back:
  assumes "sint len = int n" "pos p + n \<le> bsz p"
  shows "\<exists>xs. logger_hex_array p len err = Inr (err @ xs) \<and> undump xs = bytes_of (blk p) (pos p) n
    \<and> length xs = 3 * n + (n + 15) div 16 + 1"
proof -
  have "sint len \<le> int n" using assms(1) by simp
  from hex_array_dump [OF this assms(2)] show ?thesis
    using assms(1) undump_dump [of 0] length_dump [of 0] by (auto simp: bytes_of_def)
qed

text \<open>Past the end of the array the loop reads foreign memory.\<close>

lemma logger_hex_loop_outside:
  "pos p + i \<le> bsz p \<Longrightarrow> bsz p < pos p + i + n \<Longrightarrow> logger_hex_loop p i n err = Inl OutOfBounds"
proof (induction n arbitrary: i err)
  case (Suc n)
  show ?case
  proof (cases "pos p + i = bsz p")
    case True
    then show ?thesis by (simp add: rd_def)
  next
    case False
    then have "pos p + Suc i \<le> bsz p" "bsz p < pos p + Suc i + n" using Suc.prems by simp_all
    from Suc.IH [OF this] show ?thesis using False Suc.prems by (simp add: rd_def Let_def)
  qed
qed simp

section \<open>The report\<close>

lemma sense_loop_total:
  "pos p + k + n \<le> bsz p \<Longrightarrow> \<exists>xs. sense_loop p k n out = Inr (out @ xs) \<and> 5 * n \<le> length xs"
proof (induction n arbitrary: k out)
  case (Suc n)
  let ?nl = "if 0 < k \<and> k mod 10 = 0 then [10, 32, 32] else []" and ?b = "blk p (pos p + k)"
  have "pos p + Suc k + n \<le> bsz p" using Suc.prems by simp
  from Suc.IH [OF this, of "out @ ?nl @ [48, 120] @ hex2 ?b @ [32]"] obtain xs where
    "sense_loop p (Suc k) n (out @ ?nl @ [48, 120] @ hex2 ?b @ [32]) = Inr (out @ (?nl @ [48, 120] @ hex2 ?b @ [32]) @ xs)"
    "5 * n \<le> length xs" by auto
  moreover have "rd p k = Inr ?b" by (rule rd_loop [OF Suc.prems])
  ultimately show ?case
    by (intro exI [of _ "(?nl @ [48, 120] @ hex2 ?b @ [32]) @ xs"]) (auto simp: hex2_def)
qed simp

lemma sense_loop_outside:
  "pos p + k \<le> bsz p \<Longrightarrow> bsz p < pos p + k + n \<Longrightarrow> sense_loop p k n out = Inl OutOfBounds"
proof (induction n arbitrary: k out)
  case (Suc n)
  show ?case
  proof (cases "pos p + k = bsz p")
    case True
    then show ?thesis by (simp add: rd_def)
  next
    case False
    then have "pos p + Suc k \<le> bsz p" "bsz p < pos p + Suc k + n" using Suc.prems by simp_all
    from Suc.IH [OF this] show ?thesis using False Suc.prems by (simp add: rd_def Let_def)
  qed
qed simp

text \<open>The report reads within the sense buffer exactly when the driver wrote at most 32 bytes.\<close>

lemma report_outcome_safe:
  "(\<exists>xs. report_outcome target outcome out = Inr (out @ xs))
    \<longleftrightarrow> info outcome AND SG_INFO_OK_MASK = SG_INFO_OK \<or> unat (sb_len_wr (io_hdr target)) \<le> 32"
proof (cases "info outcome AND SG_INFO_OK_MASK = SG_INFO_OK")
  case False
  let ?n = "unat (sb_len_wr (io_hdr target))" and ?p = "sense_ptr target"
  have n: "0 < sb_len_wr (io_hdr target) \<longleftrightarrow> 0 < ?n" by (simp add: word_less_nat_alt)
  have b: "pos ?p + 0 \<le> bsz ?p" "bsz ?p = 32" "pos ?p = 0"
    by (simp_all add: sense_ptr_def ISCSI_TARGET_SENSE_BUFFER_SIZE_def)
  show ?thesis
  proof (cases "?n \<le> 32")
    case True
    then obtain xs where "sense_loop ?p 0 ?n (out @ cstr ''INQUIRY sense data: '')
        = Inr ((out @ cstr ''INQUIRY sense data: '') @ xs)"
      using sense_loop_total [of ?p 0 ?n "out @ cstr ''INQUIRY sense data: ''"] b by auto
    then show ?thesis
      using False True n by (auto simp: report_outcome_def report_status_def Let_def simp del: append_assoc)
        (simp_all add: append_assoc)
  next
    case n32: False
    then have "sense_loop ?p 0 ?n (out @ cstr ''INQUIRY sense data: '') = Inl OutOfBounds"
      using b by (intro sense_loop_outside) simp_all
    then show ?thesis using False n32 n by (simp add: report_outcome_def)
  qed
qed (simp add: report_outcome_def)

lemma print_received_bytes:
  "pos p + i + n \<le> bsz p \<Longrightarrow> print_received p i n out = Inr (out @ bytes_of (blk p) (pos p + i) n)"
proof (induction n arbitrary: i out)
  case (Suc n)
  then have "pos p + Suc i + n \<le> bsz p" by simp
  from Suc.IH [OF this] show ?case using rd_loop [OF Suc.prems] by (simp add: bytes_of_Suc)
qed (simp add: bytes_of_def)

end
