(* ===== verification/Iscsi_Agreement.thy ===== *)
theory Iscsi_Agreement
  imports Iscsi_Main
begin

text \<open>
  What no request changes any more once a session is in the full feature phase: its kind, its target
  and the negotiated parameters of the connection, as an invariant of the steps of the process.
\<close>

definition agreed :: "iSCSIConnectionParameter \<Rightarrow> cint \<Rightarrow> 'd world \<Rightarrow> bool" where
  "agreed par d w \<longleftrightarrow> session_reference (connection w) = DefaultSession
     \<and> session_target (default_session w) = DefaultTarget
     \<and> is_full_feature_phase (default_session w) \<noteq> 0 \<and> is_discovery (default_session w) = d
     \<and> conn_parameter (connection w) = par"

lemma steady_agreed: "steady w w' \<Longrightarrow> agreed par d w \<Longrightarrow> agreed par d w'"
  by (auto simp: agreed_def steady_def kept_def)

lemma agreed_buffer [simp]:
  "agreed par d (w\<lparr>connection := (connection w)\<lparr>receive_buffer := b\<rparr>\<rparr>) = agreed par d w"
  "agreed par d (w\<lparr>connection := (connection w)\<lparr>response_buffer := b\<rparr>\<rparr>) = agreed par d w"
  by (simp_all add: agreed_def)

text \<open>The dispatcher: there a login is rejected, like any unknown request.\<close>

lemma server_agreed:
  assumes r: "iscsi_server_process os w = Inr (v, w')" and w: "world_ok w" and s: "agreed par d w"
  shows "agreed par d w'"
proof -
  obtain ok w1 where n: "valid_command_numbering w = (ok, w1)" by fastforce
  have s1: "agreed par d w1" using numbering_parts [OF n] s by (simp add: agreed_def)
  let ?c = "connection w1" and ?op = "iscsi_pdu_opcode (request_of (connection w1)) 0"
  have f: "session_reference ?c \<noteq> NoSession" "is_full_feature_phase (default_session w1) \<noteq> 0"
    using s1 by (simp_all add: agreed_def)
  have b: "buffer_ok (response_buffer ?c)" by (rule world_ok_response [OF numbering_ok [OF n w]])
  have run: "(if \<not> ok then Inr (pdu_status_value PDU_IGNORE, w1)
      else if ?op = opcode_value LOGOUT then with_connection w1 (iscsi_request_logout_process ?c)
      else if ?op = opcode_value TEXT then with_connection w1 (iscsi_request_text_process (default_session w1) ?c)
      else if is_discovery (default_session w1) \<noteq> 0 then with_connection w1 (iscsi_request_reject ?c PROTOCOL_ERROR None 0)
      else if ?op = opcode_value NOP_OUT then with_connection w1 (iscsi_request_nop_out_process ?c)
      else if ?op = opcode_value SCSI_DATA_OUT then iscsi_request_data_out_process os w1
      else if ?op = opcode_value SCSI_CMD then iscsi_request_cmd_process os w1
      else if ?op = opcode_value LOGIN then with_connection w1 (iscsi_request_reject ?c PROTOCOL_ERROR None 0)
      else with_connection w1 (iscsi_request_reject ?c CMD_NOT_SUPPORTED None 0)) = Inr (v, w')"
    using r f unfolding iscsi_server_process_def n Let_def split_beta fst_conv snd_conv by (simp only: if_False simp_thms)
  have "steady w1 w'"
    using run b
    by (auto split: if_splits intro: steady_refl
        dest: with_connection_steady [OF _ logout_kept [OF _ b]] with_connection_steady [OF _ text_kept [OF _ b]]
          with_connection_steady [OF _ nop_kept [OF _ b]] with_connection_steady [OF _ reject_kept [OF _ b]]
          data_out_steady [OF _ b] cmd_steady [OF _ b])
  then show ?thesis using s1 by (rule steady_agreed)
qed

section \<open>The rounds of the threads\<close>

lemma incoming_agreed:
  assumes w: "world_ok w" and r: "room (receive_buffer (connection w)) n" and l: "sint len = int n"
    and src: "pos buf + n \<le> bsz buf" and res: "incoming_request os w buf len = Inr (v, w')" and s: "agreed par d w"
  shows "agreed par d w'"
proof (rule incoming_request_steps [OF w r l src, of os])
  fix b
  let ?w = "w\<lparr>connection := (connection w)\<lparr>receive_buffer := b\<rparr>\<rparr>"
  assume ok: "world_ok ?w"
    and i: "incoming_request os w buf len =
      (if complete (contents b) then
        bindR (iscsi_server_process os ?w) (\<lambda>(v, w).
        bindR (iscsi_buffer_flush (receive_buffer (connection w))
                 (iscsi_pdu_length (bdata (receive_buffer (connection w))) 0)) (\<lambda>b.
          Inr (v, w\<lparr>connection := (connection w)\<lparr>receive_buffer := b\<rparr>\<rparr>)))
       else Inr (pdu_status_value PDU_INCOMPLETE, ?w))"
  show ?thesis
  proof (cases "complete (contents b)")
    case False
    then show ?thesis using i res s by auto
  next
    case True
    from res obtain w1 b2 where "iscsi_server_process os ?w = Inr (v, w1)"
      "w' = w1\<lparr>connection := (connection w1)\<lparr>receive_buffer := b2\<rparr>\<rparr>" unfolding i by (auto simp: True)
    then show ?thesis using server_agreed [OF _ ok, of os v w1 par d] s by simp
  qed
qed

lemma receive_round_agreed:
  assumes w: "world_ok w" "agreed par d w" and l: "length piece \<le> 256" and r: "receive_round os w piece = Inr (go, w')"
  shows "agreed par d w'"
proof -
  obtain st where i: "incoming_request os w (recv_ptr piece) (word_of_nat (length piece)) = Inr (st, w')"
    using r by (auto simp: receive_round_def)
  have n: "sint (word_of_nat (length piece) :: cint) = int (length piece)" using l by (intro sint_of_nat) simp
  have "room (receive_buffer (connection w)) (length piece)" by (rule receive_round_room [OF w(1) l r])
  then show ?thesis using l by (intro incoming_agreed [OF w(1) _ n _ i w(2)]) (simp_all add: recv_ptr_def)
qed

lemma transmit_round_agreed:
  assumes "transmit_round send w = Inr (go, w', out)"
  shows "agreed par d w' = agreed par d w"
  using assms by (auto simp: transmit_round_def Let_def split: if_splits)

section \<open>The invariant\<close>

definition agreed_process :: "iSCSIConnectionParameter \<Rightarrow> cint \<Rightarrow> 'd process \<Rightarrow> bool" where
  "agreed_process par d p \<longleftrightarrow> (transmitting p \<longrightarrow> world_ok (proc_world p) \<and> agreed par d (proc_world p))"

lemma agreed_step:
  assumes "step os p q" "agreed_process par d p"
  shows "agreed_process par d q"
  using assms(1)
proof (cases rule: step.cases)
  case (step_receive piece rest go w)
  then show ?thesis
    using assms(2) receive_round_progress [of "proc_world p" piece os go w]
      receive_round_agreed [of "proc_world p" par d piece os go w] by (auto simp: agreed_process_def)
next
  case (step_transmit send go w out)
  then show ?thesis
    using assms(2) transmit_round_progress [of "proc_world p" send go w out]
      transmit_round_agreed [of send "proc_world p" go w out par d] by (auto simp: agreed_process_def)
qed (use assms(2) in \<open>simp add: agreed_process_def\<close>)

interpretation agreement: step_invariant "step os" "agreed_process par d" for os par d
  by unfold_locales (rule agreed_step)

lemma agreed_reachable:
  assumes "reachable os p q" "world_ok (proc_world p)" "agreed par d (proc_world p)" "transmitting q"
  shows "agreed par d (proc_world q)"
proof -
  have "agreed_process par d q"
    using assms(1) unfolding reachable_steps
    by (rule agreement.always) (use assms(2,3) in \<open>simp add: agreed_process_def\<close>)
  then show ?thesis using assms(4) by (simp add: agreed_process_def)
qed

end
