(* ===== verification/Iscsi_Exchange.thy ===== *)
theory Iscsi_Exchange
  imports Iscsi_Delivery
begin

text \<open>
  Requests of a logged in session from the socket to the socket. A request that arrives in any pieces
  reaches its handler and is taken from the receive buffer (the locale \<open>request_handler\<close>); the frames it left in
  the response buffer are sent (\<open>transmit_frames\<close>); \<open>exchange\<close> is both, as steps of the process. For a
  read this gives the whole way of the data from the device to the network.
\<close>

section \<open>The data of a PDU\<close>

definition payload :: "byte list \<Rightarrow> byte list" where
  "payload f = bytes_of (mem_of f) 48 (dsl (mem_of f) 0)"

lemma length_payload [simp]: "length (payload f) = dsl (mem_of f) 0"
  by (simp add: payload_def)

lemma payload_message:
  assumes h: "length h = 48" "h ! 5 = byte_at len 16" "h ! 6 = byte_at len 8" "h ! 7 = byte_at len 0"
    and d: "sint len = int (length d)" "length d < 16777216"
  shows "payload (h @ d @ z) = d"
proof -
  let ?m = "mem_of (h @ d @ z)"
  have b: "?m 5 = byte_at len 16" "?m 6 = byte_at len 8" "?m 7 = byte_at len 0"
    using h by (simp_all add: mem_of_def nth_append)
  then have "iscsi_pdu_data_segment_length ?m 0 = len"
    using d by (intro data_segment_length_eqI) simp_all
  then have "dsl ?m 0 = length d" using d(1) by (simp add: dsl_def)
  then show ?thesis
    unfolding payload_def by (intro nth_equalityI) (simp_all add: mem_of_def nth_append h(1))
qed

lemma payload_response:
  assumes "length start = 4" "length trailer = 12" "sint len = int (length d)" "length d < 16777216"
  shows "payload (response_bhs start len itt ttt sn ec trailer @ d @ z) = d"
proof -
  obtain a0 a1 a2 a3 where st: "start = [a0, a1, a2, a3]"
    using assms(1) by (auto simp: numeral_eq_Suc length_Suc_conv)
  show ?thesis
    using assms by (intro payload_message) (simp_all add: st response_bhs_def be24_def nth_Cons')
qed

lemma payload_data_in:
  assumes "data_in_good c d"
  shows "payload (data_in_message c d) = di_bytes d"
proof -
  have "di_size d \<le> 4194304" using assms padn_bounds [of "48 + di_size d"] by (simp add: data_in_good_def)
  then show ?thesis
    unfolding data_in_message_def
    using data_in_lengths(1) [OF assms] by (intro payload_response) (simp_all add: di_bytes_def)
qed

lemma payload_data_ins:
  "\<forall>d \<in> set ds. data_in_good c d \<Longrightarrow> map payload (messages data_in_message c ds) = map di_bytes ds"
proof (induction ds arbitrary: c)
  case (Cons d ds)
  have "\<forall>d \<in> set ds. data_in_good (c\<lparr>stat_sn := stat_sn c + 1\<rparr>) d"
    using Cons.prems data_in.good_sn by simp
  then show ?case using Cons payload_data_in by simp
qed simp

section \<open>A logged in connection between two requests\<close>

text \<open>
  The state in which a process waits for the next request of its session, a normal one or one for
  discovery (\<open>d\<close> is the value of \<open>is_discovery\<close>). The dispatcher compares the word of a Data-Out at the
  place of CmdSN, which the protocol reserves as 0.
\<close>

definition awaiting :: "cint \<Rightarrow> 'd world \<Rightarrow> bool" where
  "awaiting d w \<longleftrightarrow> world_ok w \<and> logged_in w \<and> is_full_feature_phase (default_session w) \<noteq> 0
     \<and> is_discovery (default_session w) = d
     \<and> (command_numbering_start (default_session w) = 0 \<or> ExpCmdSN (default_session w) = 0)
     \<and> no_r2t_left (transfer_entry (default_session w)) \<and> contents (receive_buffer (connection w)) = []"

abbreviation operating :: "'d world \<Rightarrow> bool" where
  "operating \<equiv> awaiting 0"

definition request_frame :: "opcode \<Rightarrow> byte list \<Rightarrow> bool" where
  "request_frame opc f \<longleftrightarrow> frame f \<and> length f \<le> 4194304 \<and> mem_of f 4 = 0
     \<and> iscsi_pdu_opcode (mem_of f) 0 = opcode_value opc"

definition carries_cmdSN :: "opcode \<Rightarrow> bool" where
  "carries_cmdSN opc \<longleftrightarrow> opc = NOP_OUT \<or> opc = SCSI_CMD \<or> opc = LOGIN \<or> opc = TEXT \<or> opc = LOGOUT"

text \<open>The state that the handler gets.\<close>

definition numbered :: "opcode \<Rightarrow> 'd world \<Rightarrow> 'd world" where
  "numbered opc w = (if carries_cmdSN opc \<or> command_numbering_start (default_session w) \<noteq> 0 then w
     else w\<lparr>default_session := (default_session w)\<lparr>ExpCmdSN := 0, command_numbering_start := 1\<rparr>\<rparr>)"

definition arrived :: "opcode \<Rightarrow> 'd world \<Rightarrow> byte list \<Rightarrow> 'd world" where
  "arrived opc w f = numbered opc (into w (received (receive_buffer (connection w)) f))"

lemma numbered_sel [simp]:
  "connection (numbered opc w) = connection w" "device (numbered opc w) = device w"
  "default_target (numbered opc w) = default_target w"
  "transfer_entry (default_session (numbered opc w)) = transfer_entry (default_session w)"
  "session_transfer_tag (default_session (numbered opc w)) = session_transfer_tag (default_session w)"
  "session_target (default_session (numbered opc w)) = session_target (default_session w)"
  "is_full_feature_phase (default_session (numbered opc w)) = is_full_feature_phase (default_session w)"
  "is_discovery (default_session (numbered opc w)) = is_discovery (default_session w)"
  "iscsi_session_full (default_session (numbered opc w)) = iscsi_session_full (default_session w)"
  by (simp_all add: numbered_def iscsi_session_full_def)

lemma arrived_sel [simp]:
  "receive_buffer (connection (arrived opc w f)) = received (receive_buffer (connection w)) f"
  "response_buffer (connection (arrived opc w f)) = response_buffer (connection w)"
  "session_reference (connection (arrived opc w f)) = session_reference (connection w)"
  "conn_parameter (connection (arrived opc w f)) = conn_parameter (connection w)"
  "stat_sn (connection (arrived opc w f)) = stat_sn (connection w)"
  "expected_cmd_sn (connection (arrived opc w f)) = expected_cmd_sn (connection w)"
  "device (arrived opc w f) = device w" "default_target (arrived opc w f) = default_target w"
  "transfer_entry (default_session (arrived opc w f)) = transfer_entry (default_session w)"
  "session_transfer_tag (default_session (arrived opc w f)) = session_transfer_tag (default_session w)"
  "session_target (default_session (arrived opc w f)) = session_target (default_session w)"
  "is_full_feature_phase (default_session (arrived opc w f)) = is_full_feature_phase (default_session w)"
  "is_discovery (default_session (arrived opc w f)) = is_discovery (default_session w)"
  by (simp_all add: arrived_def into_def)

lemma view_arrived [simp]: "view (into w b) = view w" "view (arrived opc w f) = view w"
  by (simp_all add: view_def)

lemma numbered_ok: "world_ok w \<Longrightarrow> world_ok (numbered opc w)"
  by (simp add: world_ok_def split: session_ptr.splits)

lemma awaiting_room:
  "awaiting d w \<Longrightarrow> length f \<le> 4194304 \<Longrightarrow> room (receive_buffer (connection w)) (length f)"
  using fill_length [of "receive_buffer (connection w)"] by (simp add: awaiting_def world_ok_def room_def)

lemma arrived_ok: "awaiting d w \<Longrightarrow> length f \<le> 4194304 \<Longrightarrow> world_ok (arrived opc w f)"
  using received_ok(1) [OF awaiting_room] unfolding arrived_def
  by (intro numbered_ok into_ok) (auto simp: awaiting_def)

lemma arrived_request:
  assumes "awaiting d w" "i < length f"
  shows "request_of (connection (arrived opc w f)) i = mem_of f i"
  using assms fill_length [of "receive_buffer (connection w)"]
  by (simp add: request_of_def awaiting_def received_request)

lemma arrived_logged_in: "awaiting d w \<Longrightarrow> logged_in (arrived opc w f)"
  by (simp add: awaiting_def logged_in_def)

text \<open>The fields of the request are those of the frame.\<close>

lemma fields_cong:
  assumes "\<And>i. i < 48 \<Longrightarrow> req i = m i"
  shows "iscsi_pdu_opcode req 0 = iscsi_pdu_opcode m 0" "iscsi_pdu_cmdSN req 0 = iscsi_pdu_cmdSN m 0"
    "iscsi_pdu_initiator_task_tag req 0 = iscsi_pdu_initiator_task_tag m 0"
    "iscsi_pdu_target_transfer_tag req 0 = iscsi_pdu_target_transfer_tag m 0"
    "iscsi_request_data_out_buffer_offset req 0 = iscsi_request_data_out_buffer_offset m 0"
    "iscsi_request_cmd_read req 0 = iscsi_request_cmd_read m 0"
    "iscsi_request_cmd_write req 0 = iscsi_request_cmd_write m 0"
    "iscsi_request_cmd_exp_data_transfer req 0 = iscsi_request_cmd_exp_data_transfer m 0"
    "iscsi_pdu_has_cmdSN req 0 = iscsi_pdu_has_cmdSN m 0"
    "iscsi_pdu_data_segment_length req 0 = iscsi_pdu_data_segment_length m 0" "dsl req 0 = dsl m 0"
    "bytes_of req 32 16 = bytes_of m 32 16"
  using assms
  by (auto simp: iscsi_pdu_opcode_def iscsi_pdu_cmdSN_def iscsi_pdu_initiator_task_tag_def
      iscsi_pdu_target_transfer_tag_def iscsi_request_data_out_buffer_offset_def iscsi_request_cmd_read_def
      iscsi_request_cmd_write_def iscsi_request_cmd_exp_data_transfer_def iscsi_pdu_has_cmdSN_def
      iscsi_byte_byte2int_def iscsi_pdu_data_segment_length_def dsl_def intro!: bytes_of_cong)

lemma arrived_fields:
  assumes "awaiting d w" "request_frame opc f"
  defines "req \<equiv> request_of (connection (arrived opc w f))"
  shows "\<And>i. i < 48 \<Longrightarrow> req i = mem_of f i" "plen req 0 = length f"
proof -
  have 1: "req i = mem_of f i" if "i < 48" for i
    using that arrived_request [OF assms(1), of i f opc] frame_length [of f] assms(2) by (simp add: req_def request_frame_def)
  show "\<And>i. i < 48 \<Longrightarrow> req i = mem_of f i" by (rule 1)
  show "plen req 0 = length f"
    using plen_cong [of req 0 "mem_of f" 0] 1 assms(2) by (simp add: request_frame_def frame_def)
qed

section \<open>The answers on the wire\<close>

definition emptied :: "'d world \<Rightarrow> iSCSIBuffer \<Rightarrow> 'd world" where
  "emptied w b = w\<lparr>connection := (connection w)\<lparr>response_buffer := b\<rparr>\<rparr>"

lemma emptied_sel [simp]:
  "response_buffer (connection (emptied w b)) = b" "emptied (emptied w b) b' = emptied w b'"
  "receive_buffer (connection (emptied w b)) = receive_buffer (connection w)"
  "default_session (emptied w b) = default_session w" "default_target (emptied w b) = default_target w"
  "device (emptied w b) = device w" "conn_parameter (connection (emptied w b)) = conn_parameter (connection w)"
  "stat_sn (connection (emptied w b)) = stat_sn (connection w)"
  "expected_cmd_sn (connection (emptied w b)) = expected_cmd_sn (connection w)"
  "session_reference (connection (emptied w b)) = session_reference (connection w)"
  by (simp_all add: emptied_def)

lemma view_emptied [simp]: "view (emptied w b) = view w"
  by (simp add: view_def)

lemma emptied_awaiting: "awaiting d w \<Longrightarrow> buffer_ok b \<Longrightarrow> awaiting d (emptied w b)"
  by (simp add: awaiting_def world_ok_def logged_in_def split: session_ptr.splits)

lemma emptied_self: "emptied w (response_buffer (connection w)) = w"
  by (simp add: emptied_def)

lemma transmit_frames:
  assumes net: "takes_all send"
  shows "reachable os q p \<Longrightarrow> transmitting p \<Longrightarrow> \<forall>f \<in> set fs. frame f
    \<Longrightarrow> buffer_ok (response_buffer (connection (proc_world p)))
    \<Longrightarrow> contents (response_buffer (connection (proc_world p))) = concat fs
    \<Longrightarrow> \<exists>b. transmit_rounds (length fs) send (proc_world p) = Inr (emptied (proc_world p) b, concat fs)
      \<and> buffer_ok b \<and> contents b = []
      \<and> reachable os q (p\<lparr>proc_world := emptied (proc_world p) b, sent := sent p @ concat fs\<rparr>)"
proof (induction fs arbitrary: p)
  case Nil
  have "p\<lparr>proc_world := proc_world p, sent := sent p\<rparr> = p" by (cases p) simp
  then show ?case
    using Nil by (intro exI [of _ "response_buffer (connection (proc_world p))"]) (simp add: emptied_self)
next
  case (Cons f fs)
  have f: "frame f" "0 \<le> sint (send f)" using Cons.prems(3) takes_all_frame(1) [OF net, of f] by simp_all
  have "contents (response_buffer (connection (proc_world p))) = f @ concat fs" using Cons.prems(5) by simp
  from transmit_frame [where send = send, OF Cons.prems(4) this f] takes_all_frame [OF net f(1)] obtain b where
    b: "transmit_round send (proc_world p) = Inr (True, emptied (proc_world p) b, f)" "buffer_ok b" "contents b = concat fs"
    by (auto simp: emptied_def)
  let ?p = "p\<lparr>proc_world := emptied (proc_world p) b, transmitting := True, sent := sent p @ f\<rparr>"
  have "step os p ?p" using Cons.prems(2) b(1) by (intro step_transmit) simp_all
  then have r: "reachable os q ?p" by (rule reachable_step [OF Cons.prems(1)])
  from Cons.IH [OF r] b Cons.prems(3) obtain b' where
    b': "transmit_rounds (length fs) send (emptied (proc_world p) b) = Inr (emptied (proc_world p) b', concat fs)"
    "buffer_ok b'" "contents b' = []"
    "reachable os q (?p\<lparr>proc_world := emptied (proc_world p) b', sent := sent p @ f @ concat fs\<rparr>)" by auto
  have "?p\<lparr>proc_world := emptied (proc_world p) b', sent := sent p @ f @ concat fs\<rparr>
      = p\<lparr>proc_world := emptied (proc_world p) b', sent := sent p @ concat (f # fs)\<rparr>"
    using Cons.prems(2) by (cases p) simp
  then show ?case using b(1) b' by (intro exI [of _ b']) simp
qed

text \<open>A process that waits for a request, with nothing left to send.\<close>

definition listening :: "cint \<Rightarrow> 'd process \<Rightarrow> bool" where
  "listening d p \<longleftrightarrow> receiving p \<and> transmitting p \<and> awaiting d (proc_world p)
     \<and> contents (response_buffer (connection (proc_world p))) = []"

abbreviation quiet :: "'d process \<Rightarrow> bool" where
  "quiet \<equiv> listening 0"

lemma listening_room: "listening d p \<Longrightarrow> n \<le> 4194304 \<Longrightarrow> room (response_buffer (connection (proc_world p))) n"
  using fill_length [of "response_buffer (connection (proc_world p))"]
  by (simp add: listening_def awaiting_def world_ok_def room_def)

text \<open>The pieces \<open>ps\<close> arrive at \<open>p\<close>, and then the frames \<open>fs\<close> are sent, which leaves \<open>q\<close>.\<close>

definition exchange :: "'d os \<Rightarrow> (byte list \<Rightarrow> cint) \<Rightarrow> 'd process \<Rightarrow> byte list list \<Rightarrow> byte list list \<Rightarrow> 'd process \<Rightarrow> bool" where
  "exchange os send p ps fs q \<longleftrightarrow> reachable os p q \<and> sent q = sent p @ concat fs
     \<and> to_receive p = concat ps @ to_receive q
     \<and> (\<exists>w. receive_rounds os (proc_world p) ps = Inr (True, w)
         \<and> transmit_rounds (length fs) send w = Inr (proc_world q, concat fs))"

lemma exchangeD:
  assumes "exchange os send p ps fs q"
  shows "reachable os p q" "sent q = sent p @ concat fs" "to_receive p = concat ps @ to_receive q"
  using assms unfolding exchange_def by blast+

lemma exchange_frames:
  assumes p: "listening d p" "to_receive p = concat ps @ rest" "\<forall>x \<in> set ps. x \<noteq> [] \<and> length x \<le> 256"
    and r: "receive_rounds os (proc_world p) ps = Inr (True, w)" "awaiting d w"
    and c: "contents (response_buffer (connection w)) = concat fs" "\<forall>f \<in> set fs. frame f" and net: "takes_all send"
  obtains b where "exchange os send p ps fs (p\<lparr>proc_world := emptied w b, to_receive := rest, sent := sent p @ concat fs\<rparr>)"
    "listening d (p\<lparr>proc_world := emptied w b, to_receive := rest, sent := sent p @ concat fs\<rparr>)"
proof -
  let ?p = "p\<lparr>proc_world := w, to_receive := rest\<rparr>"
  have 1: "reachable os p ?p"
    using receive_rounds_reachable [OF reachable_start r(1) _ p(2,3)] p(1) by (simp add: listening_def)
  have "buffer_ok (response_buffer (connection w))" using r(2) by (simp add: awaiting_def world_ok_def)
  then have "\<exists>b. transmit_rounds (length fs) send (proc_world ?p) = Inr (emptied (proc_world ?p) b, concat fs)
      \<and> buffer_ok b \<and> contents b = []
      \<and> reachable os p (?p\<lparr>proc_world := emptied (proc_world ?p) b, sent := sent ?p @ concat fs\<rparr>)"
    using c p(1) by (intro transmit_frames [OF net 1]) (simp_all add: listening_def)
  then obtain b where
    b: "transmit_rounds (length fs) send w = Inr (emptied w b, concat fs)" "buffer_ok b" "contents b = []"
    "reachable os p (?p\<lparr>proc_world := emptied w b, sent := sent p @ concat fs\<rparr>)" by auto
  have eq: "?p\<lparr>proc_world := emptied w b, sent := sent p @ concat fs\<rparr>
      = p\<lparr>proc_world := emptied w b, to_receive := rest, sent := sent p @ concat fs\<rparr>" by simp
  have 2: "reachable os p (p\<lparr>proc_world := emptied w b, to_receive := rest, sent := sent p @ concat fs\<rparr>)"
    using b(4) unfolding eq .
  show ?thesis
    using that [of b] 2 b(1-3) p r emptied_awaiting [OF r(2) b(2)] by (simp add: exchange_def listening_def)
qed

section \<open>The interface of a request handler\<close>

text \<open>
  What the dispatcher and the receiver need of the handler of an opcode: in the full feature phase of
  a session of the given kinds (values of \<open>is_discovery\<close>) the dispatcher calls it, and it keeps what
  \<open>steady\<close> says. The client lemmas take a request of that opcode from the socket to the handler and its
  answer back.
\<close>

locale request_handler =
  fixes opc :: opcode and kind :: "cint \<Rightarrow> bool" and handle :: "'d os \<Rightarrow> 'd world \<Rightarrow> (cint \<times> 'd world) result"
  assumes numbering: "carries_cmdSN opc \<or> opc = SCSI_DATA_OUT"
    and dispatched: "logged_in w \<Longrightarrow> is_full_feature_phase (default_session w) \<noteq> 0 \<Longrightarrow> kind (is_discovery (default_session w))
      \<Longrightarrow> iscsi_pdu_opcode (request_of (connection w)) 0 = opcode_value opc
      \<Longrightarrow> valid_command_numbering w = (True, w1) \<Longrightarrow> iscsi_server_process os w = handle os w1"
    and steadies: "handle os w = Inr (v, w') \<Longrightarrow> buffer_ok (response_buffer (connection w))
      \<Longrightarrow> iscsi_pdu_opcode (request_of (connection w)) 0 = opcode_value opc \<Longrightarrow> steady w w'"
begin

text \<open>A request whose handler succeeds is taken from the receive buffer, however it was cut.\<close>

lemma round:
  assumes w: "awaiting d w" "kind d" and f: "request_frame opc f" "opc = SCSI_DATA_OUT \<Longrightarrow> iscsi_pdu_cmdSN (mem_of f) 0 = 0"
    and ps: "concat ps = f" "\<forall>x \<in> set ps. x \<noteq> [] \<and> length x \<le> 256"
    and h: "handle os (arrived opc w f) = Inr (v, w')" "v \<noteq> pdu_status_value SOCKET_TERMINATE"
  obtains b where "receive_rounds os w ps = Inr (True, into w' b)" "awaiting d (into w' b)" "buffer_ok b"
proof -
  let ?b = "receive_buffer (connection w)" and ?w = "into w (received (receive_buffer (connection w)) f)"
  have c: "contents ?b = []" and ok: "world_ok w" using w by (simp_all add: awaiting_def)
  have fl: "frame f" "length f \<le> 4194304" "48 \<le> length f" using f(1) frame_length by (auto simp: request_frame_def)
  have e: "fill ?b = 0" using fill_length [of ?b] c by simp
  have "request_of (connection ?w) i = mem_of f i" if "i < 48" for i
    using that fl received_request [OF e] by (simp add: request_of_def)
  note fields = fields_cong [OF this]
  have op: "iscsi_pdu_opcode (request_of (connection ?w)) 0 = opcode_value opc"
    using fields(1) f(1) by (simp add: request_frame_def)
  have num: "valid_command_numbering ?w = (True, numbered opc ?w)"
    using w numbering f(2) op fields(2)
    by (auto simp: valid_command_numbering_def numbered_def carries_cmdSN_def iscsi_pdu_has_cmdSN_def awaiting_def
        logged_in_def into_def Let_def)
  have lw: "logged_in ?w" using w by (simp add: awaiting_def logged_in_def)
  have "iscsi_server_process os ?w = handle os (arrived opc w f)"
    unfolding arrived_def using w by (intro dispatched [OF lw _ _ op num]) (simp_all add: awaiting_def)
  with h have d: "iscsi_server_process os ?w = Inr (v, w')" by simp
  have ok1: "world_ok ?w" using received_ok(1) [OF awaiting_room [OF w(1) fl(2)]] ok by (intro into_ok)
  from server_progress [OF d ok1] w
  have p: "world_ok w'" "receive_buffer (connection w') = received ?b f" "no_r2t_left (transfer_entry (default_session w'))"
    by (simp_all add: progress_def awaiting_def)
  have st: "steady (arrived opc w f) w'"
    by (rule steadies [OF h(1) arrived_ok [OF w(1) fl(2), THEN world_ok_response]])
      (use op in \<open>simp add: arrived_def numbered_def\<close>)
  have r: "room ?b (length f)" using awaiting_room [OF w(1) fl(2)] .
  have pl: "plen (bdata (received ?b f)) 0 = length f"
    using plen_frame [of "received ?b f" f "[]"] received_ok(3) [OF r] c fl by simp
  have "plen (bdata (received ?b f)) 0 \<le> fill (received ?b f)" using pl received_ok(2) [OF r] by simp
  from flush_ok [OF received_ok(1) [OF r] sint_pdu_length this] obtain b where
    b: "iscsi_buffer_flush (received ?b f) (iscsi_pdu_length (bdata (received ?b f)) 0) = Inr b"
    "buffer_ok b" "contents b = drop (length f) (contents (received ?b f))"
    unfolding pl by blast
  have ne: "ps \<noteq> []" using ps(1) fl by auto
  have "receive_rounds os w ps = handle_pdu os ?w"
    using receive_rounds_pdu [OF ok _ fl(1,2) ps(2) ne] ps(1) c by simp
  then have 1: "receive_rounds os w ps = Inr (True, into w' b)" using d p(2) b(1) h(2) by (simp add: handle_pdu_def)
  have "contents b = []" using b(3) received_ok(3) [OF r] c by simp
  then have 2: "awaiting d (into w' b)"
    using p st w b(2) into_ok [OF p(1) b(2)]
    by (auto simp: awaiting_def steady_def kept_def logged_in_def arrived_def numbered_def into_def split: if_splits)
  show ?thesis using that [OF 1 2 b(2)] .
qed

text \<open>A request and the frames that answer it.\<close>

lemma request_exchange:
  assumes p: "listening d p" "kind d" "to_receive p = f @ rest" and ps: "concat ps = f" "\<forall>x \<in> set ps. x \<noteq> [] \<and> length x \<le> 256"
    and f: "request_frame opc f" "opc = SCSI_DATA_OUT \<Longrightarrow> iscsi_pdu_cmdSN (mem_of f) 0 = 0"
    and h: "handle os (arrived opc (proc_world p) f) = Inr (v, w')" "v \<noteq> pdu_status_value SOCKET_TERMINATE"
    and c: "contents (response_buffer (connection w')) = concat fs" "\<forall>f \<in> set fs. frame f" and net: "takes_all send"
  obtains q where "exchange os send p ps fs q" "listening d q" "to_receive q = rest" "device (proc_world q) = device w'"
    "default_session (proc_world q) = default_session w'" "view (proc_world q) = view w'"
proof -
  have w: "awaiting d (proc_world p)" using p(1) by (simp add: listening_def)
  from round [OF w p(2) f ps h] obtain b where b: "receive_rounds os (proc_world p) ps = Inr (True, into w' b)" "awaiting d (into w' b)"
    by blast
  have rcv: "to_receive p = concat ps @ rest" using p(3) ps(1) by simp
  have "contents (response_buffer (connection (into w' b))) = concat fs" using c(1) by simp
  from exchange_frames [OF p(1) rcv ps(2) b this c(2) net] obtain b' where
    "exchange os send p ps fs (p\<lparr>proc_world := emptied (into w' b) b', to_receive := rest, sent := sent p @ concat fs\<rparr>)"
    "listening d (p\<lparr>proc_world := emptied (into w' b) b', to_receive := rest, sent := sent p @ concat fs\<rparr>)" by blast
  then show ?thesis by (rule that) simp_all
qed

end

lemma dispatch:
  assumes w: "logged_in w" "is_full_feature_phase (default_session w) \<noteq> 0"
    and n: "valid_command_numbering w = (True, w1)"
  defines "opc \<equiv> iscsi_pdu_opcode (request_of (connection w)) 0" and "d \<equiv> is_discovery (default_session w)"
  shows "d = 0 \<Longrightarrow> opc = opcode_value SCSI_CMD \<Longrightarrow> iscsi_server_process os w = iscsi_request_cmd_process os w1"
    and "d = 0 \<Longrightarrow> opc = opcode_value SCSI_DATA_OUT \<Longrightarrow> iscsi_server_process os w = iscsi_request_data_out_process os w1"
    and "d = 0 \<Longrightarrow> opc = opcode_value NOP_OUT \<Longrightarrow> iscsi_server_process os w
      = with_connection w1 (iscsi_request_nop_out_process (connection w1))"
    and "opc = opcode_value LOGOUT \<Longrightarrow> iscsi_server_process os w
      = with_connection w1 (iscsi_request_logout_process (connection w1))"
    and "opc = opcode_value TEXT \<Longrightarrow> iscsi_server_process os w
      = with_connection w1 (iscsi_request_text_process (default_session w1) (connection w1))"
    and "d \<noteq> 0 \<Longrightarrow> opc = opcode_value SCSI_CMD \<Longrightarrow> iscsi_server_process os w
      = with_connection w1 (iscsi_request_reject (connection w1) PROTOCOL_ERROR None 0)"
    and "opc = opcode_value LOGIN \<Longrightarrow> iscsi_server_process os w
      = with_connection w1 (iscsi_request_reject (connection w1) PROTOCOL_ERROR None 0)"
proof -
  have "session_reference (connection w) = DefaultSession" using w(1) by (simp add: logged_in_def)
  note facts = numbering_parts [OF n] this w(2)
  show "d = 0 \<Longrightarrow> opc = opcode_value SCSI_CMD \<Longrightarrow> iscsi_server_process os w = iscsi_request_cmd_process os w1"
    "d = 0 \<Longrightarrow> opc = opcode_value SCSI_DATA_OUT \<Longrightarrow> iscsi_server_process os w = iscsi_request_data_out_process os w1"
    "d = 0 \<Longrightarrow> opc = opcode_value NOP_OUT \<Longrightarrow> iscsi_server_process os w
      = with_connection w1 (iscsi_request_nop_out_process (connection w1))"
    "opc = opcode_value LOGOUT \<Longrightarrow> iscsi_server_process os w
      = with_connection w1 (iscsi_request_logout_process (connection w1))"
    "opc = opcode_value TEXT \<Longrightarrow> iscsi_server_process os w
      = with_connection w1 (iscsi_request_text_process (default_session w1) (connection w1))"
    "d \<noteq> 0 \<Longrightarrow> opc = opcode_value SCSI_CMD \<Longrightarrow> iscsi_server_process os w
      = with_connection w1 (iscsi_request_reject (connection w1) PROTOCOL_ERROR None 0)"
    "opc = opcode_value LOGIN \<Longrightarrow> iscsi_server_process os w
      = with_connection w1 (iscsi_request_reject (connection w1) PROTOCOL_ERROR None 0)"
    unfolding iscsi_server_process_def n opc_def d_def using facts by (simp_all add: Let_def)
qed

text \<open>The handlers of a normal session, and those of any session.\<close>

interpretation command: request_handler SCSI_CMD "\<lambda>d. d = 0" iscsi_request_cmd_process
  by unfold_locales (simp add: carries_cmdSN_def, (rule dispatch(1); assumption), use cmd_steady in blast)

interpretation write_data: request_handler SCSI_DATA_OUT "\<lambda>d. d = 0" iscsi_request_data_out_process
  by unfold_locales (simp, (rule dispatch(2); assumption), use data_out_steady in blast)

text \<open>A handler that works on the connection alone and answers with frames.\<close>

lemma arrived_session: "carries_cmdSN opc \<Longrightarrow> default_session (arrived opc w f) = default_session w"
  by (simp add: arrived_def numbered_def)

locale connection_handler = request_handler opc kind "\<lambda>os w. with_connection w (respond (default_session w) (connection w))"
  for opc kind and respond :: "iSCSISession \<Rightarrow> iSCSIConnection \<Rightarrow> (cint \<times> iSCSIConnection) result" +
  assumes carries: "carries_cmdSN opc"
begin

lemma answer_exchange:
  fixes os :: "'a os" and p :: "'a process"
  defines "w \<equiv> proc_world p"
  assumes p: "listening d p" "kind d" "to_receive p = f @ rest" and ps: "concat ps = f" "\<forall>x \<in> set ps. x \<noteq> [] \<and> length x \<le> 256"
    and f: "request_frame opc f"
    and h: "respond (default_session w) (connection (arrived opc w f)) = Inr (v, c')" "v \<noteq> pdu_status_value SOCKET_TERMINATE"
    and c: "contents (response_buffer c') = concat fs" "\<forall>f \<in> set fs. frame f" and net: "takes_all send"
    and v: "v' = (view w)\<lparr>view_sn := stat_sn c', view_exp := expected_cmd_sn c', view_limits := limits (conn_parameter c')\<rparr>"
  shows "\<exists>q. exchange os send p ps fs q \<and> listening d q \<and> to_receive q = rest \<and> device (proc_world q) = device w
    \<and> default_session (proc_world q) = default_session w \<and> view (proc_world q) = v'"
proof -
  let ?a = "arrived opc w f"
  note same = arrived_session [OF carries]
  have h': "with_connection ?a (respond (default_session ?a) (connection ?a)) = Inr (v, ?a\<lparr>connection := c'\<rparr>)"
    unfolding same with_connection_def h(1) by simp
  have r: "contents (response_buffer (connection (?a\<lparr>connection := c'\<rparr>))) = concat fs" using c(1) by simp
  have o: "opc = SCSI_DATA_OUT \<Longrightarrow> iscsi_pdu_cmdSN (mem_of f) 0 = 0" using carries by (simp add: carries_cmdSN_def)
  obtain q where "exchange os send p ps fs q" "listening d q" "to_receive q = rest"
    "device (proc_world q) = device (?a\<lparr>connection := c'\<rparr>)"
    "default_session (proc_world q) = default_session (?a\<lparr>connection := c'\<rparr>)"
    "view (proc_world q) = view (?a\<lparr>connection := c'\<rparr>)"
    by (rule request_exchange [OF p ps f o h' [unfolded w_def] h(2) r [unfolded w_def] c(2) net]) (simp_all add: w_def)
  then show ?thesis by (intro exI [of _ q]) (simp add: same v view_def)
qed

end

interpretation ping: connection_handler NOP_OUT "\<lambda>d. d = 0" "\<lambda>s. iscsi_request_nop_out_process"
  by unfold_locales (simp add: carries_cmdSN_def, (rule dispatch(3); assumption), (erule with_connection_steady, erule nop_kept, assumption, assumption),
    simp add: carries_cmdSN_def)

interpretation goodbye: connection_handler LOGOUT "\<lambda>_. True" "\<lambda>s. iscsi_request_logout_process"
  by unfold_locales (simp add: carries_cmdSN_def, (rule dispatch(4); assumption), (erule with_connection_steady, erule logout_kept, assumption),
    simp add: carries_cmdSN_def)

interpretation inquiry: connection_handler TEXT "\<lambda>_. True" iscsi_request_text_process
  by unfold_locales (simp add: carries_cmdSN_def, (rule dispatch(5); assumption), (erule with_connection_steady, erule text_kept, assumption),
    simp add: carries_cmdSN_def)

section \<open>A read\<close>

lemma length_messages [simp]: "length (messages msg c as) = length as"
  by (induction "as" arbitrary: c) simp_all

lemma messages_receive_buffer:
  assumes "\<And>c. \<forall>a b. msg (c\<lparr>receive_buffer := b\<rparr>) a = msg c a"
  shows "messages msg (c\<lparr>receive_buffer := b\<rparr>) as = messages msg c as"
proof (induction "as" arbitrary: c)
  case (Cons a "as")
  have swap: "c\<lparr>receive_buffer := b, stat_sn := s\<rparr> = c\<lparr>stat_sn := s, receive_buffer := b\<rparr>" for s by simp
  show ?case using Cons.IH [of "c\<lparr>stat_sn := stat_sn c + 1\<rparr>"] assms by (simp add: swap)
qed simp

lemma sum_list_le: "(\<And>x. x \<in> set xs \<Longrightarrow> f x \<le> g x) \<Longrightarrow> sum_list (map f xs) \<le> (sum_list (map g xs) :: nat)"
  by (induction xs) (auto intro: add_mono)

lemma chunk_messages_bound:
  assumes t: "transfer_ok e mx d"
  shows "length (concat (messages data_in_message c (chunks tag e mx d))) \<le> e + 52 * chunk_count e mx"
proof -
  let ?ds = "chunks tag e mx d"
  have "length (concat (messages data_in_message c ?ds)) = sum_list (map (\<lambda>d. padn (48 + di_size d)) ?ds)"
    by (rule length_data_in_messages) (rule chunks_good [OF t])
  also have "\<dots> \<le> sum_list (map (\<lambda>d. 52 + length (di_bytes d)) ?ds)"
  proof (rule sum_list_le)
    show "padn (48 + di_size d) \<le> 52 + length (di_bytes d)" for d
      using padn_bounds [of "48 + di_size d"] by (simp add: di_bytes_def)
  qed
  also have "\<dots> = 52 * length ?ds + length (concat (map di_bytes ?ds))"
    by (simp add: sum_list_addf sum_list_triv length_concat o_def)
  also have "\<dots> = e + 52 * chunk_count e mx"
    unfolding concat_chunks [OF t] by (simp add: chunks_def)
  finally show ?thesis .
qed

text \<open>
  A read from the socket to the socket: the request in any pieces, one call of the device with the
  command block and the buffers of the target, and the bytes it gave in the payloads of the frames.
\<close>

definition device_reply :: "'d os \<Rightarrow> 'd world \<Rightarrow> byte list \<Rightarrow> mem \<Rightarrow> 'd sg_reply" where
  "device_reply os w f buf =
     os_ioctl os (device w) sg_request (bytes_of (mem_of f) 32 16) buf (sense_buffer (default_target w))"

lemma read_exchange:
  fixes os :: "'d os" and p :: "'d process"
  defines "w \<equiv> proc_world p"
  assumes p: "quiet p" "to_receive p = f @ rest" and ps: "concat ps = f" "\<forall>x \<in> set ps. x \<noteq> [] \<and> length x \<le> 256"
    and f: "request_frame SCSI_CMD f" "iscsi_request_cmd_write (mem_of f) 0 = 0"
      "iscsi_request_cmd_read (mem_of f) 0 \<noteq> 0"
  defines "r \<equiv> device_reply os w f (tbuffer (default_target w))"
    and "mx \<equiv> nat (sint (max_receive_data_segment_length (conn_parameter (connection w))))"
  assumes e: "sint (c_min (iscsi_request_cmd_exp_data_transfer (mem_of f) 0) (4194304 - reply_resid r)) = int e"
    and mx: "0 < mx" and fits: "e + 52 * chunk_count e mx \<le> 4194304" and net: "takes_all send"
  shows "\<exists>fs q. exchange os send p ps fs q \<and> quiet q \<and> to_receive q = rest \<and> device (proc_world q) = reply_device r
    \<and> fs = messages data_in_message (iscsi_connection_advance_expected_cmd_sn (connection w))
        (chunks (iscsi_pdu_initiator_task_tag (mem_of f) 0) e mx \<lparr>blk = reply_buffer r, bsz = 4194304, pos = 0\<rparr>)
    \<and> concat (map payload fs) = bytes_of (reply_buffer r) 0 e
    \<and> view (proc_world q) = (view_after r (view_command (view w)))\<lparr>view_sn := stat_sn (connection w) + word_of_nat (length fs)\<rparr>"
proof -
  let ?a = "arrived SCSI_CMD w f" and ?d = "\<lparr>blk = reply_buffer r, bsz = 4194304, pos = 0\<rparr>"
  let ?ds = "chunks (iscsi_pdu_initiator_task_tag (mem_of f) 0) e mx ?d"
  let ?c = "iscsi_connection_advance_expected_cmd_sn (connection w)"
  let ?fs = "messages data_in_message ?c ?ds"
  have w: "operating w" using p(1) by (simp add: listening_def w_def)
  have nil: "contents (response_buffer (connection w)) = []" using p(1) by (simp add: listening_def w_def)
  have par: "sint (max_receive_data_segment_length (conn_parameter (connection w))) = int mx" "mx \<le> 1048576"
    using mx w by (auto simp: mx_def awaiting_def world_ok_def logged_in_def negotiated_def)
  have t: "transfer_ok e mx ?d" using mx par(2) fits by (simp add: transfer_ok_def)
  have "request_of (connection ?a) i = mem_of f i" if "i < 48" for i using arrived_fields(1) [OF w f(1) that] .
  note fields = fields_cong [OF this]
  have ca: "iscsi_connection_advance_expected_cmd_sn (connection ?a) = ?c\<lparr>receive_buffer := received (receive_buffer (connection w)) f\<rparr>"
    by (simp add: iscsi_connection_advance_expected_cmd_sn_def arrived_def into_def)
  have ra: "reply_to os ?a (bytes_of (request_of (connection ?a)) 32 16) (tbuffer (default_target ?a)) = r"
    by (simp only: reply_to_def r_def device_reply_def fields arrived_sel)
  have ms: "messages data_in_message (iscsi_connection_advance_expected_cmd_sn (connection ?a)) ?ds = ?fs"
    unfolding ca by (rule messages_receive_buffer) (simp add: data_in_message_def)
  have room: "room (response_buffer (connection ?a)) (length (concat ?fs))"
    using listening_room [OF p(1), folded w_def] order_trans [OF chunk_messages_bound [OF t] fits] by simp
  obtain w' where w': "iscsi_request_cmd_process os ?a = Inr (0, w')" "device w' = reply_device r"
    "contents (response_buffer (connection w')) = concat ?fs"
    "view w' = (view_after r (view_command (view w)))\<lparr>view_sn := stat_sn (connection w) + word_of_nat (length ?ds)\<rparr>"
    using read_command [OF arrived_logged_in [OF w], of SCSI_CMD f os e mx, unfolded ra] f(2,3) e t par room fits nil
      sint_word_of_nat [OF e] sint_word_of_nat [OF par(1)]
    by (auto simp: fields ms)
  have g: "\<forall>d \<in> set ?ds. data_in_good ?c d" by (rule chunks_good [OF t])
  have pl: "concat (map payload ?fs) = bytes_of (reply_buffer r) 0 e"
    unfolding payload_data_ins [OF g] concat_chunks [OF t] by simp
  have fr: "\<forall>f \<in> set ?fs. frame f" by (rule data_in.messages_framed [OF g])
  from command.request_exchange [OF p(1) refl p(2) ps f(1) _ w'(1) [unfolded w_def] _ w'(3) fr net] obtain q where
    "exchange os send p ps ?fs q" "quiet q" "to_receive q = rest" "device (proc_world q) = device w'"
    "view (proc_world q) = view w'" by auto
  then show ?thesis using w'(2,4) pl by (intro exI [of _ ?fs] exI [of _ q]) simp
qed

section \<open>Ping and logout\<close>

text \<open>A NOP-In and a logout response as bytes.\<close>

definition echo :: "byte list \<Rightarrow> cint \<Rightarrow> cint \<Rightarrow> byte list" where
  "echo f sn ec = response_bhs [0x20, 0x80, 0, 0] (iscsi_pdu_data_segment_length (mem_of f) 0)
     (iscsi_pdu_initiator_task_tag (mem_of f) 0) (iscsi_pdu_target_transfer_tag (mem_of f) 0) sn ec (replicate 12 0)
     @ payload f"

definition farewell :: "cint \<Rightarrow> cint \<Rightarrow> byte list" where
  "farewell sn ec = response_bhs [0x26, 0x80, 0, 0] 0 0 0 sn ec (replicate 12 0)"

lemma nop_status:
  assumes "iscsi_request_nop_out_process c = Inr (v, c')"
  shows "v = BASIC_HEADER_SEGMENT_LENGTH + c_min (max_receive_data_segment_length (conn_parameter c))
    (iscsi_pdu_data_segment_length (request_of c) 0)"
  using assms by (auto simp: iscsi_request_nop_out_process_def Let_def split_def)

lemma logout_status:
  assumes "iscsi_request_logout_process c = Inr (v, c')" "session_reference c \<noteq> NoSession"
  shows "v = BASIC_HEADER_SEGMENT_LENGTH"
  using assms by (auto simp: iscsi_request_logout_process_def Let_def split_def)

lemma ping_exchange:
  fixes os :: "'d os" and p :: "'d process"
  defines "w \<equiv> proc_world p"
  assumes p: "quiet p" "to_receive p = f @ rest" and ps: "concat ps = f" "\<forall>x \<in> set ps. x \<noteq> [] \<and> length x \<le> 256"
    and f: "request_frame NOP_OUT f" "4 dvd length (payload f)"
      "int (length (payload f)) \<le> sint (max_receive_data_segment_length (conn_parameter (connection w)))"
    and net: "takes_all send"
  shows "\<exists>q. exchange os send p ps [echo f (stat_sn (connection w)) (expected_cmd_sn (connection w))] q \<and> quiet q
    \<and> to_receive q = rest \<and> device (proc_world q) = device w \<and> default_session (proc_world q) = default_session w
    \<and> view (proc_world q) = (view w)\<lparr>view_sn := stat_sn (connection w) + 1\<rparr>"
proof -
  let ?a = "arrived NOP_OUT w f" and ?m = "echo f (stat_sn (connection w)) (expected_cmd_sn (connection w))"
  have w: "operating w" and nil: "contents (response_buffer (connection w)) = []" using p(1) by (simp_all add: listening_def w_def)
  have "request_of (connection ?a) i = mem_of f i" if "i < 48" for i using arrived_fields(1) [OF w f(1) that] .
  note fields = fields_cong [OF this]
  have l: "48 + dsl (mem_of f) 0 \<le> length f" "length f \<le> 4194304"
    using plen_bounds(2) [of "mem_of f" 0] f(1) by (simp_all add: request_frame_def frame_def)
  have g: "nop_good (connection ?a) ()" using f(2,3) l by (simp add: nop_good_def fields)
  have "bytes_of (request_of (connection ?a)) 48 (dsl (mem_of f) 0) = payload f"
    unfolding payload_def using arrived_request [OF w, of _ f] l by (intro bytes_of_cong) simp
  then have m: "nop_message (connection ?a) () = ?m" by (simp add: nop_message_def echo_def fields Let_def)
  have "length (nop_message (connection ?a) ()) \<le> 4194304" using l by (simp only: nop_data_length(3) [OF g] fields)
  then have "room (response_buffer (connection ?a)) (length (nop_message (connection ?a) ()))"
    using listening_room [OF p(1), folded w_def] by simp
  from after_pairD [OF nop.sends [OF g this, unfolded nop_send_def]] nil obtain v b where
    h: "iscsi_request_nop_out_process (connection ?a) = Inr (v, (connection ?a)\<lparr>response_buffer := b,
        stat_sn := stat_sn (connection ?a) + word_of_nat (Suc 0)\<rparr>)" "contents b = ?m" by (auto simp: m)
  have "sint v = int (48 + dsl (mem_of f) 0)"
    using nop_status [OF h(1)] nop_data_length(1,2) [OF g] by (simp add: fields)
  then have v: "v \<noteq> pdu_status_value SOCKET_TERMINATE" by auto
  have "frame ?m" using nop.framed [OF g] unfolding m .
  then show ?thesis
    unfolding w_def using h(2) by (intro ping.answer_exchange [OF p(1) refl p(2) ps f(1) h(1) [unfolded w_def] v _ _ net]) (simp_all add: w_def view_def)
qed

lemma logout_exchange:
  fixes os :: "'d os" and p :: "'d process"
  defines "w \<equiv> proc_world p"
  assumes p: "listening d p" "to_receive p = f @ rest" and ps: "concat ps = f" "\<forall>x \<in> set ps. x \<noteq> [] \<and> length x \<le> 256"
    and f: "request_frame LOGOUT f" and net: "takes_all send"
  shows "\<exists>q. exchange os send p ps [farewell (stat_sn (connection w)) (expected_cmd_sn (connection w))] q \<and> listening d q
    \<and> to_receive q = rest \<and> device (proc_world q) = device w \<and> default_session (proc_world q) = default_session w
    \<and> view (proc_world q) = (view w)\<lparr>view_sn := stat_sn (connection w) + 1\<rparr>"
proof -
  let ?a = "arrived LOGOUT w f" and ?m = "farewell (stat_sn (connection w)) (expected_cmd_sn (connection w))"
  have w: "awaiting d w" and nil: "contents (response_buffer (connection w)) = []" using p(1) by (simp_all add: listening_def w_def)
  have g: "logout_good (connection ?a) ()" using w by (simp add: logout_good_def awaiting_def logged_in_def)
  have m: "logout_message (connection ?a) () = ?m" by (simp add: logout_message_def farewell_def)
  have "room (response_buffer (connection ?a)) (length (logout_message (connection ?a) ()))"
    using listening_room [OF p(1), folded w_def] by (simp add: logout_message_def)
  from after_pairD [OF logout.sends [OF g this, unfolded logout_send_def]] nil obtain v b where
    h: "iscsi_request_logout_process (connection ?a) = Inr (v, (connection ?a)\<lparr>response_buffer := b,
        stat_sn := stat_sn (connection ?a) + word_of_nat (Suc 0)\<rparr>)" "contents b = ?m" by (auto simp: m)
  have v: "v \<noteq> pdu_status_value SOCKET_TERMINATE" using logout_status [OF h(1)] g by (simp add: logout_good_def)
  have "frame ?m" using logout.framed [OF g] unfolding m .
  then show ?thesis
    unfolding w_def using h(2) by (intro goodbye.answer_exchange [OF p(1) TrueI p(2) ps f h(1) [unfolded w_def] v _ _ net]) (simp_all add: w_def view_def)
qed

section \<open>After the login\<close>

text \<open>The process that has answered a first login waits for the requests of its session.\<close>

lemma login_listening:
  fixes os :: "'d os" and p :: "'d process" and kvs :: "(byte list \<times> byte list) list"
  defines "par \<equiv> login_parameter (connection (proc_world p)) kvs"
  assumes p: "fresh (proc_world p)" "receiving p" "transmitting p" "to_receive p = f @ rest"
    and l: "login_request f kvs"
    and ps: "concat ps = f" "\<forall>x \<in> set ps. x \<noteq> [] \<and> length x \<le> 256"
    and k: "opens_session kvs d"
    and os: "0 \<le> sint (os_open os)" "non_negative par" "takes_all send"
  shows "\<exists>w1 w2. receive_rounds os (proc_world p) ps = Inr (True, w1)
    \<and> transmit_round send w1 = Inr (True, w2, login_answer f par)
    \<and> reachable os p (p\<lparr>proc_world := w2, to_receive := rest, sent := sent p @ login_answer f par\<rparr>)
    \<and> listening d (p\<lparr>proc_world := w2, to_receive := rest, sent := sent p @ login_answer f par\<rparr>)
    \<and> session_transfer_tag (default_session w2) = 0 \<and> device w2 = device (proc_world p)
    \<and> view w2 = first_view par (proc_world p)"
proof -
  let ?q = "\<lambda>w2. p\<lparr>proc_world := w2, to_receive := rest, sent := sent p @ login_answer f par\<rparr>"
  from login_reachable [OF p l ps k os [unfolded par_def], folded par_def] obtain w1 w2 where
    r: "receive_rounds os (proc_world p) ps = Inr (True, w1)" "transmit_round send w1 = Inr (True, w2, login_answer f par)"
      "reachable os p (?q w2)"
    and w2: "logged_in w2" "is_full_feature_phase (default_session w2) = 1" "is_discovery (default_session w2) = d"
      "command_numbering_start (default_session w2) = 0" "session_transfer_tag (default_session w2) = 0"
      "contents (receive_buffer (connection w2)) = []" "contents (response_buffer (connection w2)) = []"
      "device w2 = device (proc_world p)" "view w2 = first_view par (proc_world p)" by blast
  have "safe (device (proc_world p)) (?q w2)" by (rule safe_reachable [OF r(3) fresh_safe [OF p(1)]])
  then have "listening d (?q w2)" using p w2 by (simp add: listening_def awaiting_def safe_def)
  with r w2 show ?thesis by blast
qed

end
