(* ===== verification/Iscsi_Write.thy ===== *)
theory Iscsi_Write
  imports Iscsi_Exchange
begin

text \<open>
  A write from the socket to the socket: the command and the R2Ts it is answered with, the Data-Outs
  that bring the data in order (\<open>data_outs\<close>), each in any pieces, and the one call of the device when
  the last one has come.
\<close>

section \<open>A write\<close>

text \<open>A Data-Out of the transfer \<open>tag\<close> with its data for \<open>off\<close>, and a series of them.\<close>

definition data_out :: "cint \<Rightarrow> nat \<Rightarrow> byte list \<Rightarrow> bool" where
  "data_out tag off f \<longleftrightarrow> request_frame SCSI_DATA_OUT f \<and> iscsi_pdu_cmdSN (mem_of f) 0 = 0
     \<and> iscsi_pdu_target_transfer_tag (mem_of f) 0 = tag \<and> payload f \<noteq> []
     \<and> sint (iscsi_request_data_out_buffer_offset (mem_of f) 0) = int off"

fun data_outs :: "cint \<Rightarrow> nat \<Rightarrow> byte list list \<Rightarrow> bool" where
  "data_outs tag off [] = True"
| "data_outs tag off (f # fs) = (data_out tag off f \<and> data_outs tag (off + length (payload f)) fs)"

abbreviation payloads :: "byte list list \<Rightarrow> byte list" where
  "payloads fs \<equiv> concat (map payload fs)"

lemma data_outs_append:
  "data_outs tag off (fs @ gs) \<longleftrightarrow> data_outs tag off fs \<and> data_outs tag (off + length (payloads fs)) gs"
  by (induction fs arbitrary: off) (simp_all add: add.assoc)

text \<open>The world after Data-Outs that brought \<open>xs\<close> from \<open>off\<close> on and left the write incomplete.\<close>

definition collected :: "'d world \<Rightarrow> nat \<Rightarrow> byte list \<Rightarrow> 'd world \<Rightarrow> bool" where
  "collected w off xs w' \<longleftrightarrow> operating w' \<and> device w' = device w \<and> default_target w' = default_target w
     \<and> response_buffer (connection w') = response_buffer (connection w)
     \<and> stat_sn (connection w') = stat_sn (connection w)
     \<and> expected_cmd_sn (connection w') = expected_cmd_sn (connection w)
     \<and> transfer_entry (default_session w') = (transfer_entry (default_session w))\<lparr>
         entry_data := blit (entry_data (transfer_entry (default_session w))) off (\<lambda>i. xs ! i) (length xs)\<rparr>
     \<and> view w' = view w"

lemma collected_refl: "operating w \<Longrightarrow> collected w off [] w"
  by (simp add: collected_def)

lemma collected_trans:
  assumes "collected w off xs w1" "collected w1 (off + length xs) ys w2"
  shows "collected w off (xs @ ys) w2"
  using assms blit_nth_append [of "entry_data (transfer_entry (default_session w))" off xs ys]
  by (simp add: collected_def)

text \<open>What arrived with a Data-Out, as the handler sees it.\<close>

lemma data_out_arrived:
  assumes w: "operating w" and f: "data_out tag off f" and n: "off + length (payload f) \<le> 4194304"
    and tag: "entry_transfer_tag (transfer_entry (default_session w)) = tag" "tag \<noteq> DEFAULT_TARGET_TRANSFER_TAG"
  defines "a \<equiv> arrived SCSI_DATA_OUT w f"
  shows "data_out_plan a off"
    and "stored_data a off = blit (entry_data (transfer_entry (default_session w))) off (\<lambda>i. payload f ! i) (length (payload f))"
    and "sint (iscsi_request_data_out_buffer_offset (request_of (connection a)) 0) = int off"
    and "dsl (request_of (connection a)) 0 = length (payload f)"
    and "iscsi_pdu_initiator_task_tag (request_of (connection a)) 0 = iscsi_pdu_initiator_task_tag (mem_of f) 0"
proof -
  have r: "request_frame SCSI_DATA_OUT f" using f by (simp add: data_out_def)
  have "request_of (connection a) i = mem_of f i" if "i < 48" for i
    using arrived_fields(1) [OF w r that] by (simp add: a_def)
  note fields = fields_cong [OF this]
  have l: "48 + dsl (mem_of f) 0 \<le> length f" "length f \<le> 4194304"
    using plen_bounds(2) [of "mem_of f" 0] r by (simp_all add: request_frame_def frame_def)
  show "data_out_plan a off" "sint (iscsi_request_data_out_buffer_offset (request_of (connection a)) 0) = int off"
    "dsl (request_of (connection a)) 0 = length (payload f)"
    "iscsi_pdu_initiator_task_tag (request_of (connection a)) 0 = iscsi_pdu_initiator_task_tag (mem_of f) 0"
    using f n tag l by (simp_all add: data_out_plan_def fields data_out_def Let_def, simp add: a_def)
  show "stored_data a off = blit (entry_data (transfer_entry (default_session w))) off (\<lambda>i. payload f ! i) (length (payload f))"
  proof -
    have "request_of (connection a) (48 + i) = mem_of f (48 + i)" if "i < dsl (mem_of f) 0" for i
      using arrived_request [OF w, of "48 + i" f] l that by (simp add: a_def)
    moreover have "transfer_entry (default_session a) = transfer_entry (default_session w)" by (simp add: a_def)
    ultimately show ?thesis by (auto simp: stored_data_def fields payload_def intro!: blit_cong)
  qed
qed

text \<open>A Data-Out that leaves the write incomplete.\<close>

lemma data_out_round:
  fixes os :: "'d os"
  assumes w: "operating w" and f: "data_out tag off f" and n: "off + length (payload f) < e" "e \<le> 4194304"
    and tag: "entry_transfer_tag (transfer_entry (default_session w)) = tag" "tag \<noteq> DEFAULT_TARGET_TRANSFER_TAG"
    and e: "sint (total_length (transfer_entry (default_session w))) = int e"
    and ps: "concat ps = f" "\<forall>x \<in> set ps. x \<noteq> [] \<and> length x \<le> 256"
  obtains w' where "receive_rounds os w ps = Inr (True, w')" "collected w off (payload f) w'"
proof -
  let ?a = "arrived SCSI_DATA_OUT w f"
  have r: "request_frame SCSI_DATA_OUT f" and c: "iscsi_pdu_cmdSN (mem_of f) 0 = 0" using f by (simp_all add: data_out_def)
  have n': "off + length (payload f) \<le> 4194304" using n by simp
  note arr = data_out_arrived [OF w f n' tag]
  have "sint (iscsi_request_data_out_buffer_offset (request_of (connection ?a)) 0
      + iscsi_pdu_data_segment_length (request_of (connection ?a)) 0) = int (off + length (payload f))"
    using arr(3,4) n sint_dsl [of "request_of (connection ?a)" 0] by (subst sint_plus) simp_all
  then have ne: "iscsi_request_data_out_buffer_offset (request_of (connection ?a)) 0
      + iscsi_pdu_data_segment_length (request_of (connection ?a)) 0 \<noteq> total_length (transfer_entry (default_session ?a))"
    using e n by auto
  have "sint (total_r2t_sn (transfer_entry (default_session ?a))) \<le> sint (r2t_sn (transfer_entry (default_session ?a)))"
    using w by (simp add: awaiting_def no_r2t_left_def)
  then have "iscsi_request_data_out_process os ?a = Inr (0, store ?a off)"
    using data_out_partial [OF arrived_logged_in [OF w] arr(1) ne] by simp
  from write_data.round [OF w refl r c ps this] obtain b where b: "receive_rounds os w ps = Inr (True, into (store ?a off) b)"
    "operating (into (store ?a off) b)" by auto
  then have "collected w off (payload f) (into (store ?a off) b)"
    using arr(2) by (simp add: collected_def store_def into_def view_def)
  with b(1) show ?thesis by (rule that)
qed

lemma receive_rounds_append:
  "receive_rounds os w (xs @ ys) = bindR (receive_rounds os w xs) (\<lambda>(go, w).
     if go then receive_rounds os w ys else Inr (False, w))"
  by (induction xs arbitrary: w) (auto simp: bindR_assoc split_def simp del: bindR_eq_Inr intro!: bindR_cong)

lemma data_out_rounds:
  assumes "operating w" "data_outs tag off fs" "off + length (payloads fs) < e" "e \<le> 4194304"
    and "entry_transfer_tag (transfer_entry (default_session w)) = tag" "tag \<noteq> DEFAULT_TARGET_TRANSFER_TAG"
    and "sint (total_length (transfer_entry (default_session w))) = int e"
    and "map concat pss = fs" "\<forall>ps \<in> set pss. \<forall>x \<in> set ps. x \<noteq> [] \<and> length x \<le> 256"
  shows "\<exists>w'. receive_rounds os w (concat pss) = Inr (True, w') \<and> collected w off (payloads fs) w'"
  using assms
proof (induction pss arbitrary: fs w off)
  case Nil
  then show ?case using collected_refl by simp
next
  case (Cons ps pss)
  obtain f fs' where fs: "fs = f # fs'" "concat ps = f" "map concat pss = fs'" using Cons.prems(8) by auto
  have f: "data_out tag off f" "data_outs tag (off + length (payload f)) fs'" "off + length (payload f) < e"
    using Cons.prems(2,3) fs by simp_all
  obtain w1 where w1: "receive_rounds os w ps = Inr (True, w1)" "collected w off (payload f) w1"
    using data_out_round [OF Cons.prems(1) f(1,3) Cons.prems(4,5,6,7) fs(2), of os] Cons.prems(9) by auto
  have "\<exists>w'. receive_rounds os w1 (concat pss) = Inr (True, w') \<and> collected w1 (off + length (payload f)) (payloads fs') w'"
    using w1(2) Cons.prems(3-9) f fs by (intro Cons.IH) (simp_all add: collected_def)
  then obtain w' where w': "receive_rounds os w1 (concat pss) = Inr (True, w')"
    "collected w1 (off + length (payload f)) (payloads fs') w'" by blast
  have "collected w off (payloads fs) w'" using collected_trans [OF w1(2) w'(2)] by (simp add: fs(1))
  with w1(1) w'(1) show ?case by (simp add: receive_rounds_append)
qed

text \<open>The SCSI response that carries the outcome of one call of the device.\<close>

definition status_answer :: "cint \<Rightarrow> cint \<Rightarrow> cint \<Rightarrow> 'd sg_reply \<Rightarrow> byte list" where
  "status_answer itt sn ec r =
     response_bhs [0x21, 0x80, if sint (reply_ret r) < 0 then 1 else 0, reply_status r]
       (2 + ucast (reply_sb_len_wr r)) itt 0 sn ec (replicate 12 0)
     @ ([byte_at (ucast (reply_sb_len_wr r)) 8, byte_at (ucast (reply_sb_len_wr r)) 0]
        @ bytes_of (reply_sense r) 0 (unat (reply_sb_len_wr r))) @ pad_zeros (50 + unat (reply_sb_len_wr r))"

lemma scsi_message_status:
  assumes "default_target w' = target_after r t"
  shows "scsi_message c w' = status_answer (iscsi_pdu_initiator_task_tag (request_of c) 0) (stat_sn c) (expected_cmd_sn c) r"
  by (simp add: scsi_message_def status_answer_def assms sense_bytes_def sense_size_def Let_def) (simp add: target_after_def)

text \<open>The Data-Out that completes the write.\<close>

lemma data_out_last_round:
  fixes os :: "'d os" and w :: "'d world" and f :: "byte list"
  defines "t \<equiv> transfer_entry (default_session w)"
  assumes w: "operating w" and f: "data_out tag off f" and n: "off + length (payload f) = e" "e \<le> 4194304"
    and tag: "entry_transfer_tag t = tag" "tag \<noteq> DEFAULT_TARGET_TRANSFER_TAG"
    and e: "sint (total_length t) = int e"
    and ps: "concat ps = f" "\<forall>x \<in> set ps. x \<noteq> [] \<and> length x \<le> 256"
  defines "r \<equiv> os_ioctl os (device w) sg_request (bytes_of (entry_cdb t) 0 16)
      (blit (tbuffer (default_target w)) 0 (blit (entry_data t) off (\<lambda>i. payload f ! i) (length (payload f))) e)
      (sense_buffer (default_target w))"
  assumes sense: "unat (reply_sb_len_wr r) \<le> 32" and nil: "contents (response_buffer (connection w)) = []"
  shows "\<exists>w'. receive_rounds os w ps = Inr (True, w') \<and> operating w' \<and> device w' = reply_device r
    \<and> contents (response_buffer (connection w')) = status_answer (iscsi_pdu_initiator_task_tag (mem_of f) 0)
        (stat_sn (connection w)) (expected_cmd_sn (connection w)) r
    \<and> view w' = (view_after r (view w))\<lparr>view_sn := stat_sn (connection w) + 1\<rparr>"
proof -
  let ?a = "arrived SCSI_DATA_OUT w f"
  have s: "request_frame SCSI_DATA_OUT f" and c: "iscsi_pdu_cmdSN (mem_of f) 0 = 0" using f by (simp_all add: data_out_def)
  have n': "off + length (payload f) \<le> 4194304" using n by simp
  note arr = data_out_arrived [OF w f n' tag [unfolded t_def]]
  have total: "sint (total_length (transfer_entry (default_session ?a))) = int (off + dsl (request_of (connection ?a)) 0)"
    using e n(1) arr(4) by (simp add: t_def)
  have r: "reply_to os ?a (bytes_of (entry_cdb (transfer_entry (default_session ?a))) 0 16)
      (blit (tbuffer (default_target ?a)) 0 (stored_data ?a off) (off + dsl (request_of (connection ?a)) 0)) = r"
    unfolding arr(2,4) n(1) by (simp only: reply_to_def r_def t_def arrived_sel)
  let ?w' = "(store ?a off)\<lparr>device := reply_device r, default_target :=
      target_after r ((default_target ?a)\<lparr>tbuffer := blit (tbuffer (default_target ?a)) 0 (stored_data ?a off)
        (off + dsl (request_of (connection ?a)) 0)\<rparr>)\<rparr>"
  let ?m = "status_answer (iscsi_pdu_initiator_task_tag (mem_of f) 0) (stat_sn (connection w)) (expected_cmd_sn (connection w)) r"
  have m: "scsi_message (connection ?a) ?w' = ?m"
    using scsi_message_status [of ?w' r _ "connection ?a"] arr(5) by simp
  have "length ?m = padn (50 + unat (reply_sb_len_wr r))"
    using padn_bounds [of "50 + unat (reply_sb_len_wr r)"] by (simp add: status_answer_def)
  then have "length ?m \<le> 4194304" using sense padn_bounds [of "50 + unat (reply_sb_len_wr r)"] by simp
  moreover have "buffer_ok (response_buffer (connection w))" using w by (simp add: awaiting_def world_ok_def)
  ultimately have room: "room (response_buffer (connection ?a)) (length ?m)"
    using nil fill_length [of "response_buffer (connection w)"] by (simp add: room_def)
  obtain w2 where w2: "iscsi_request_data_out_process os ?a = Inr (0, w2)" "device w2 = reply_device r"
    "contents (response_buffer (connection w2)) = ?m" "view w2 = (view_after r (view w))\<lparr>view_sn := stat_sn (connection w) + 1\<rparr>"
    using data_out_last [OF arrived_logged_in [OF w] arr(1) total, of os, unfolded r m] sense room nil by auto
  from write_data.round [OF w refl s c ps w2(1)] obtain b where "receive_rounds os w ps = Inr (True, into w2 b)"
    "operating (into w2 b)" by auto
  with w2(2-4) show ?thesis by (intro exI [of _ "into w2 b"]) simp
qed

text \<open>The command of a write in any pieces: R2Ts, and the transfer entry filled in.\<close>

lemma write_plan_cong:
  assumes "\<And>i. i < 48 \<Longrightarrow> req i = m i"
  shows "write_plan req par e mx k = write_plan m par e mx k"
  by (simp add: write_plan_def fields_cong [OF assms])

lemma write_plan_bound:
  assumes "write_plan req (conn_parameter (connection w)) e mx k" "operating w"
  shows "k \<le> 10"
  using assms by (auto simp: write_plan_def awaiting_def world_ok_def logged_in_def negotiated_def)

definition write_entry :: "byte list \<Rightarrow> nat \<Rightarrow> cint \<Rightarrow> iSCSITransferEntry \<Rightarrow> iSCSITransferEntry" where
  "write_entry f e tag t = t\<lparr>entry_cdb := blit (entry_cdb t) 0 (\<lambda>i. mem_of f (32 + i)) 16,
     total_length := word_of_nat e, entry_transfer_tag := tag\<rparr>"

lemma write_command_round:
  fixes os :: "'d os" and w :: "'d world" and f :: "byte list"
  defines "tag \<equiv> session_transfer_tag (default_session w) + 1"
    and "c \<equiv> iscsi_connection_advance_expected_cmd_sn (connection w)"
  assumes w: "operating w" and f: "request_frame SCSI_CMD f" "write_plan (mem_of f) (conn_parameter (connection w)) e mx k"
    and ps: "concat ps = f" "\<forall>x \<in> set ps. x \<noteq> [] \<and> length x \<le> 256"
    and nil: "contents (response_buffer (connection w)) = []"
  shows "\<exists>w'. receive_rounds os w ps = Inr (True, w') \<and> operating w' \<and> device w' = device w
    \<and> default_target w' = default_target w
    \<and> transfer_entry (default_session w') = write_entry f e tag (transfer_entry (default_session w))
    \<and> contents (response_buffer (connection w')) = concat (messages r2t_message c
        (requested (iscsi_pdu_initiator_task_tag (mem_of f) 0) tag mx e (dsl (mem_of f) 0) k))
    \<and> stat_sn (connection w') = stat_sn (connection w) + word_of_nat k
    \<and> expected_cmd_sn (connection w') = expected_cmd_sn c
    \<and> view w' = (view_command (view w))\<lparr>view_sn := stat_sn (connection w) + word_of_nat k\<rparr>"
proof -
  let ?a = "arrived SCSI_CMD w f"
  have "request_of (connection ?a) i = mem_of f i" if "i < 48" for i using arrived_fields(1) [OF w f(1) that] .
  note fields = fields_cong [OF this] write_plan_cong [OF this]
  have k: "k \<le> 10" using write_plan_bound [OF f(2) w] .
  have "room (response_buffer (connection ?a)) (48 * k)"
    using w nil k fill_length [of "response_buffer (connection w)"] by (simp add: awaiting_def world_ok_def room_def)
  moreover have "write_plan (request_of (connection ?a)) (conn_parameter (connection ?a)) e mx k"
    using f(2) fields by simp
  moreover have ca: "iscsi_connection_advance_expected_cmd_sn (connection ?a) = c\<lparr>receive_buffer := received (receive_buffer (connection w)) f\<rparr>"
    by (simp add: iscsi_connection_advance_expected_cmd_sn_def arrived_def into_def c_def)
  moreover have "blit m 0 (\<lambda>i. request_of (connection ?a) (32 + i)) 16 = blit m 0 (\<lambda>i. mem_of f (32 + i)) 16" for m
    using arrived_fields(1) [OF w f(1)] by (intro blit_cong) simp
  moreover have ms: "messages r2t_message (c\<lparr>receive_buffer := b\<rparr>) rs = messages r2t_message c rs" for b rs
    by (rule messages_receive_buffer) (simp add: r2t_message_def)
  ultimately obtain w' where w': "iscsi_request_cmd_process os ?a = Inr (0, w')" "device w' = device w"
    "default_target w' = default_target w"
    "transfer_entry (default_session w') = write_entry f e tag (transfer_entry (default_session w))"
    "contents (response_buffer (connection w')) = concat (messages r2t_message c
        (requested (iscsi_pdu_initiator_task_tag (mem_of f) 0) tag mx e (dsl (mem_of f) 0) k))"
    "stat_sn (connection w') = stat_sn (connection w) + word_of_nat k"
    "expected_cmd_sn (connection w') = expected_cmd_sn c"
    "view w' = (view_command (view w))\<lparr>view_sn := stat_sn (connection w) + word_of_nat k\<rparr>"
    using write_command [OF arrived_logged_in [OF w], of SCSI_CMD f e mx k os] nil
    by (auto simp: fields write_entry_def tag_def)
  from command.round [OF w refl f(1) _ ps w'(1)] obtain b where
    "receive_rounds os w ps = Inr (True, into w' b)" "operating (into w' b)" by auto
  with w' show ?thesis by (intro exI [of _ "into w' b"]) simp
qed

text \<open>The buffer that the device gets for a write: the data in its place, before it what the entry held.\<close>

definition write_buffer :: "iSCSITransferEntry \<Rightarrow> nat \<Rightarrow> byte list \<Rightarrow> nat \<Rightarrow> mem \<Rightarrow> mem" where
  "write_buffer t start xs e buf = blit buf 0 (blit (entry_data t) start (\<lambda>i. xs ! i) (length xs)) e"

lemma write_buffer_bytes:
  assumes "start + length xs = e"
  shows "bytes_of (write_buffer t start xs e buf) 0 e = bytes_of (entry_data t) 0 start @ xs"
  using assms by (intro nth_equalityI) (auto simp: write_buffer_def blit_def nth_append)

lemma data_out_series:
  fixes os :: "'d os" and w :: "'d world" and ds :: "byte list list"
  defines "t \<equiv> transfer_entry (default_session w)"
  assumes w: "operating w" and ds: "data_outs tag start ds" "ds \<noteq> []" and n: "start + length (payloads ds) = e" "e \<le> 4194304"
    and tag: "entry_transfer_tag t = tag" "tag \<noteq> DEFAULT_TARGET_TRANSFER_TAG" and e: "sint (total_length t) = int e"
    and ps: "map concat pss = ds" "\<forall>ps \<in> set pss. \<forall>x \<in> set ps. x \<noteq> [] \<and> length x \<le> 256"
  defines "r \<equiv> os_ioctl os (device w) sg_request (bytes_of (entry_cdb t) 0 16)
      (write_buffer t start (payloads ds) e (tbuffer (default_target w))) (sense_buffer (default_target w))"
  assumes sense: "unat (reply_sb_len_wr r) \<le> 32" and nil: "contents (response_buffer (connection w)) = []"
  shows "\<exists>w'. receive_rounds os w (concat pss) = Inr (True, w') \<and> operating w' \<and> device w' = reply_device r
    \<and> contents (response_buffer (connection w')) = status_answer (iscsi_pdu_initiator_task_tag (mem_of (last ds)) 0)
        (stat_sn (connection w)) (expected_cmd_sn (connection w)) r
    \<and> view w' = (view_after r (view w))\<lparr>view_sn := stat_sn (connection w) + 1\<rparr>"
proof -
  obtain fs g where fg: "ds = fs @ [g]" using ds(2) by (cases ds rule: rev_cases) auto
  obtain qss qs where q: "pss = qss @ [qs]" "map concat qss = fs" "concat qs = g"
    using ps(1) unfolding fg by (cases pss rule: rev_cases) auto
  have f: "data_outs tag start fs" "data_out tag (start + length (payloads fs)) g"
    using ds(1) by (simp_all add: fg data_outs_append)
  have g: "start + length (payloads fs) + length (payload g) = e" "payload g \<noteq> []"
    using n(1) f(2) by (simp_all add: fg data_out_def)
  then have "0 < length (payload g)" unfolding length_greater_0_conv by blast
  then have lt: "start + length (payloads fs) < e" using g(1) by linarith
  obtain w1 where w1: "receive_rounds os w (concat qss) = Inr (True, w1)" "collected w start (payloads fs) w1"
    using data_out_rounds [OF w f(1) lt n(2) tag [unfolded t_def] e [unfolded t_def] q(2), of os] ps(2) q(1) by auto
  let ?t = "transfer_entry (default_session w1)"
  have t: "entry_transfer_tag ?t = tag" "sint (total_length ?t) = int e" "entry_cdb ?t = entry_cdb t"
    "entry_data ?t = blit (entry_data t) start (\<lambda>i. payloads fs ! i) (length (payloads fs))"
    "operating w1" "contents (response_buffer (connection w1)) = []"
    using w1(2) tag e nil by (simp_all add: collected_def t_def)
  have buf: "blit (tbuffer (default_target w)) 0
      (blit (entry_data ?t) (start + length (payloads fs)) (\<lambda>i. payload g ! i) (length (payload g))) e
      = write_buffer t start (payloads ds) e (tbuffer (default_target w))"
    using w1(2) unfolding t(4) blit_nth_append by (simp add: write_buffer_def fg collected_def)
  have d: "device w1 = device w" "default_target w1 = default_target w" "stat_sn (connection w1) = stat_sn (connection w)"
    "expected_cmd_sn (connection w1) = expected_cmd_sn (connection w)" "view w1 = view w"
    using w1(2) by (simp_all add: collected_def)
  have pq: "\<forall>x \<in> set qs. x \<noteq> [] \<and> length x \<le> 256" using ps(2) q(1) by simp
  obtain w2 where "receive_rounds os w1 qs = Inr (True, w2)" "operating w2" "device w2 = reply_device r"
    "contents (response_buffer (connection w2)) = status_answer (iscsi_pdu_initiator_task_tag (mem_of g) 0)
        (stat_sn (connection w)) (expected_cmd_sn (connection w)) r"
    "view w2 = (view_after r (view w))\<lparr>view_sn := stat_sn (connection w) + 1\<rparr>"
    using data_out_last_round [OF t(5) f(2) g(1) n(2) t(1) tag(2) t(2) q(3) pq, of os, unfolded d buf t(3), folded r_def]
      sense t(6) by blast
  then show ?thesis using w1(1) by (intro exI [of _ w2]) (simp add: q(1) receive_rounds_append fg)
qed


lemma status_answer_frame:
  assumes "unat (reply_sb_len_wr r) \<le> 32"
  shows "frame (status_answer itt sn ec r)"
proof -
  have "sint (2 + ucast (reply_sb_len_wr r) :: cint) = int (2 + unat (reply_sb_len_wr r))"
    using assms uint_byte_bound [of "reply_sb_len_wr r"] by (subst sint_plus) simp_all
  then show ?thesis
    using assms frame_response [of _ "replicate 12 0" "2 + ucast (reply_sb_len_wr r)"
        "[byte_at (ucast (reply_sb_len_wr r)) 8, byte_at (ucast (reply_sb_len_wr r)) 0]
          @ bytes_of (reply_sense r) 0 (unat (reply_sb_len_wr r))"]
    by (simp add: status_answer_def)
qed

text \<open>Pieces of several PDUs, and the bytes they make.\<close>

lemma concat_pieces: "concat (concat pss) = concat (map concat pss)"
  by (induction pss) simp_all

lemma write_exchange:
  fixes os :: "'d os" and p :: "'d process" and f :: "byte list" and ds :: "byte list list"
  defines "w \<equiv> proc_world p"
  defines "tag \<equiv> session_transfer_tag (default_session w) + 1" and "start \<equiv> dsl (mem_of f) 0"
    and "c \<equiv> iscsi_connection_advance_expected_cmd_sn (connection w)"
  assumes p: "quiet p" "to_receive p = f @ concat ds @ rest"
    and ps: "concat ps = f" "\<forall>x \<in> set ps. x \<noteq> [] \<and> length x \<le> 256"
    and pss: "map concat pss = ds" "\<forall>ps \<in> set pss. \<forall>x \<in> set ps. x \<noteq> [] \<and> length x \<le> 256"
    and f: "request_frame SCSI_CMD f" "write_plan (mem_of f) (conn_parameter (connection w)) e mx k"
    and tag: "tag \<noteq> DEFAULT_TARGET_TRANSFER_TAG" and ds: "data_outs tag start ds" "ds \<noteq> []"
    and n: "start + length (payloads ds) = e" "e \<le> 4194304"
  defines "buf \<equiv> write_buffer (transfer_entry (default_session w)) start (payloads ds) e (tbuffer (default_target w))"
  defines "r \<equiv> device_reply os w f buf"
  assumes sense: "unat (reply_sb_len_wr r) \<le> 32" and net: "takes_all send"
  shows "\<exists>q q'. exchange os send p ps (messages r2t_message c
        (requested (iscsi_pdu_initiator_task_tag (mem_of f) 0) tag mx e start k)) q \<and> device (proc_world q) = device w
    \<and> exchange os send q (concat pss) [status_answer (iscsi_pdu_initiator_task_tag (mem_of (last ds)) 0)
        (stat_sn (connection w) + word_of_nat k) (expected_cmd_sn c) r] q'
    \<and> quiet q' \<and> to_receive q' = rest \<and> device (proc_world q') = reply_device r
    \<and> view (proc_world q') = (view_after r (view_command (view w)))\<lparr>view_sn := stat_sn (connection w) + word_of_nat k + 1\<rparr>"
proof -
  let ?rs = "requested (iscsi_pdu_initiator_task_tag (mem_of f) 0) tag mx e start k"
  let ?t = "transfer_entry (default_session w)" and ?ms = "messages r2t_message c ?rs"
  have w: "operating w" "contents (response_buffer (connection w)) = []" using p(1) by (simp_all add: listening_def w_def)
  obtain w1 where w1: "receive_rounds os w ps = Inr (True, w1)" "operating w1" "device w1 = device w"
    "default_target w1 = default_target w" "transfer_entry (default_session w1) = write_entry f e tag ?t"
    "contents (response_buffer (connection w1)) = concat ?ms"
    "stat_sn (connection w1) = stat_sn (connection w) + word_of_nat k" "expected_cmd_sn (connection w1) = expected_cmd_sn c"
    "view w1 = (view_command (view w))\<lparr>view_sn := stat_sn (connection w) + word_of_nat k\<rparr>"
    using write_command_round [OF w(1) f ps w(2), of os] by (auto simp: tag_def c_def start_def)
  have fr: "\<forall>m \<in> set ?ms. frame m" by (rule r2t.messages_framed) simp
  have rcv: "to_receive p = concat ps @ (concat ds @ rest)" using p(2) ps(1) by simp
  from exchange_frames [OF p(1) rcv ps(2) w1(1) [unfolded w_def] w1(2,6) fr net] obtain b where
    b: "exchange os send p ps ?ms (p\<lparr>proc_world := emptied w1 b, to_receive := concat ds @ rest, sent := sent p @ concat ?ms\<rparr>)"
    "quiet (p\<lparr>proc_world := emptied w1 b, to_receive := concat ds @ rest, sent := sent p @ concat ?ms\<rparr>)" by blast
  let ?q = "p\<lparr>proc_world := emptied w1 b, to_receive := concat ds @ rest, sent := sent p @ concat ?ms\<rparr>"
  let ?w = "emptied w1 b"
  let ?a = "status_answer (iscsi_pdu_initiator_task_tag (mem_of (last ds)) 0) (stat_sn (connection w) + word_of_nat k) (expected_cmd_sn c) r"
  have wq: "operating ?w" "contents (response_buffer (connection ?w)) = []" using b(2) by (simp_all add: listening_def)
  have t: "entry_transfer_tag (transfer_entry (default_session ?w)) = tag"
    "sint (total_length (transfer_entry (default_session ?w))) = int e"
    "bytes_of (entry_cdb (transfer_entry (default_session ?w))) 0 16 = bytes_of (mem_of f) 32 16"
    using w1(5) n(2) by (simp_all add: write_entry_def sint_of_nat bytes_of_map)
  have buf: "write_buffer (transfer_entry (default_session ?w)) start (payloads ds) e (tbuffer (default_target ?w)) = buf"
    by (simp add: w1 buf_def write_buffer_def write_entry_def)
  have r: "os_ioctl os (device ?w) sg_request (bytes_of (entry_cdb (transfer_entry (default_session ?w))) 0 16)
      (write_buffer (transfer_entry (default_session ?w)) start (payloads ds) e (tbuffer (default_target ?w)))
      (sense_buffer (default_target ?w)) = r"
    unfolding buf t(3) by (simp add: r_def device_reply_def w1)
  obtain w2 where w2: "receive_rounds os ?w (concat pss) = Inr (True, w2)" "operating w2" "device w2 = reply_device r"
    "contents (response_buffer (connection w2)) = concat [?a]"
    "view w2 = (view_after r (view ?w))\<lparr>view_sn := stat_sn (connection ?w) + 1\<rparr>"
    using data_out_series [OF wq(1) ds n t(1) tag t(2) pss, of os, unfolded r] sense wq(2) w1(7,8) by auto
  have "frame ?a" by (rule status_answer_frame [OF sense])
  then have fa: "\<forall>m \<in> set [?a]. frame m" by simp
  have rcv2: "to_receive ?q = concat (concat pss) @ rest" using pss(1) by (simp add: concat_pieces)
  have pp: "\<forall>x \<in> set (concat pss). x \<noteq> [] \<and> length x \<le> 256" using pss(2) by auto
  have rq: "receive_rounds os (proc_world ?q) (concat pss) = Inr (True, w2)" using w2(1) by simp
  from exchange_frames [OF b(2) rcv2 pp rq w2(2,4) fa net] obtain b' where
    b': "exchange os send ?q (concat pss) [?a] (?q\<lparr>proc_world := emptied w2 b', to_receive := rest, sent := sent ?q @ concat [?a]\<rparr>)"
    "quiet (?q\<lparr>proc_world := emptied w2 b', to_receive := rest, sent := sent ?q @ concat [?a]\<rparr>)" by blast
  show ?thesis
  proof (intro exI conjI)
    show "exchange os send p ps ?ms ?q" by (rule b(1))
    show "exchange os send ?q (concat pss) [?a] (?q\<lparr>proc_world := emptied w2 b', to_receive := rest, sent := sent ?q @ concat [?a]\<rparr>)"
      by (rule b'(1))
    show "view (proc_world (?q\<lparr>proc_world := emptied w2 b', to_receive := rest, sent := sent ?q @ concat [?a]\<rparr>))
        = (view_after r (view_command (view w)))\<lparr>view_sn := stat_sn (connection w) + word_of_nat k + 1\<rparr>"
      using w2(5) w1(7,9) by (simp add: view_after_def)
  qed (use b'(2) w1(3) w2(3) in simp_all)
qed

end
