(* ===== verification/Iscsi_Discovery.thy ===== *)
theory Iscsi_Discovery
  imports Iscsi_Exchange
begin

text \<open>
  Discovery sessions from the socket to the socket: the login whose text names the session type
  \<open>Discovery\<close>, the text request that asks for the targets, which a normal session answers in the same
  way, and the refusal of SCSI commands.
\<close>

section \<open>Looking SendTargets up\<close>

lemma text_lookup:
  assumes "list_all plain_pair kvs" "at (iscsi_pdu_data c) 0 (pairs_text kvs)"
    "dsl (request_of c) 0 = length (pairs_text kvs)"
  obtains r where "iscsi_parameter_get (iscsi_pdu_data c) (iscsi_pdu_data_segment_length (request_of c) 0)
      (lit (cstr ''SendTargets'')) = Inr r" "r = None \<longleftrightarrow> find_pair kvs (cstr ''SendTargets'') = None"
proof -
  have k: "str_at (lit (cstr ''SendTargets'')) (cstr ''SendTargets'')" by (rule str_at_lit) (simp add: cstr_def)
  show ?thesis
    using get_loop_pairs [OF k assms(2,1), of KEY] assms(3) that
    by (cases "find_pair kvs (cstr ''SendTargets'')") (auto simp: iscsi_parameter_get_def sint_dsl)
qed

lemma send_targets_answer:
  assumes "list_all plain_pair kvs" "at (iscsi_pdu_data c) 0 (pairs_text kvs)"
    and "dsl (request_of c) 0 = length (pairs_text kvs)"
    and h: "iscsi_pdu_text_continue (request_of c) 0 = 0" and r: "room (response_buffer c) 104"
    and s: "is_discovery s \<noteq> 0"
  shows "if find_pair kvs (cstr ''SendTargets'') = None then iscsi_request_text_process s c = Inr (0, c)
    else \<exists>b. iscsi_request_text_process s c = Inr (104, c\<lparr>response_buffer := b\<rparr>) \<and> buffer_ok b
      \<and> contents b = contents (response_buffer c) @ text_message (request_of c)
      \<and> (frame (text_message (request_of c)) \<or> request_of c 4 \<noteq> 0)"
proof -
  obtain p where p: "iscsi_parameter_get (iscsi_pdu_data c) (iscsi_pdu_data_segment_length (request_of c) 0)
      (lit (cstr ''SendTargets'')) = Inr p" "p = None \<longleftrightarrow> find_pair kvs (cstr ''SendTargets'') = None"
    using text_lookup [OF assms(1-3)] by blast
  show ?thesis
  proof (cases p)
    case None
    then show ?thesis using p h s by (simp add: iscsi_request_text_process_def Let_def)
  next
    case (Some i)
    then show ?thesis using text_sends [OF r h, of i s] p text_message_frame [of "request_of c"] by auto
  qed
qed

section \<open>A text request from the socket to the socket\<close>

definition text_request :: "byte list \<Rightarrow> (byte list \<times> byte list) list \<Rightarrow> bool" where
  "text_request f kvs \<longleftrightarrow> request_frame TEXT f \<and> list_all plain_pair kvs \<and> payload f = pairs_text kvs
     \<and> iscsi_pdu_text_continue (mem_of f) 0 = 0"

lemma text_request_arrived:
  assumes w: "awaiting d w" and f: "text_request f kvs"
  defines "c \<equiv> connection (arrived TEXT w f)"
  shows "at (iscsi_pdu_data c) 0 (pairs_text kvs)" "dsl (request_of c) 0 = length (pairs_text kvs)"
    "iscsi_pdu_text_continue (request_of c) 0 = 0" "text_message (request_of c) = text_message (mem_of f)"
    "request_of c 4 = 0"
proof -
  have r: "request_frame TEXT f" using f by (simp add: text_request_def)
  have "request_of c i = mem_of f i" if "i < 48" for i unfolding c_def using arrived_fields(1) [OF w r that] .
  note head = this
  have l: "dsl (mem_of f) 0 = length (pairs_text kvs)"
    using f length_payload [of f] by (simp add: text_request_def)
  then have len: "48 + length (pairs_text kvs) \<le> length f"
    using plen_bounds(2) [of "mem_of f" 0] r by (simp add: request_frame_def frame_def)
  show "dsl (request_of c) 0 = length (pairs_text kvs)" using fields_cong(11) [OF head] l by simp
  have "request_of c (48 + i) = pairs_text kvs ! i" if "i < length (pairs_text kvs)" for i
  proof -
    have "payload f ! i = pairs_text kvs ! i" using f by (simp add: text_request_def)
    then have "mem_of f (48 + i) = pairs_text kvs ! i" using that l by (simp add: payload_def)
    then show ?thesis using that len arrived_request [OF w, of "48 + i" f TEXT] by (simp add: c_def)
  qed
  moreover have "48 + length (pairs_text kvs) \<le> 4194304" using len r by (simp add: request_frame_def)
  ultimately show "at (iscsi_pdu_data c) 0 (pairs_text kvs)" by (simp add: at_def)
  show "iscsi_pdu_text_continue (request_of c) 0 = 0" "request_of c 4 = 0"
    using f head by (simp_all add: text_request_def iscsi_pdu_text_continue_def request_frame_def)
  have "bytes_of (request_of c) 8 40 = bytes_of (mem_of f) 8 40" by (intro bytes_of_cong) (simp add: head)
  then show "text_message (request_of c) = text_message (mem_of f)" by (simp add: text_message_def text_header_def head)
qed

lemma payload_text: "payload (text_message m) = response_text"
  unfolding text_message_def
  by (rule payload_message [where len = 55]) (simp_all add: text_header_def be24_def length_response_text)

text \<open>
  The answer to \<open>SendTargets\<close> is the same in every session; other pairs get no answer in a discovery
  session.
\<close>

lemma targets_exchange:
  fixes os :: "'d os" and p :: "'d process"
  assumes p: "listening d p" "to_receive p = f @ rest" and ps: "concat ps = f" "\<forall>x \<in> set ps. x \<noteq> [] \<and> length x \<le> 256"
    and f: "text_request f kvs" "find_pair kvs (cstr ''SendTargets'') \<noteq> None \<or> d \<noteq> 0" and net: "takes_all send"
  shows "\<exists>q. exchange os send p ps (if find_pair kvs (cstr ''SendTargets'') = None then [] else [text_message (mem_of f)]) q
    \<and> listening d q \<and> to_receive q = rest \<and> device (proc_world q) = device (proc_world p)
    \<and> default_session (proc_world q) = default_session (proc_world p) \<and> view (proc_world q) = view (proc_world p)"
proof -
  let ?w = "proc_world p"
  let ?c = "connection (arrived TEXT ?w f)" and ?s = "default_session ?w"
  have w: "awaiting d ?w" and nil: "contents (response_buffer ?c) = []" using p(1) by (simp_all add: listening_def)
  note t = text_request_arrived [OF w f(1)]
  have r: "request_frame TEXT f" "list_all plain_pair kvs" using f(1) by (simp_all add: text_request_def)
  have room: "room (response_buffer ?c) 104" using listening_room [OF p(1), of 104] by simp
  obtain x where x: "iscsi_parameter_get (iscsi_pdu_data ?c) (iscsi_pdu_data_segment_length (request_of ?c) 0)
      (lit (cstr ''SendTargets'')) = Inr x" "x = None \<longleftrightarrow> find_pair kvs (cstr ''SendTargets'') = None"
    using text_lookup [OF r(2) t(1,2)] by blast
  show ?thesis
  proof (cases x)
    case None
    then have "is_discovery ?s \<noteq> 0" using f(2) x(2) w by (auto simp: awaiting_def)
    then have h: "iscsi_request_text_process ?s ?c = Inr (0, ?c)"
      using None x t(3) by (simp add: iscsi_request_text_process_def Let_def)
    show ?thesis
      using None x(2) nil by (intro inquiry.answer_exchange [OF p(1) TrueI p(2) ps r(1) h _ _ _ net]) (simp_all add: view_def)
  next
    case (Some i)
    obtain b where b: "iscsi_request_text_process ?s ?c = Inr (104, ?c\<lparr>response_buffer := b\<rparr>)"
      "contents b = text_message (mem_of f)"
      using text_sends [OF room t(3) x(1) [unfolded Some], of ?s] t(4) nil by auto
    have "frame (text_message (mem_of f))" using text_message_frame [of "request_of ?c"] t(4,5) by simp
    moreover obtain y where "find_pair kvs (cstr ''SendTargets'') = Some y" using Some x(2) by blast
    ultimately show ?thesis
      using b(2) by (intro inquiry.answer_exchange [OF p(1) TrueI p(2) ps r(1) b(1) _ _ _ net]) (simp_all add: view_def)
  qed
qed

section \<open>Refusals\<close>

text \<open>The requests that a session answers with a reject for a protocol error.\<close>

abbreviation refused :: "'d world \<Rightarrow> byte list" where
  "refused w \<equiv> reject_message (connection w) \<lparr>rej_reason = PROTOCOL_ERROR, rej_data = None, rej_length = 0\<rparr>"

lemma reject_status:
  assumes "iscsi_request_reject c reason None 0 = Inr (v, c')"
  shows "v = 0"
  using assms by (auto simp: iscsi_request_reject_def iscsi_pdu_padded_length_def Let_def split_def)

locale refused_request = connection_handler opc kind "\<lambda>s c. iscsi_request_reject c PROTOCOL_ERROR None 0" for opc kind
begin

lemma refusal_exchange:
  fixes os :: "'a os" and p :: "'a process"
  assumes p: "listening d p" "kind d" "to_receive p = f @ rest"
    and ps: "concat ps = f" "\<forall>x \<in> set ps. x \<noteq> [] \<and> length x \<le> 256"
    and f: "request_frame opc f" and net: "takes_all send"
  shows "\<exists>q. exchange os send p ps [refused (proc_world p)] q \<and> listening d q \<and> to_receive q = rest
    \<and> device (proc_world q) = device (proc_world p) \<and> default_session (proc_world q) = default_session (proc_world p)
    \<and> view (proc_world q) = (view (proc_world p))\<lparr>view_sn := stat_sn (connection (proc_world p)) + 1\<rparr>"
proof -
  let ?a = "arrived opc (proc_world p) f" and ?r = "\<lparr>rej_reason = PROTOCOL_ERROR, rej_data = None, rej_length = 0\<rparr>"
  have nil: "contents (response_buffer (connection (proc_world p))) = []" using p(1) by (simp add: listening_def)
  have g: "reject_good (connection ?a) ?r" by (simp add: reject_good_def)
  have l: "length (reject_message (connection ?a) ?r) = 48" using reject_lengths(5) [OF g refl] by simp
  have m: "reject_message (connection ?a) ?r = refused (proc_world p)" by (simp add: reject_message_def)
  have "room (response_buffer (connection ?a)) (length (reject_message (connection ?a) ?r))"
    using listening_room [OF p(1), of 48] l by simp
  from after_pairD [OF reject.sends [OF g this, unfolded reject_send_def]] nil obtain v b where
    h: "iscsi_request_reject (connection ?a) PROTOCOL_ERROR None 0 = Inr (v, (connection ?a)\<lparr>response_buffer := b,
        stat_sn := stat_sn (connection ?a) + word_of_nat (Suc 0)\<rparr>)" "contents b = refused (proc_world p)" by (auto simp: m)
  have v: "v \<noteq> pdu_status_value SOCKET_TERMINATE" using reject_status [OF h(1)] by simp
  have "frame (refused (proc_world p))" using reject.framed [OF g] unfolding m .
  then show ?thesis
    using h(2) by (intro answer_exchange [OF p ps f h(1) v _ _ net]) (simp_all add: view_def)
qed

end

text \<open>SCSI commands of a discovery session, and a login of a session that is in the full feature phase.\<close>

interpretation barred: refused_request SCSI_CMD "\<lambda>d. d \<noteq> 0"
  by unfold_locales (simp add: carries_cmdSN_def, (rule dispatch(6); assumption), (erule with_connection_steady, erule reject_kept, assumption),
    simp add: carries_cmdSN_def)

interpretation relogin: refused_request LOGIN "\<lambda>_. True"
  by unfold_locales (simp add: carries_cmdSN_def, (rule dispatch(7); assumption), (erule with_connection_steady, erule reject_kept, assumption),
    simp add: carries_cmdSN_def)

section \<open>The login as an exchange\<close>

lemma login_opens:
  fixes os :: "'d os" and p :: "'d process" and kvs :: "(byte list \<times> byte list) list"
  defines "par \<equiv> login_parameter (connection (proc_world p)) kvs"
  assumes p: "fresh (proc_world p)" "receiving p" "transmitting p" "to_receive p = f @ rest"
    and l: "login_request f kvs"
    and ps: "concat ps = f" "\<forall>x \<in> set ps. x \<noteq> [] \<and> length x \<le> 256"
    and k: "opens_session kvs d" and os: "0 \<le> sint (os_open os)" "non_negative par" "takes_all send"
  shows "\<exists>q. exchange os send p ps [login_answer f par] q \<and> listening d q \<and> to_receive q = rest
    \<and> session_transfer_tag (default_session (proc_world q)) = 0 \<and> device (proc_world q) = device (proc_world p)
    \<and> view (proc_world q) = first_view par (proc_world p)"
proof -
  from login_listening [OF p l ps k os [unfolded par_def], folded par_def] obtain w1 w2 where
    w: "receive_rounds os (proc_world p) ps = Inr (True, w1)" "transmit_round send w1 = Inr (True, w2, login_answer f par)"
      "reachable os p (p\<lparr>proc_world := w2, to_receive := rest, sent := sent p @ login_answer f par\<rparr>)"
      "listening d (p\<lparr>proc_world := w2, to_receive := rest, sent := sent p @ login_answer f par\<rparr>)"
      "session_transfer_tag (default_session w2) = 0" "device w2 = device (proc_world p)"
      "view w2 = first_view par (proc_world p)" by blast
  then show ?thesis
    using p(4) ps(1)
    by (intro exI [of _ "p\<lparr>proc_world := w2, to_receive := rest, sent := sent p @ login_answer f par\<rparr>"]) (simp add: exchange_def ex_bool_eq)
qed

end
