(* ===== verification/Iscsi_Service.thy ===== *)
theory Iscsi_Service
  imports Iscsi_Write Iscsi_Discovery
begin

text \<open>
  The session as a service: what the initiator may rely on without a word of the buffers, the threads
  or the transfer entry of the program. The state of the service is a \<open>session_view\<close>; a request is one
  of six kinds; each gives a dialogue, PDUs and the frames that answer them, and the next state. When
  every PDU is cut on its own and the threads take turns, the process goes through that dialogue
  (\<open>service_refined\<close>).
\<close>

section \<open>The frames as functions of the numbers they carry\<close>

fun series :: "(cint \<Rightarrow> 'a \<Rightarrow> byte list) \<Rightarrow> cint \<Rightarrow> 'a list \<Rightarrow> byte list list" where
  "series fr sn [] = []"
| "series fr sn (a # as) = fr sn a # series fr (sn + 1) as"

lemma length_series [simp]: "length (series fr sn as) = length as"
  by (induction "as" arbitrary: sn) simp_all

lemma messages_series:
  assumes "\<And>c a. expected_cmd_sn c = ec \<Longrightarrow> msg c a = fr (stat_sn c) a" "expected_cmd_sn c = ec"
  shows "messages msg c as = series fr (stat_sn c) as"
  using assms(2) by (induction "as" arbitrary: c) (simp_all add: assms(1))

definition data_in_frame :: "cint \<Rightarrow> cint \<Rightarrow> data_in \<Rightarrow> byte list" where
  "data_in_frame ec sn d =
     response_bhs [0x25, if di_offset d + di_length d = di_expected d then 0x81 else 0x01, 0, 0]
       (di_length d) (di_task_tag d) 0xFFFFFFFF sn ec (be32 (di_number d) @ be32 (di_offset d) @ be32 0)
     @ di_bytes d @ pad_zeros (48 + di_size d)"

definition r2t_frame :: "cint \<Rightarrow> cint \<Rightarrow> r2t \<Rightarrow> byte list" where
  "r2t_frame ec sn r = response_bhs [0x31, 0x80, 0, 0] 0 (r2t_task_tag r) (r2t_transfer_tag r) sn ec
     (be32 (r2t_number r) @ be32 (r2t_offset r) @ be32 (r2t_desired r))"

definition refusal :: "cint \<Rightarrow> cint \<Rightarrow> byte list" where
  "refusal ec sn = response_bhs [0x3F, 0x80, 4, 0] 0 0xFFFFFFFF 0 sn ec (replicate 12 0)"

lemma data_in_series:
  "expected_cmd_sn c = ec \<Longrightarrow> messages data_in_message c ds = series (data_in_frame ec) (stat_sn c) ds"
  by (rule messages_series) (simp_all add: data_in_message_def data_in_frame_def)

lemma r2t_frames:
  "expected_cmd_sn c = ec \<Longrightarrow> messages r2t_message c rs = series (r2t_frame ec) (stat_sn c) rs"
  by (rule messages_series) (simp_all add: r2t_message_def r2t_frame_def)

lemma refused_frame: "refused w = refusal (expected_cmd_sn (connection w)) (stat_sn (connection w))"
  by (simp add: reject_message_def refusal_def rej_bytes_def pad_zeros_def padn_def)

section \<open>The service\<close>

text \<open>
  A ping, a logout, the question for the targets, a read, a write without immediate data with its
  Data-Outs, and a second login.
\<close>

datatype request = Ping "byte list" | Goodbye "byte list" | Inquiry "byte list" "(byte list \<times> byte list) list"
  | Fetch "byte list" | Save "byte list" "byte list list" | Relogin "byte list"

text \<open>One call of the device, and the segment length that was negotiated.\<close>

definition call :: "'d os \<Rightarrow> 'd session_view \<Rightarrow> byte list \<Rightarrow> mem \<Rightarrow> 'd sg_reply" where
  "call os v f buf = os_ioctl os (view_disk v) sg_request (bytes_of (mem_of f) 32 16) buf (view_sense v)"

definition segment :: "'d session_view \<Rightarrow> nat" where
  "segment v = nat (sint (max_receive_data_segment_length (view_limits v)))"

definition fetched :: "byte list \<Rightarrow> 'd sg_reply \<Rightarrow> cint" where
  "fetched f r = c_min (iscsi_request_cmd_exp_data_transfer (mem_of f) 0) (4194304 - reply_resid r)"

definition fetch_reply :: "'d os \<Rightarrow> 'd session_view \<Rightarrow> byte list \<Rightarrow> 'd sg_reply" where
  "fetch_reply os v f = call os v f (view_data v)"

definition fetch_data :: "'d os \<Rightarrow> 'd session_view \<Rightarrow> byte list \<Rightarrow> data_in list" where
  "fetch_data os v f = (let r = fetch_reply os v f in
     chunks (iscsi_pdu_initiator_task_tag (mem_of f) 0) (nat (sint (fetched f r))) (segment v)
       \<lparr>blk = reply_buffer r, bsz = 4194304, pos = 0\<rparr>)"

definition save_reply :: "'d os \<Rightarrow> 'd session_view \<Rightarrow> byte list \<Rightarrow> byte list list \<Rightarrow> 'd sg_reply" where
  "save_reply os v f ds = call os v f (blit (view_data v) 0 (\<lambda>i. payloads ds ! i) (length (payloads ds)))"

definition save_rounds :: "'d session_view \<Rightarrow> nat \<Rightarrow> nat" where
  "save_rounds v e = min (nat (sint (max_outstanding_r2t (view_limits v)))) ((e + segment v - 1) div segment v)"

definition save_r2ts :: "'d session_view \<Rightarrow> byte list \<Rightarrow> nat \<Rightarrow> r2t list" where
  "save_r2ts v f e = requested (iscsi_pdu_initiator_task_tag (mem_of f) 0) (view_tag v + 1) (segment v) e 0 (save_rounds v e)"

text \<open>The requests that the service takes in a state.\<close>

fun admissible :: "'d os \<Rightarrow> 'd session_view \<Rightarrow> request \<Rightarrow> bool" where
  "admissible os v (Ping f) \<longleftrightarrow> request_frame NOP_OUT f \<and> 4 dvd length (payload f)
     \<and> int (length (payload f)) \<le> sint (max_receive_data_segment_length (view_limits v))"
| "admissible os v (Goodbye f) \<longleftrightarrow> request_frame LOGOUT f"
| "admissible os v (Inquiry f kvs) \<longleftrightarrow> text_request f kvs \<and> find_pair kvs (cstr ''SendTargets'') \<noteq> None"
| "admissible os v (Fetch f) \<longleftrightarrow> request_frame SCSI_CMD f \<and> iscsi_request_cmd_write (mem_of f) 0 = 0
     \<and> iscsi_request_cmd_read (mem_of f) 0 \<noteq> 0 \<and> 0 \<le> sint (fetched f (fetch_reply os v f)) \<and> 0 < segment v
     \<and> nat (sint (fetched f (fetch_reply os v f))) + 52 * chunk_count (nat (sint (fetched f (fetch_reply os v f)))) (segment v)
       \<le> 4194304"
| "admissible os v (Save f ds) \<longleftrightarrow> request_frame SCSI_CMD f \<and> iscsi_request_cmd_write (mem_of f) 0 \<noteq> 0
     \<and> dsl (mem_of f) 0 = 0 \<and> iscsi_request_cmd_exp_data_transfer (mem_of f) 0 = word_of_nat (length (payloads ds))
     \<and> 0 < segment v \<and> initial_r2t (view_limits v) \<noteq> 0 \<and> 0 \<le> sint (max_outstanding_r2t (view_limits v))
     \<and> ds \<noteq> [] \<and> data_outs (view_tag v + 1) 0 ds \<and> view_tag v + 1 \<noteq> DEFAULT_TARGET_TRANSFER_TAG
     \<and> length (payloads ds) \<le> 4194304 \<and> unat (reply_sb_len_wr (save_reply os v f ds)) \<le> 32"
| "admissible os v (Relogin f) \<longleftrightarrow> request_frame LOGIN f"

text \<open>What is said: PDUs of the initiator, and the frames that answer them.\<close>

type_synonym dialogue = "(byte list list \<times> byte list list) list"

fun talk :: "'d os \<Rightarrow> 'd session_view \<Rightarrow> request \<Rightarrow> dialogue" where
  "talk os v (Ping f) = [([f], [echo f (view_sn v) (view_exp v)])]"
| "talk os v (Goodbye f) = [([f], [farewell (view_sn v) (view_exp v)])]"
| "talk os v (Inquiry f kvs) = [([f], [text_message (mem_of f)])]"
| "talk os v (Fetch f) = [([f], series (data_in_frame (view_exp v + 1)) (view_sn v) (fetch_data os v f))]"
| "talk os v (Save f ds) = (let e = length (payloads ds) in
     [([f], series (r2t_frame (view_exp v + 1)) (view_sn v) (save_r2ts v f e)),
      (ds, [status_answer (iscsi_pdu_initiator_task_tag (mem_of (last ds)) 0)
              (view_sn v + word_of_nat (save_rounds v e)) (view_exp v + 1) (save_reply os v f ds)])])"
| "talk os v (Relogin f) = [([f], [refusal (view_exp v) (view_sn v)])]"

text \<open>The next state: StatSN counts the answers; reads and writes count a command and call the device once.\<close>

fun upshot :: "'d os \<Rightarrow> 'd session_view \<Rightarrow> request \<Rightarrow> 'd session_view" where
  "upshot os v (Ping f) = v\<lparr>view_sn := view_sn v + 1\<rparr>"
| "upshot os v (Goodbye f) = v\<lparr>view_sn := view_sn v + 1\<rparr>"
| "upshot os v (Inquiry f kvs) = v"
| "upshot os v (Fetch f) = (view_after (fetch_reply os v f) (view_command v))\<lparr>
     view_sn := view_sn v + word_of_nat (length (fetch_data os v f))\<rparr>"
| "upshot os v (Save f ds) = (view_after (save_reply os v f ds) (view_command v))\<lparr>
     view_sn := view_sn v + word_of_nat (save_rounds v (length (payloads ds))) + 1\<rparr>"
| "upshot os v (Relogin f) = v\<lparr>view_sn := view_sn v + 1\<rparr>"

fun all_admissible :: "'d os \<Rightarrow> 'd session_view \<Rightarrow> request list \<Rightarrow> bool" where
  "all_admissible os v [] \<longleftrightarrow> True"
| "all_admissible os v (r # rs) \<longleftrightarrow> admissible os v r \<and> all_admissible os (upshot os v r) rs"

fun service :: "'d os \<Rightarrow> 'd session_view \<Rightarrow> request list \<Rightarrow> dialogue \<times> 'd session_view" where
  "service os v [] = ([], v)"
| "service os v (r # rs) = (let (d, v') = service os (upshot os v r) rs in (talk os v r @ d, v'))"

section \<open>Exchanges in a row\<close>

text \<open>The process goes through exchanges, each given by its pieces and its frames.\<close>

fun exchanges :: "'d os \<Rightarrow> (byte list \<Rightarrow> cint) \<Rightarrow> 'd process \<Rightarrow> dialogue \<Rightarrow> 'd process \<Rightarrow> bool" where
  "exchanges os send p [] q \<longleftrightarrow> q = p"
| "exchanges os send p (x # xs) q \<longleftrightarrow> (\<exists>p'. exchange os send p (fst x) (snd x) p' \<and> exchanges os send p' xs q)"

lemma exchanges_append:
  "exchanges os send p xs q \<Longrightarrow> exchanges os send q ys q' \<Longrightarrow> exchanges os send p (xs @ ys) q'"
  by (induction xs arbitrary: p) auto

lemma exchangesD:
  assumes "exchanges os send p xs q"
  shows "reachable os p q" "sent q = sent p @ concat (concat (map snd xs))"
    "to_receive p = concat (concat (map fst xs)) @ to_receive q"
  using assms
proof (induction xs arbitrary: p)
  case (Cons x xs)
  {
    case 1
    then show ?case using Cons exchangeD(1) reachable_trans by (metis exchanges.simps(2))
  next
    case 2
    then obtain p' where "exchange os send p (fst x) (snd x) p'" "exchanges os send p' xs q" by auto
    then show ?case using Cons.IH(2) exchangeD(2) by fastforce
  next
    case 3
    then obtain p' where "exchange os send p (fst x) (snd x) p'" "exchanges os send p' xs q" by auto
    then show ?case using Cons.IH(3) exchangeD(3) by fastforce
  }
qed (simp_all add: reachable_start)

text \<open>The pieces \<open>pss\<close> of the PDUs of a dialogue, each PDU cut on its own.\<close>

definition pieces_of :: "dialogue \<Rightarrow> byte list list list list \<Rightarrow> bool" where
  "pieces_of d pss \<longleftrightarrow> map (map concat) pss = map fst d
     \<and> (\<forall>x \<in> set (concat (concat pss)). x \<noteq> [] \<and> length x \<le> 256)"

definition in_pieces :: "dialogue \<Rightarrow> byte list list list list \<Rightarrow> dialogue" where
  "in_pieces d pss = zip (map concat pss) (map snd d)"

lemma in_pieces_frames: "pieces_of d pss \<Longrightarrow> map snd (in_pieces d pss) = map snd d"
  unfolding pieces_of_def in_pieces_def by (metis length_map map_snd_zip)

text \<open>PDUs that come in one piece each.\<close>

definition whole :: "dialogue \<Rightarrow> byte list list list list" where
  "whole d = map (map (\<lambda>f. [f]) \<circ> fst) d"

lemma pieces_whole:
  assumes "\<forall>f \<in> set (concat (map fst d)). f \<noteq> [] \<and> length f \<le> 256"
  shows "pieces_of d (whole d)"
proof -
  have "map (map concat) (whole d) = map fst d" by (simp add: whole_def o_def)
  moreover have "concat (concat (whole d)) = concat (map fst d)" by (induction d) (simp_all add: whole_def concat_map_singleton)
  ultimately show ?thesis using assms by (simp add: pieces_of_def)
qed

lemma pieces_of_append:
  assumes "pieces_of (d @ d') pss"
  obtains ps qs where "pss = ps @ qs" "pieces_of d ps" "pieces_of d' qs"
    "in_pieces (d @ d') pss = in_pieces d ps @ in_pieces d' qs"
proof -
  obtain ps qs where s: "pss = ps @ qs" "map (map concat) ps = map fst d" "map (map concat) qs = map fst d'"
    using assms by (auto simp: pieces_of_def map_eq_append_conv)
  have "length ps = length d" using s(2) by (metis length_map)
  then have "in_pieces (d @ d') pss = in_pieces d ps @ in_pieces d' qs" by (simp add: s(1) in_pieces_def)
  moreover have "pieces_of d ps" "pieces_of d' qs" using s assms by (auto simp: pieces_of_def)
  ultimately show ?thesis using that [OF s(1)] by blast
qed

lemma pieces_of_single:
  assumes "pieces_of [([f], a)] pss"
  obtains ps where "pss = [[ps]]" "concat ps = f" "\<forall>x \<in> set ps. x \<noteq> [] \<and> length x \<le> 256"
  using assms by (auto simp: pieces_of_def)

section \<open>The process gives the service\<close>

text \<open>
  The process is at \<open>q\<close>, quiet again, has gone through the dialogue \<open>d\<close> in the pieces \<open>pss\<close>, and shows
  the view \<open>v\<close>.
\<close>

definition conducted :: "'d os \<Rightarrow> (byte list \<Rightarrow> cint) \<Rightarrow> 'd process \<Rightarrow> dialogue \<Rightarrow> byte list list list list \<Rightarrow> byte list
    \<Rightarrow> 'd session_view \<Rightarrow> 'd process \<Rightarrow> bool" where
  "conducted os send p d pss rest v q \<longleftrightarrow> exchanges os send p (in_pieces d pss) q \<and> quiet q
     \<and> to_receive q = rest \<and> view (proc_world q) = v"

lemma conducted_single:
  "conducted os send p [([f], a)] [[ps]] rest v q
   \<longleftrightarrow> exchange os send p ps a q \<and> quiet q \<and> to_receive q = rest \<and> view (proc_world q) = v"
  by (auto simp: conducted_def in_pieces_def)

lemma conducted_append:
  assumes "conducted os send p d ps r v q" "conducted os send q d' qs rest v' q'"
    and "in_pieces (d @ d') pss = in_pieces d ps @ in_pieces d' qs"
  shows "conducted os send p (d @ d') pss rest v' q'"
  using assms exchanges_append by (auto simp: conducted_def)

text \<open>The calls of the device are those of the process.\<close>

lemma call_view: "device_reply os w f buf = call os (view w) f buf"
  by (simp add: device_reply_def call_def)

lemma segment_view:
  "nat (sint (max_receive_data_segment_length (conn_parameter (connection w)))) = segment (view w)"
  by (simp add: segment_def)

lemma fetch_served:
  fixes os :: "'d os" and p :: "'d process"
  defines "v \<equiv> view (proc_world p)"
  assumes p: "quiet p" "to_receive p = f @ rest" and a: "admissible os v (Fetch f)" and net: "takes_all send"
    and ps: "concat ps = f" "\<forall>x \<in> set ps. x \<noteq> [] \<and> length x \<le> 256"
  shows "\<exists>q. conducted os send p (talk os v (Fetch f)) [[ps]] rest (upshot os v (Fetch f)) q"
proof -
  let ?w = "proc_world p" and ?r = "fetch_reply os v f"
  let ?e = "nat (sint (fetched f ?r))"
  have r: "device_reply os ?w f (tbuffer (default_target ?w)) = ?r" by (simp add: fetch_reply_def call_view v_def)
  have f: "request_frame SCSI_CMD f" "iscsi_request_cmd_write (mem_of f) 0 = 0" "iscsi_request_cmd_read (mem_of f) 0 \<noteq> 0"
    "0 < segment v" "?e + 52 * chunk_count ?e (segment v) \<le> 4194304"
    using a by simp_all
  have e: "sint (c_min (iscsi_request_cmd_exp_data_transfer (mem_of f) 0) (4194304 - reply_resid ?r)) = int ?e"
    using a by (simp add: fetched_def)
  have c: "expected_cmd_sn (iscsi_connection_advance_expected_cmd_sn (connection ?w)) = view_exp v + 1"
    "stat_sn (iscsi_connection_advance_expected_cmd_sn (connection ?w)) = view_sn v"
    by (simp_all add: iscsi_connection_advance_expected_cmd_sn_def v_def)
  have "\<exists>q. exchange os send p ps (series (data_in_frame (view_exp v + 1)) (view_sn v) (fetch_data os v f)) q
      \<and> quiet q \<and> to_receive q = rest
      \<and> view (proc_world q) = (view_after ?r (view_command v))\<lparr>view_sn := view_sn v + word_of_nat (length (fetch_data os v f))\<rparr>"
    using read_exchange [OF p ps f(1-3) e [folded r] _ _ net] f(4,5)
    unfolding r segment_view v_def [symmetric] data_in_series [OF c(1)] c(2)
    by (auto simp: fetch_data_def Let_def fetched_def v_def)
  then show ?thesis by (simp add: conducted_single)
qed

lemma save_served:
  fixes os :: "'d os" and p :: "'d process"
  defines "v \<equiv> view (proc_world p)"
  assumes p: "quiet p" "to_receive p = f @ concat ds @ rest" and a: "admissible os v (Save f ds)" and net: "takes_all send"
    and pss: "pieces_of (talk os v (Save f ds)) pss"
  shows "\<exists>q. conducted os send p (talk os v (Save f ds)) pss rest (upshot os v (Save f ds)) q"
proof -
  let ?w = "proc_world p" and ?e = "length (payloads ds)" and ?r = "save_reply os v f ds"
  let ?k = "save_rounds v ?e" and ?tag = "session_transfer_tag (default_session (proc_world p)) + 1"
  obtain ps qss where q: "pss = [[ps], qss]" "concat ps = f" "map concat qss = ds" "\<forall>x \<in> set ps. x \<noteq> [] \<and> length x \<le> 256"
    "\<forall>ps \<in> set qss. \<forall>x \<in> set ps. x \<noteq> [] \<and> length x \<le> 256"
    using pss by (auto simp: pieces_of_def Let_def)
  have f: "request_frame SCSI_CMD f" "dsl (mem_of f) 0 = 0" "ds \<noteq> []" "data_outs ?tag 0 ds"
    "?tag \<noteq> DEFAULT_TARGET_TRANSFER_TAG" "?e \<le> 4194304" "unat (reply_sb_len_wr ?r) \<le> 32"
    using a by (simp_all add: v_def)
  have "world_ok ?w" "logged_in ?w" using p(1) by (simp_all add: listening_def awaiting_def)
  then have mx: "segment v \<le> 1048576" "sint (max_receive_data_segment_length (conn_parameter (connection ?w))) = int (segment v)"
    using a by (auto simp: v_def segment_def world_ok_def logged_in_def negotiated_def)
  have pos: "0 < ?e" unfolding length_greater_0_conv using f(3,4) by (cases ds) (auto simp: data_out_def)
  have plan: "write_plan (mem_of f) (conn_parameter (connection ?w)) ?e (segment v) ?k"
    using a f(2,6) pos mx by (simp add: write_plan_def save_rounds_def v_def sint_word_of_nat)
  have buf: "write_buffer (transfer_entry (default_session ?w)) 0 (payloads ds) ?e (tbuffer (default_target ?w))
      = blit (view_data v) 0 (\<lambda>i. payloads ds ! i) ?e"
    unfolding write_buffer_def v_def view_sel by (rule blit_cong) (simp add: blit_def)
  have r: "device_reply os ?w f (write_buffer (transfer_entry (default_session ?w)) 0 (payloads ds) ?e (tbuffer (default_target ?w))) = ?r"
    unfolding buf by (simp add: save_reply_def call_view v_def)
  have c: "expected_cmd_sn (iscsi_connection_advance_expected_cmd_sn (connection ?w)) = view_exp v + 1"
    "stat_sn (iscsi_connection_advance_expected_cmd_sn (connection ?w)) = view_sn v"
    by (simp_all add: iscsi_connection_advance_expected_cmd_sn_def v_def)
  note wr = write_exchange [OF p q(2,4,3,5) f(1) plan f(5), of os send, unfolded f(2) r r2t_frames [OF c(1)] c]
  have "0 + ?e = ?e" by simp
  from wr [OF f(4,3) this f(6,7) net] obtain q q' where
    "exchange os send p ps (series (r2t_frame (view_exp v + 1)) (view_sn v) (save_r2ts v f ?e)) q"
    "exchange os send q (concat qss) [status_answer (iscsi_pdu_initiator_task_tag (mem_of (last ds)) 0)
        (view_sn v + word_of_nat ?k) (view_exp v + 1) ?r] q'"
    "quiet q'" "to_receive q' = rest"
    "view (proc_world q') = (view_after ?r (view_command v))\<lparr>view_sn := view_sn v + word_of_nat ?k + 1\<rparr>"
    by (auto simp: save_r2ts_def v_def)
  then show ?thesis
    by (intro exI [of _ q']) (auto simp: conducted_def in_pieces_def q(1) Let_def)
qed

text \<open>One request of any kind, and a list of them.\<close>

fun pdus :: "request \<Rightarrow> byte list list" where
  "pdus (Ping f) = [f]"
| "pdus (Goodbye f) = [f]"
| "pdus (Inquiry f kvs) = [f]"
| "pdus (Fetch f) = [f]"
| "pdus (Save f ds) = f # ds"
| "pdus (Relogin f) = [f]"

lemma talk_pdus: "concat (map fst (talk os v r)) = pdus r"
  by (cases r) (simp_all add: Let_def)

lemma service_pdus: "concat (map fst (fst (service os v rs))) = concat (map pdus rs)"
  by (induction rs arbitrary: v) (simp_all add: talk_pdus split_def Let_def)

lemma request_served:
  fixes os :: "'d os" and p :: "'d process"
  defines "v \<equiv> view (proc_world p)"
  assumes p: "quiet p" "to_receive p = concat (pdus r) @ rest" and a: "admissible os v r" and net: "takes_all send"
    and pss: "pieces_of (talk os v r) pss"
  shows "\<exists>q. conducted os send p (talk os v r) pss rest (upshot os v r) q"
proof (cases "\<exists>f ds. r = Save f ds")
  case True
  then show ?thesis using save_served [OF p(1) _ _ net] p(2) a pss unfolding v_def by auto
next
  case False
  then obtain f b where f: "talk os v r = [([f], b)]" "pdus r = [f]" by (cases r) auto
  then obtain ps where ps: "pss = [[ps]]" "concat ps = f" "\<forall>x \<in> set ps. x \<noteq> [] \<and> length x \<le> 256"
    using pss pieces_of_single by metis
  have rcv: "to_receive p = f @ rest" using p(2) f(2) by simp
  show ?thesis
  proof (cases r)
    case (Fetch g)
    then show ?thesis using fetch_served [OF p(1) rcv _ net ps(2,3)] a f ps(1) unfolding v_def by simp
  next
    case (Ping g)
    then show ?thesis using ping_exchange [OF p(1) rcv ps(2,3) _ _ _ net, of os] a f ps(1)
      by (auto simp: conducted_single v_def)
  next
    case (Goodbye g)
    then show ?thesis using logout_exchange [OF p(1) rcv ps(2,3) _ net, of os] a f ps(1)
      by (auto simp: conducted_single v_def)
  next
    case (Inquiry g kvs)
    then show ?thesis using targets_exchange [OF p(1) rcv ps(2,3) _ _ net, of kvs os] a f ps(1)
      by (auto simp: conducted_single v_def)
  next
    case (Relogin g)
    then show ?thesis using relogin.refusal_exchange [OF p(1) TrueI rcv ps(2,3) _ net, of os] a f ps(1)
      by (auto simp: conducted_single v_def refused_frame)
  qed (use False in simp)
qed

lemma service_refined:
  assumes "quiet p" "to_receive p = concat (concat (map pdus rs)) @ rest" "all_admissible os (view (proc_world p)) rs"
    and net: "takes_all send" and "pieces_of (fst (service os (view (proc_world p)) rs)) pss"
  shows "\<exists>q. conducted os send p (fst (service os (view (proc_world p)) rs)) pss rest (snd (service os (view (proc_world p)) rs)) q"
  using assms(1-3,5)
proof (induction rs arbitrary: p pss)
  case Nil
  then show ?case by (auto simp: conducted_def in_pieces_def pieces_of_def)
next
  case (Cons r rs)
  let ?v = "view (proc_world p)"
  let ?d = "talk os ?v r" and ?d' = "fst (service os (upshot os ?v r) rs)"
  have d: "fst (service os ?v (r # rs)) = ?d @ ?d'" "snd (service os ?v (r # rs)) = snd (service os (upshot os ?v r) rs)"
    by (simp_all add: split_def Let_def)
  from pieces_of_append [OF Cons.prems(4) [unfolded d(1)]] obtain ps qs where
    c: "pieces_of ?d ps" "pieces_of ?d' qs" "in_pieces (?d @ ?d') pss = in_pieces ?d ps @ in_pieces ?d' qs" by metis
  have "to_receive p = concat (pdus r) @ (concat (concat (map pdus rs)) @ rest)" "admissible os ?v r"
    using Cons.prems(2,3) by simp_all
  from request_served [OF Cons.prems(1) this net c(1)] obtain q where
    q: "conducted os send p ?d ps (concat (concat (map pdus rs)) @ rest) (upshot os ?v r) q" by blast
  then have v: "view (proc_world q) = upshot os ?v r" "quiet q" "to_receive q = concat (concat (map pdus rs)) @ rest"
    by (simp_all add: conducted_def)
  have "all_admissible os (view (proc_world q)) rs" using Cons.prems(3) v(1) by simp
  from Cons.IH [OF v(2,3) this, unfolded v(1), OF c(2)] obtain q' where
    "conducted os send q ?d' qs rest (snd (service os (upshot os ?v r) rs)) q'" by blast
  with conducted_append [OF q _ c(3)] show ?case unfolding d by blast
qed

text \<open>From \<open>fork\<close> on: a login that opens a normal session, and then the service.\<close>

definition login_talk :: "byte list \<Rightarrow> iSCSIConnectionParameter \<Rightarrow> dialogue" where
  "login_talk f par = [([f], [login_answer f par])]"

lemma connection_served:
  fixes os :: "'d os" and p :: "'d process" and kvs :: "(byte list \<times> byte list) list"
  defines "par \<equiv> login_parameter (connection (proc_world p)) kvs"
  defines "v \<equiv> first_view par (proc_world p)"
  assumes p: "fresh (proc_world p)" "receiving p" "transmitting p" "to_receive p = f @ concat (concat (map pdus rs)) @ rest"
    and l: "login_request f kvs" "opens_session kvs 0" and os: "0 \<le> sint (os_open os)" "non_negative par" "takes_all send"
    and rs: "all_admissible os v rs" and pss: "pieces_of (login_talk f par @ fst (service os v rs)) pss"
  shows "\<exists>q. conducted os send p (login_talk f par @ fst (service os v rs)) pss rest (snd (service os v rs)) q"
proof -
  from pieces_of_append [OF pss] obtain ps qs where
    c: "pieces_of (login_talk f par) ps" "pieces_of (fst (service os v rs)) qs"
    "in_pieces (login_talk f par @ fst (service os v rs)) pss = in_pieces (login_talk f par) ps @ in_pieces (fst (service os v rs)) qs"
    by metis
  obtain xs where xs: "ps = [[xs]]" "concat xs = f" "\<forall>x \<in> set xs. x \<noteq> [] \<and> length x \<le> 256"
    using c(1) pieces_of_single unfolding login_talk_def by metis
  obtain q where q: "exchange os send p xs [login_answer f par] q" "quiet q" "to_receive q = concat (concat (map pdus rs)) @ rest"
    "view (proc_world q) = v"
    using login_opens [OF p l(1) xs(2,3) l(2) os [unfolded par_def]] unfolding par_def v_def by blast
  then have d: "conducted os send p (login_talk f par) ps (concat (concat (map pdus rs)) @ rest) v q"
    by (simp add: xs(1) login_talk_def conducted_single)
  from service_refined [OF q(2,3) _ os(3), of os, unfolded q(4), OF rs c(2)] obtain q' where
    "conducted os send q (fst (service os v rs)) qs rest (snd (service os v rs)) q'" by blast
  with conducted_append [OF d _ c(3)] show ?thesis by blast
qed

end
