(* ===== verification/Iscsi_Fairness.thy ===== *)
theory Iscsi_Fairness
  imports Iscsi_Interleaving
begin

text \<open>
  The two threads of a connection in endless runs. A fair run is one in which a thread that can make a
  step again and again makes one again and again, and in which a handler that writes an answer
  finishes it. The lemmas show that from every state the answers can be delivered, and that every
  fair run delivers them, although the transmitter polls for ever and a handler may find no space
  any number of times: only a turn that changes neither the messages nor the place of the
  transmitter leaves the rank as it is.
\<close>

section \<open>What a thread can do\<close>

lemma transmitter_ready:
  assumes l: "line_ok send s gone q" and pc: "transmitter s \<noteq> STOPPED"
    and h: "handler s = WAITING \<or> (\<forall>len. transmitter s \<noteq> LOCKING len \<and> transmitter s \<noteq> FLUSHING len)"
  shows "\<exists>t. transmitter_step send s t"
proof (cases "transmitter s")
  case CHECKING
  then show ?thesis using check [of s send] poll [of s send] by blast
next
  case (LOCKING len)
  then have "buffer_ok (line_buffer s)" using line_free [OF l] h by simp
  then have "iscsi_buffer_acquire_lock (line_buffer s) = Inr ((line_buffer s)\<lparr>block := 0\<rparr>)"
    by (simp add: iscsi_buffer_acquire_lock_def buffer_ok_def)
  from take_lock [OF LOCKING this] show ?thesis by blast
next
  case (FLUSHING len)
  then have ok: "buffer_ok (line_buffer s)" using line_free [OF l] h by simp
  have c: "contents (line_buffer s) = last gone @ concat q" and n: "sint len = int (length (last gone))"
    using l FLUSHING by (simp_all add: line_ok_def)
  have "length (last gone) \<le> fill (line_buffer s)" using c by (metis length_append length_contents le_add1)
  from flush_ok [OF ok n this] obtain b where "iscsi_buffer_flush (line_buffer s) len = Inr b" by blast
  from flush [OF FLUSHING this] show ?thesis by blast
next
  case (SENDING len)
  then show ?thesis using transmit [OF SENDING refl, of send] fail [OF SENDING, of send] by force
qed (use read_length give_back pc in blast)+

lemma lock_ready:
  assumes l: "line_ok send s gone q" and pc: "handler s = WAITING" "\<not> sending (transmitter s)"
    and a: "answers s \<noteq> []" "\<forall>f \<in> set (answers s). length f \<le> 4194304"
  shows "\<exists>b. handler_step s (s\<lparr>line_buffer := b, handler := TESTING\<rparr>)"
proof -
  obtain f fs where f: "answers s = f # fs" using a(1) by (cases "answers s") auto
  have "block (line_buffer s) = 1" using line_free [OF l pc(2,1)] by (simp add: buffer_ok_def)
  then have b: "iscsi_buffer_acquire_lock (line_buffer s) = Inr ((line_buffer s)\<lparr>block := 0\<rparr>)"
    by (simp add: iscsi_buffer_acquire_lock_def)
  have "\<not> sint (word_of_nat (length f) :: cint) > ISCSI_BUFFER_SIZE"
    using a(2) f line_answer [OF l f] by simp
  from lock [OF pc(1) f this b] show ?thesis by blast
qed

lemma testing_ready:
  assumes l: "line_ok send s gone q" and pc: "handler s = TESTING"
  shows "\<exists>t. handler_step s t"
proof -
  obtain f fs where f: "answers s = f # fs" using l pc by (cases "answers s") (auto simp: line_ok_def)
  show ?thesis
  proof (cases "sint (iscsi_buffer_free_space (line_buffer s)) < sint (word_of_nat (length f) :: cint)")
    case True
    from retry [OF pc f True] show ?thesis by blast
  next
    case False
    then have "int (fill (line_buffer s)) + int (length f) \<le> 4194304"
      using line_space [OF l] line_answer [OF l f] by simp
    then have "\<exists>m. c_memset (bdata (line_buffer s)) ISCSI_BUFFER_SIZE (sint (blength (line_buffer s))) 0
        (sint (word_of_nat (length f) :: cint)) = Inr m"
      using line_length [OF l] line_answer [OF l f] by (simp add: c_memset_ok)
    with allocate [OF pc f False] show ?thesis by blast
  qed
qed

text \<open>A handler that writes can finish its answer, whatever the transmitter does.\<close>

lemma writing_finishes:
  assumes l: "line_ok send s gone q" and pc: "handler s = WRITING p"
  obtains t f where "runs send s t" "line_ok send t gone (q @ [f])" "answers s = f # answers t"
    "rank t (q @ [f]) < rank s q" "transmitter t = transmitter s"
proof -
  obtain f fs where a: "answers s = f # fs" using l pc by (cases "answers s") (auto simp: line_ok_def)
  let ?m = "blit (bdata (line_buffer s)) p (\<lambda>i. f ! i) (length f)"
  let ?s = "s\<lparr>line_buffer := (line_buffer s)\<lparr>bdata := ?m\<rparr>\<rparr>"
  let ?t = "s\<lparr>line_buffer := iscsi_buffer_release_lock (line_buffer ?s) (word_of_nat (length f)),
      handler := WAITING, answers := fs\<rparr>"
  have 1: "handler_step s ?s" by (rule put [OF pc]) (simp add: blit_out)
  then have l': "line_ok send ?s gone q" by (intro step_put_ok [OF l pc]) (simp add: blit_out)
  have pc': "handler ?s = WRITING p" "answers ?s = f # fs" using pc a by simp_all
  have m: "bytes_of (bdata (line_buffer ?s)) p (length f) = f"
    by (rule nth_equalityI) (auto simp: blit_at)
  have "handler_step ?s ?t" using commit [of ?s p f fs, OF pc' m] by simp
  with 1 have "runs send s ?t" by (intro rtranclp_trans [OF runs_handles runs_handles])
  moreover have "line_ok send ?t gone (q @ [f])" using step_commit_ok [OF l' pc' m] by simp
  moreover have "rank ?t (q @ [f]) < rank s q" using a pc by (simp add: rank_def)
  ultimately show thesis using that a by simp
qed

text \<open>The transmitter stops only when the network refuses a frame.\<close>

lemma step_not_stopped:
  assumes l: "line_ok send s gone q" and net: "\<forall>f \<in> set q. 0 \<le> sint (send f)"
    and step: "interleaved send s t" and pc: "transmitter s \<noteq> STOPPED"
  shows "transmitter t \<noteq> STOPPED"
  using step
proof cases
  case transmits
  then show ?thesis
  proof cases
    case (fail len)
    obtain f q' where q: "q = f # q'" "sint len = int (length f)"
      using l fail(2) by (auto simp: line_ok_def)
    then have "contents (line_buffer s) = f @ concat q'" using l fail(2) by (simp add: line_ok_def)
    then have "bytes_of (bdata (line_buffer s)) 0 (nat (sint len)) = f" using front_bytes q(2) by simp
    then show ?thesis using fail(3) net q(1) by simp
  qed (use pc in simp_all)
next
  case handles
  then show ?thesis using handler_step_kept [OF l handles] pc by auto
qed

section \<open>Everything can be delivered\<close>

definition accepts :: "(byte list \<Rightarrow> cint) \<Rightarrow> byte list list \<Rightarrow> bool" where
  "accepts send fs \<longleftrightarrow> (\<forall>f \<in> set fs. 0 \<le> sint (send f))"

lemma runs_not_stopped:
  assumes "runs send s t" "line_ok send s gone q" "accepts send (gone @ q @ answers s)" "transmitter s \<noteq> STOPPED"
  shows "transmitter t \<noteq> STOPPED"
  using assms
proof (induction rule: rtranclp_induct)
  case (step t u)
  from runs_channel [OF step.hyps(1) step.prems(1)] obtain g q' where
    t: "line_ok send t g q'" "g @ q' @ answers t = gone @ q @ answers s" by blast
  have "set q' \<subseteq> set (gone @ q @ answers s)" unfolding t(2) [symmetric] by auto
  then have "\<forall>f \<in> set q'. 0 \<le> sint (send f)" using step.prems(2) by (auto simp: accepts_def)
  then show ?case using step_not_stopped [OF t(1) _ step.hyps(2)] step.IH step.prems by blast
qed simp

interpretation answering: step_invariant "interleaved send" "\<lambda>s. set (answers s) \<subseteq> A" for send and A
proof unfold_locales
  fix s t
  assume i: "interleaved send s t" and a: "set (answers s) \<subseteq> A"
  from i show "set (answers t) \<subseteq> A"
  proof cases
    case transmits
    then show ?thesis using a by cases auto
  next
    case handles
    then show ?thesis using a by cases auto
  qed
qed

lemma runs_answers: "runs send s t \<Longrightarrow> set (answers t) \<subseteq> set (answers s)"
  by (erule answering.always) simp


text \<open>As long as anything is to do, the threads can use up rank.\<close>

lemma writes_next:
  assumes l: "line_ok send s gone q" and pc: "handler s = TESTING" "4194304 \<ge> fill (line_buffer s) + length (hd (answers s))"
    and step: "handler_step s t"
  shows "\<exists>q'. kept_line send s gone q t gone q' \<and> rank t q' < rank s q \<and> transmitter t = transmitter s"
  using handler_step_kept [OF l step] pc by auto

lemma goes_on:
  assumes l: "line_ok send s gone q" and pc: "transmitter s \<noteq> STOPPED"
    and fit: "\<forall>f \<in> set (answers s). length f \<le> 4194304"
    and todo: "handler s \<noteq> WAITING \<or> transmitter s \<noteq> CHECKING \<or> q \<noteq> [] \<or> answers s \<noteq> []"
  shows "\<exists>t g q'. runs send s t \<and> line_ok send t g q' \<and> g @ q' @ answers t = gone @ q @ answers s
    \<and> (rank t q' < rank s q \<or> rank t q' = rank s q \<and> handler s = TESTING \<and> handler t = WAITING)"
proof (cases "handler s")
  case (WRITING p)
  from writing_finishes [OF l this] obtain t f where "runs send s t" "line_ok send t gone (q @ [f])"
    "answers s = f # answers t" "rank t (q @ [f]) < rank s q" .
  then show ?thesis by (intro exI [of _ t] exI [of _ gone] exI [of _ "q @ [f]"]) simp
next
  case TESTING
  from testing_ready [OF l this] obtain t where t: "handler_step s t" by blast
  from handler_step_kept [OF l t] TESTING show ?thesis
    using runs_handles [OF t] by (fastforce simp: kept_line_def)
next
  case WAITING
  show ?thesis
  proof (cases "transmitter s = CHECKING \<and> q = []")
    case False
    from transmitter_ready [OF l pc] WAITING obtain t where t: "transmitter_step send s t" by blast
    from transmitter_step_kept [OF l t] False show ?thesis
      using runs_transmits [OF t] by (auto simp: kept_line_def)
  next
    case True
    then have a: "answers s \<noteq> []" using todo WAITING by simp
    from lock_ready [OF l WAITING _ a fit] True obtain b where
      b: "handler_step s (s\<lparr>line_buffer := b, handler := TESTING\<rparr>)" by auto
    define u where "u = s\<lparr>line_buffer := b, handler := TESTING\<rparr>"
    have u: "handler_step s u" "handler u = TESTING" "transmitter u = CHECKING" using b True by (simp_all add: u_def)
    from handler_step_kept [OF l u(1)] have u': "line_ok send u gone q" "answers u = answers s" "rank u q = rank s q"
      using WAITING by (auto simp: kept_line_def u_def rank_def)
    from testing_ready [OF u'(1) u(2)] obtain t where t: "handler_step u t" by blast
    have "contents (line_buffer u) = []" using u'(1) u(3) True by (simp add: line_ok_def)
    then have "fill (line_buffer u) + length (hd (answers u)) \<le> 4194304"
      using fit a u'(2) by (simp add: fill_length del: length_contents)
    from writes_next [OF u'(1) u(2) this t] show ?thesis
      using u'(2,3) rtranclp_trans [OF runs_handles [OF u(1), of send] runs_handles [OF t]]
      by (auto simp: kept_line_def)
  qed
qed

lemma delivery:
  assumes "line_ok send s gone q" "transmitter s \<noteq> STOPPED" "accepts send (gone @ q @ answers s)"
    and "\<forall>f \<in> set (answers s). length f \<le> 4194304"
  shows "\<exists>t. runs send s t \<and> line_ok send t (gone @ q @ answers s) [] \<and> answers t = []
    \<and> transmitter t = CHECKING \<and> handler t = WAITING"
  using assms
proof (induction "2 * rank s q + (if handler s = TESTING then 1 else 0)" arbitrary: s gone q rule: less_induct)
  case less
  show ?case
  proof (cases "handler s \<noteq> WAITING \<or> transmitter s \<noteq> CHECKING \<or> q \<noteq> [] \<or> answers s \<noteq> []")
    case True
    from goes_on [OF less.prems(1,2,4) True] obtain t g q' where
      t: "runs send s t" "line_ok send t g q'" "g @ q' @ answers t = gone @ q @ answers s"
      "rank t q' < rank s q \<or> rank t q' = rank s q \<and> handler s = TESTING \<and> handler t = WAITING" by blast
    have n: "transmitter t \<noteq> STOPPED" by (rule runs_not_stopped [OF t(1) less.prems(1,3,2)])
    have f: "\<forall>f \<in> set (answers t). length f \<le> 4194304" using runs_answers [OF t(1)] less.prems(4) by blast
    have "2 * rank t q' + (if handler t = TESTING then 1 else 0)
        < 2 * rank s q + (if handler s = TESTING then 1 else 0)" using t(4) by auto
    from less.hyps [OF this t(2) n _ f] less.prems(3) t(3) show ?thesis
      using t(1) by (metis rtranclp_trans)
  next
    case False
    then show ?thesis using less.prems(1) by (intro exI [of _ s]) simp
  qed
qed

lemma taken_all:
  assumes "takes_all send" "\<forall>f \<in> set fs. frame f"
  shows "accepts send fs" "map (taken send) fs = fs"
proof -
  show "accepts send fs" using assms takes_all_frame(1) by (fastforce simp: accepts_def)
  show "map (taken send) fs = fs" using assms(2) takes_all_frame(2) [OF assms(1)] by (intro map_idI) blast
qed

lemma delivered:
  assumes "buffer_ok b" "contents b = concat q" "\<forall>f \<in> set (q @ fs). frame f"
    and "\<forall>f \<in> set fs. length f \<le> 4194304" "accepts send (q @ fs)" "runs send (idle b fs []) s"
  shows "\<exists>t. runs send s t \<and> answers t = [] \<and> handler t = WAITING \<and> transmitter t = CHECKING
    \<and> contents (line_buffer t) = [] \<and> wire t = concat (map (taken send) (q @ fs))"
proof -
  note l = line_ok_idle [OF assms(1-3), of send]
  from runs_channel [OF assms(6) l] obtain gone q' where
    g: "line_ok send s gone q'" "gone @ q' @ answers s = q @ fs" by auto
  have "set (answers s) \<subseteq> set fs" using runs_answers [OF assms(6)] by simp
  then have fit: "\<forall>f \<in> set (answers s). length f \<le> 4194304" using assms(4) by blast
  have "transmitter s \<noteq> STOPPED" by (rule runs_not_stopped [OF assms(6) l]) (use assms(5) in simp_all)
  from delivery [OF g(1) this _ fit] assms(5) obtain t where t: "runs send s t" "line_ok send t (q @ fs) []"
    "answers t = []" "transmitter t = CHECKING" "handler t = WAITING"
    unfolding g(2) by blast
  have "wire t = concat (map (taken send) (q @ fs))" "contents (line_buffer t) = []"
    using t(2,4) by (simp_all only: line_ok_def) simp_all
  with t show ?thesis by blast
qed

section \<open>Fair runs\<close>

datatype thread = TRANSMITTER | HANDLER

fun moves :: "(byte list \<Rightarrow> cint) \<Rightarrow> thread \<Rightarrow> line \<Rightarrow> line \<Rightarrow> bool" where
  "moves send TRANSMITTER s t = transmitter_step send s t"
| "moves send HANDLER s t = handler_step s t"

definition often :: "(nat \<Rightarrow> bool) \<Rightarrow> bool" where
  "often P \<longleftrightarrow> (\<forall>m. \<exists>i \<ge> m. P i)"

text \<open>
  An endless run with the thread that makes each step: neither thread is passed over for ever while it
  can make a step again and again, and a handler that writes comes to the end of its answer.
\<close>

definition fair_run :: "(byte list \<Rightarrow> cint) \<Rightarrow> (nat \<Rightarrow> thread) \<Rightarrow> (nat \<Rightarrow> line) \<Rightarrow> bool" where
  "fair_run send who \<sigma> \<longleftrightarrow> (\<forall>i. moves send (who i) (\<sigma> i) (\<sigma> (Suc i)))
     \<and> (\<forall>th. often (\<lambda>i. \<exists>t. moves send th (\<sigma> i) t) \<longrightarrow> often (\<lambda>i. who i = th))
     \<and> (\<forall>i p. handler (\<sigma> i) = WRITING p \<longrightarrow> (\<exists>j \<ge> i. handler (\<sigma> j) = WAITING))"

lemma oftenI: "(\<And>i. n \<le> i \<Longrightarrow> P i) \<Longrightarrow> often P"
  unfolding often_def by (meson max.cobounded1 max.cobounded2)

lemma often_after: "often P \<Longrightarrow> (\<And>i. n \<le> i \<Longrightarrow> P i \<Longrightarrow> Q i) \<Longrightarrow> often Q"
  unfolding often_def by (meson max.bounded_iff)

lemma often_conj: "often P \<Longrightarrow> (\<And>i. n \<le> i \<Longrightarrow> P i \<Longrightarrow> \<exists>j \<ge> i. Q j) \<Longrightarrow> often Q"
  unfolding often_def by (meson max.bounded_iff order_trans)

text \<open>What the other thread does not change is still so when a thread gets its next turn.\<close>

lemma next_turn:
  assumes "often (\<lambda>i. who i = th)" "\<And>i. n \<le> i \<Longrightarrow> who i \<noteq> th \<Longrightarrow> f (\<sigma> (Suc i)) = f (\<sigma> i)" "n \<le> i"
  obtains j where "i \<le> j" "who j = th" "f (\<sigma> j) = f (\<sigma> i)"
proof -
  obtain k where k: "i \<le> k" "who k = th" using assms(1) by (auto simp: often_def)
  then have "\<exists>j \<ge> i. who j = th \<and> f (\<sigma> j) = f (\<sigma> i)"
    using assms(3)
  proof (induction "k - i" arbitrary: i)
    case 0
    then show ?case by auto
  next
    case (Suc d)
    show ?case
    proof (cases "who i = th")
      case False
      have "\<exists>j \<ge> Suc i. who j = th \<and> f (\<sigma> j) = f (\<sigma> (Suc i))"
        using Suc.hyps(2) Suc.prems by (intro Suc.hyps(1)) simp_all
      then show ?thesis using assms(2) [OF Suc.prems(3) False] by (metis Suc_leD)
    qed auto
  qed
  then show thesis using that by blast
qed

text \<open>A run with the messages that went and that wait after each step.\<close>

definition turn :: "(byte list \<Rightarrow> cint) \<Rightarrow> thread \<Rightarrow> line \<Rightarrow> byte list list \<Rightarrow> line \<Rightarrow> byte list list \<Rightarrow> bool" where
  "turn send th s q t q' \<longleftrightarrow>
     (if th = TRANSMITTER then handler t = handler s
        \<and> (rank t q' < rank s q \<or> transmitter s = CHECKING \<and> t = s \<and> q = [] \<and> q' = [])
      else transmitter t = transmitter s \<and> (rank t q' < rank s q \<or> rank t q' = rank s q \<and> q' = q \<and> answers t = answers s
        \<and> (handler s = WAITING \<and> handler t = TESTING
          \<or> handler s = TESTING \<and> handler t = WAITING
              \<and> 4194304 < fill (line_buffer s) + length (hd (answers s))
          \<or> (\<exists>p. handler s = WRITING p \<and> handler t = WRITING p))))"

lemma moves_turn:
  assumes "line_ok send s gone q" "moves send th s t"
  shows "\<exists>gone' q'. kept_line send s gone q t gone' q' \<and> turn send th s q t q'"
proof (cases th)
  case TRANSMITTER
  then show ?thesis using transmitter_step_kept [OF assms(1)] assms(2) by (simp add: turn_def)
next
  case HANDLER
  then have "handler_step s t" using assms(2) by simp
  from handler_step_kept [OF assms(1) this] HANDLER show ?thesis unfolding turn_def by auto
qed

definition history ::
  "(byte list \<Rightarrow> cint) \<Rightarrow> (nat \<Rightarrow> thread) \<Rightarrow> (nat \<Rightarrow> line) \<Rightarrow> byte list list
    \<Rightarrow> (nat \<Rightarrow> byte list list) \<Rightarrow> (nat \<Rightarrow> byte list list) \<Rightarrow> bool" where
  "history send who \<sigma> all G Q \<longleftrightarrow> (\<forall>i. line_ok send (\<sigma> i) (G i) (Q i) \<and> G i @ Q i @ answers (\<sigma> i) = all
     \<and> turn send (who i) (\<sigma> i) (Q i) (\<sigma> (Suc i)) (Q (Suc i)))"

lemma history_exists:
  assumes "fair_run send who \<sigma>" "line_ok send (\<sigma> 0) gone q"
  shows "\<exists>G Q. history send who \<sigma> (gone @ q @ answers (\<sigma> 0)) G Q"
proof -
  let ?P = "\<lambda>i x. line_ok send (\<sigma> i) (fst x) (snd x) \<and> fst x @ snd x @ answers (\<sigma> i) = gone @ q @ answers (\<sigma> 0)"
  have "\<exists>f. \<forall>i. ?P i (f i) \<and> turn send (who i) (\<sigma> i) (snd (f i)) (\<sigma> (Suc i)) (snd (f (Suc i)))"
  proof (rule dependent_nat_choice)
    show "\<exists>x. ?P 0 x" using assms(2) by (intro exI [of _ "(gone, q)"]) simp
  next
    fix x i
    assume x: "?P i x"
    have "moves send (who i) (\<sigma> i) (\<sigma> (Suc i))" using assms(1) by (simp add: fair_run_def)
    with moves_turn x obtain g q' where "kept_line send (\<sigma> i) (fst x) (snd x) (\<sigma> (Suc i)) g q'"
      "turn send (who i) (\<sigma> i) (snd x) (\<sigma> (Suc i)) q'" by blast
    with x show "\<exists>y. ?P (Suc i) y \<and> turn send (who i) (\<sigma> i) (snd x) (\<sigma> (Suc i)) (snd y)"
      by (intro exI [of _ "(g, q')"]) (simp add: kept_line_def)
  qed
  then obtain f where "\<forall>i. ?P i (f i) \<and> turn send (who i) (\<sigma> i) (snd (f i)) (\<sigma> (Suc i)) (snd (f (Suc i)))" ..
  then show ?thesis by (intro exI [of _ "fst \<circ> f"] exI [of _ "snd \<circ> f"]) (simp add: history_def)
qed

text \<open>From some point on the rank stays as it is.\<close>

lemma antitone_settles:
  fixes r :: "nat \<Rightarrow> nat"
  assumes "\<And>i. r (Suc i) \<le> r i"
  shows "\<exists>n. \<forall>i \<ge> n. r i = r n"
proof -
  have le: "r j \<le> r i" if "i \<le> j" for i j using that by (rule lift_Suc_antimono_le [of r, OF assms])
  define n where "n = arg_min r (\<lambda>_. True)"
  have "r n \<le> r i" for i unfolding n_def by (rule arg_min_nat_le) simp
  then show ?thesis using le by (meson order_antisym)
qed

lemma turn_rank: "turn send th s q t q' \<Longrightarrow> rank t q' \<le> rank s q"
  by (auto simp: turn_def split: if_splits)

lemma history_settles:
  assumes "history send who \<sigma> all G Q"
  shows "\<exists>n. \<forall>i \<ge> n. rank (\<sigma> i) (Q i) = rank (\<sigma> n) (Q n)"
proof (rule antitone_settles)
  fix i
  show "rank (\<sigma> (Suc i)) (Q (Suc i)) \<le> rank (\<sigma> i) (Q i)"
    using assms by (intro turn_rank) (auto simp: history_def)
qed

text \<open>
  A fair run from the point on at which the rank stays: the transmitter only polls, and the handler only
  asks for space or writes.
\<close>

definition steady ::
  "(byte list \<Rightarrow> cint) \<Rightarrow> (nat \<Rightarrow> thread) \<Rightarrow> (nat \<Rightarrow> line) \<Rightarrow> byte list list
    \<Rightarrow> (nat \<Rightarrow> byte list list) \<Rightarrow> (nat \<Rightarrow> byte list list) \<Rightarrow> nat \<Rightarrow> bool" where
  "steady send who \<sigma> all G Q n \<longleftrightarrow> fair_run send who \<sigma> \<and> history send who \<sigma> all G Q
     \<and> (\<forall>i. transmitter (\<sigma> i) \<noteq> STOPPED) \<and> (\<forall>i. \<forall>f \<in> set (answers (\<sigma> i)). length f \<le> 4194304)
     \<and> (\<forall>i \<ge> n. rank (\<sigma> i) (Q i) = rank (\<sigma> n) (Q n))"

lemma steady_ok: "steady send who \<sigma> all G Q n \<Longrightarrow> line_ok send (\<sigma> i) (G i) (Q i)"
  by (simp add: steady_def history_def)

lemma steady_turn:
  assumes "steady send who \<sigma> all G Q n" "n \<le> i"
  shows "who i = TRANSMITTER \<Longrightarrow> transmitter (\<sigma> i) = CHECKING \<and> Q i = [] \<and> Q (Suc i) = [] \<and> \<sigma> (Suc i) = \<sigma> i"
    and "who i = HANDLER \<Longrightarrow> transmitter (\<sigma> (Suc i)) = transmitter (\<sigma> i) \<and> Q (Suc i) = Q i
      \<and> answers (\<sigma> (Suc i)) = answers (\<sigma> i)
      \<and> (handler (\<sigma> i) = WAITING \<and> handler (\<sigma> (Suc i)) = TESTING
        \<or> handler (\<sigma> i) = TESTING \<and> handler (\<sigma> (Suc i)) = WAITING
            \<and> 4194304 < fill (line_buffer (\<sigma> i)) + length (hd (answers (\<sigma> i)))
        \<or> (\<exists>p. handler (\<sigma> i) = WRITING p \<and> handler (\<sigma> (Suc i)) = WRITING p))"
proof -
  have "turn send (who i) (\<sigma> i) (Q i) (\<sigma> (Suc i)) (Q (Suc i))"
    using assms(1) by (simp add: steady_def history_def)
  moreover have "rank (\<sigma> (Suc i)) (Q (Suc i)) = rank (\<sigma> i) (Q i)"
    using assms le_SucI [OF assms(2)] unfolding steady_def by metis
  ultimately have t: "if who i = TRANSMITTER then transmitter (\<sigma> i) = CHECKING \<and> Q i = [] \<and> Q (Suc i) = [] \<and> \<sigma> (Suc i) = \<sigma> i
      else transmitter (\<sigma> (Suc i)) = transmitter (\<sigma> i) \<and> Q (Suc i) = Q i \<and> answers (\<sigma> (Suc i)) = answers (\<sigma> i)
        \<and> (handler (\<sigma> i) = WAITING \<and> handler (\<sigma> (Suc i)) = TESTING
          \<or> handler (\<sigma> i) = TESTING \<and> handler (\<sigma> (Suc i)) = WAITING
              \<and> 4194304 < fill (line_buffer (\<sigma> i)) + length (hd (answers (\<sigma> i)))
          \<or> (\<exists>p. handler (\<sigma> i) = WRITING p \<and> handler (\<sigma> (Suc i)) = WRITING p))"
    by (auto simp: turn_def split: if_splits)
  show "who i = TRANSMITTER \<Longrightarrow> transmitter (\<sigma> i) = CHECKING \<and> Q i = [] \<and> Q (Suc i) = [] \<and> \<sigma> (Suc i) = \<sigma> i"
    using t by simp
  show "who i = HANDLER \<Longrightarrow> transmitter (\<sigma> (Suc i)) = transmitter (\<sigma> i) \<and> Q (Suc i) = Q i
      \<and> answers (\<sigma> (Suc i)) = answers (\<sigma> i)
      \<and> (handler (\<sigma> i) = WAITING \<and> handler (\<sigma> (Suc i)) = TESTING
        \<or> handler (\<sigma> i) = TESTING \<and> handler (\<sigma> (Suc i)) = WAITING
            \<and> 4194304 < fill (line_buffer (\<sigma> i)) + length (hd (answers (\<sigma> i)))
        \<or> (\<exists>p. handler (\<sigma> i) = WRITING p \<and> handler (\<sigma> (Suc i)) = WRITING p))"
    using t by simp
qed

lemma steady_const:
  assumes "steady send who \<sigma> all G Q n" "n \<le> i"
  shows "transmitter (\<sigma> i) = transmitter (\<sigma> n) \<and> Q i = Q n \<and> answers (\<sigma> i) = answers (\<sigma> n)"
  using assms(2)
proof (induction rule: dec_induct)
  case (step i)
  then show ?case using steady_turn [OF assms(1), of i] by (cases "who i") auto
qed simp

lemma steady_fair:
  assumes "steady send who \<sigma> all G Q n" "often (\<lambda>i. \<exists>t. moves send th (\<sigma> i) t)"
  shows "often (\<lambda>i. who i = th)"
  using assms by (auto simp: steady_def fair_run_def)

lemma waits_often:
  assumes s: "steady send who \<sigma> all G Q n"
  shows "often (\<lambda>i. handler (\<sigma> i) = WAITING)"
proof (rule ccontr)
  assume "\<not> ?thesis"
  then obtain m where m: "\<And>i. m \<le> i \<Longrightarrow> handler (\<sigma> i) \<noteq> WAITING" by (auto simp: often_def)
  have t: "handler (\<sigma> i) = TESTING" if "m \<le> i" for i
  proof (cases "handler (\<sigma> i)")
    case (WRITING p)
    then obtain j where "i \<le> j" "handler (\<sigma> j) = WAITING" using s by (auto simp: steady_def fair_run_def)
    then show ?thesis using m [of j] that by simp
  qed (use m [OF that] in simp_all)
  have "often (\<lambda>i. \<exists>t. moves send HANDLER (\<sigma> i) t)"
    by (rule oftenI [of m]) (simp add: testing_ready [OF steady_ok [OF s]] t)
  from steady_fair [OF s this] obtain i where "max m n \<le> i" "who i = HANDLER" unfolding often_def by blast
  then show False using steady_turn(2) [OF s, of i] m [of "Suc i"] t [of i] by auto
qed

lemma transmitter_rests:
  assumes s: "steady send who \<sigma> all G Q n"
  shows "transmitter (\<sigma> n) = CHECKING \<and> Q n = []"
proof -
  have n: "transmitter (\<sigma> i) \<noteq> STOPPED" for i using s by (simp add: steady_def)
  have "often (\<lambda>i. \<exists>t. moves send TRANSMITTER (\<sigma> i) t)"
    by (rule often_after [OF waits_often [OF s]]) (simp add: transmitter_ready [OF steady_ok [OF s] n])
  from steady_fair [OF s this] obtain i where "n \<le> i" "who i = TRANSMITTER" by (auto simp: often_def)
  then show ?thesis using steady_turn(1) [OF s, of i] steady_const [OF s, of i] by simp
qed

lemma answers_given:
  assumes s: "steady send who \<sigma> all G Q n"
  shows "answers (\<sigma> n) = []"
proof (rule ccontr)
  assume a: "answers (\<sigma> n) \<noteq> []"
  have c: "transmitter (\<sigma> i) = CHECKING" "Q i = []" "answers (\<sigma> i) = answers (\<sigma> n)" if "n \<le> i" for i
    using steady_const [OF s that] transmitter_rests [OF s] by simp_all
  have fit: "\<forall>f \<in> set (answers (\<sigma> i)). length f \<le> 4194304" for i using s by (simp add: steady_def)
  have "\<exists>t. moves send HANDLER (\<sigma> i) t" if "n \<le> i" "handler (\<sigma> i) = WAITING" for i
    using lock_ready [OF steady_ok [OF s] that(2) _ _ fit] c [OF that(1)] a by auto
  then have "often (\<lambda>i. \<exists>t. moves send HANDLER (\<sigma> i) t)" by (rule often_after [OF waits_often [OF s]])
  note h = steady_fair [OF s this]
  have keep: "handler (\<sigma> (Suc i)) = handler (\<sigma> i)" if "n \<le> i" "who i \<noteq> HANDLER" for i
    using steady_turn(1) [OF s that(1)] that(2) by (cases "who i") auto
  obtain i where i: "n \<le> i" "handler (\<sigma> i) = WAITING" using waits_often [OF s] by (auto simp: often_def)
  obtain j where j: "i \<le> j" "who j = HANDLER" "handler (\<sigma> j) = handler (\<sigma> i)"
    by (rule next_turn [where f = handler and \<sigma> = \<sigma> and n = n, OF h keep i(1)]) simp_all
  then have t: "handler (\<sigma> (Suc j)) = TESTING" using steady_turn(2) [OF s, of j] i by auto
  have "n \<le> Suc j" using i(1) j(1) by simp
  obtain k where k: "Suc j \<le> k" "who k = HANDLER" "handler (\<sigma> k) = handler (\<sigma> (Suc j))"
    by (rule next_turn [where f = handler and \<sigma> = \<sigma> and n = n, OF h keep \<open>n \<le> Suc j\<close>]) simp_all
  have n: "n \<le> k" using i(1) j(1) k(1) by simp
  have "4194304 < fill (line_buffer (\<sigma> k)) + length (hd (answers (\<sigma> k)))"
    using steady_turn(2) [OF s n k(2)] k(3) t by auto
  moreover have "contents (line_buffer (\<sigma> k)) = []"
    using steady_ok [OF s, of k] c [OF n] by (simp add: line_ok_def)
  moreover have "hd (answers (\<sigma> k)) \<in> set (answers (\<sigma> k))" using c(3) [OF n] a by simp
  with fit [of k] have "length (hd (answers (\<sigma> k))) \<le> 4194304" by blast
  ultimately show False by (simp add: fill_length del: length_contents)
qed

text \<open>Every fair run delivers everything and then only polls.\<close>

lemma fair_delivers:
  assumes "buffer_ok b" "contents b = concat q" "\<forall>f \<in> set (q @ fs). frame f"
    and "\<forall>f \<in> set fs. length f \<le> 4194304" "accepts send (q @ fs)"
    and "\<sigma> 0 = idle b fs []" "fair_run send who \<sigma>"
  shows "\<exists>n. \<forall>i \<ge> n. answers (\<sigma> i) = [] \<and> handler (\<sigma> i) = WAITING \<and> transmitter (\<sigma> i) = CHECKING
    \<and> contents (line_buffer (\<sigma> i)) = [] \<and> wire (\<sigma> i) = concat (map (taken send) (q @ fs))"
proof -
  have l: "line_ok send (\<sigma> 0) [] q" using line_ok_idle [OF assms(1-3)] assms(6) by simp
  from history_exists [OF assms(7) l] assms(6) obtain G Q where h: "history send who \<sigma> (q @ fs) G Q" by auto
  have r: "runs send (\<sigma> 0) (\<sigma> i)" for i
  proof (induction i)
    case (Suc i)
    have "moves send (who i) (\<sigma> i) (\<sigma> (Suc i))" using assms(7) by (simp add: fair_run_def)
    then have "interleaved send (\<sigma> i) (\<sigma> (Suc i))" by (cases "who i") (auto intro: transmits handles)
    with Suc show ?case by (rule rtranclp.rtrancl_into_rtrancl)
  qed simp
  have "transmitter (\<sigma> i) \<noteq> STOPPED" for i
    by (rule runs_not_stopped [OF r l]) (use assms(5,6) in simp_all)
  moreover have "\<forall>f \<in> set (answers (\<sigma> i)). length f \<le> 4194304" for i
    using runs_answers [OF r, of i] assms(4,6) by auto
  moreover obtain n where "\<forall>i \<ge> n. rank (\<sigma> i) (Q i) = rank (\<sigma> n) (Q n)" using history_settles [OF h] by blast
  ultimately have s: "steady send who \<sigma> (q @ fs) G Q n" using h assms(7) unfolding steady_def by blast
  have "answers (\<sigma> i) = [] \<and> handler (\<sigma> i) = WAITING \<and> transmitter (\<sigma> i) = CHECKING
      \<and> contents (line_buffer (\<sigma> i)) = [] \<and> wire (\<sigma> i) = concat (map (taken send) (q @ fs))" if "n \<le> i" for i
  proof -
    have c: "transmitter (\<sigma> i) = CHECKING" "Q i = []" "answers (\<sigma> i) = []"
      using steady_const [OF s that] transmitter_rests [OF s] answers_given [OF s] by simp_all
    moreover have "G i @ Q i @ answers (\<sigma> i) = q @ fs" using h by (simp add: history_def)
    then have "G i = q @ fs" by (simp add: c)
    ultimately show ?thesis using steady_ok [OF s, of i] by (cases "handler (\<sigma> i)") (simp_all add: line_ok_def)
  qed
  then show ?thesis by blast
qed

text \<open>The threads are never both stuck, so that every run that goes on as long as it can is endless.\<close>

lemma never_stuck:
  assumes l: "line_ok send s gone q" and pc: "transmitter s \<noteq> STOPPED"
  shows "\<exists>t. interleaved send s t"
proof (cases "handler s")
  case WAITING
  then show ?thesis using transmitter_ready [OF l pc] transmits by blast
next
  case TESTING
  then show ?thesis using testing_ready [OF l] handles by blast
next
  case (WRITING p)
  then show ?thesis using put [OF WRITING, of "bdata (line_buffer s)"] handles by blast
qed

lemma idle_never_stuck:
  assumes "buffer_ok b" "contents b = concat q" "\<forall>f \<in> set (q @ fs). frame f" "accepts send (q @ fs)"
    and "runs send (idle b fs []) s"
  shows "\<exists>t. interleaved send s t"
proof -
  note l = line_ok_idle [OF assms(1-3), of send]
  have "transmitter s \<noteq> STOPPED" by (rule runs_not_stopped [OF assms(5) l]) (use assms(4) in simp_all)
  then show ?thesis using runs_channel [OF assms(5) l] never_stuck by blast
qed

text \<open>
  Fair runs exist: from the start the threads can deliver everything, and then the transmitter polls.
\<close>

lemma runs_sequence:
  assumes "runs send s t"
  obtains \<rho> n where "\<rho> 0 = s" "\<rho> n = t" "\<forall>i < n. interleaved send (\<rho> i) (\<rho> (Suc i))"
proof -
  obtain n where "(interleaved send ^^ n) s t" using rtranclp_imp_relpowp [OF assms] by blast
  then show thesis using that unfolding relpowp_fun_conv by blast
qed

lemma fair_run_exists:
  assumes "buffer_ok b" "contents b = concat q" "\<forall>f \<in> set (q @ fs). frame f"
    and "\<forall>f \<in> set fs. length f \<le> 4194304" "accepts send (q @ fs)"
  shows "\<exists>who \<sigma>. \<sigma> 0 = idle b fs [] \<and> fair_run send who \<sigma>"
proof -
  from delivered [OF assms rtranclp.rtrancl_refl] obtain t where
    t: "runs send (idle b fs []) t" "answers t = []" "handler t = WAITING" "transmitter t = CHECKING"
    "contents (line_buffer t) = []" by blast
  obtain \<rho> n where \<rho>: "\<rho> 0 = idle b fs []" "\<rho> n = t"
    "\<forall>i < n. interleaved send (\<rho> i) (\<rho> (Suc i))"
    using runs_sequence [OF t(1)] .
  define \<sigma> where "\<sigma> = (\<lambda>i. \<rho> (min i n))"
  define who where "who = (\<lambda>i. if i < n \<and> handler_step (\<sigma> i) (\<sigma> (Suc i)) then HANDLER else TRANSMITTER)"
  have rest: "\<sigma> i = t" "who i = TRANSMITTER" if "n \<le> i" for i
    using that by (simp_all add: \<sigma>_def who_def \<rho>(2) min_absorb2)
  have "\<not> iscsi_pdu_valid (bdata (line_buffer t)) 0 (iscsi_buffer_length (line_buffer t))"
    using valid_nonempty [of "line_buffer t" "[]"] t(5) by auto
  then have poll: "transmitter_step send t t" using t(4) by (rule poll [rotated])
  have "moves send (who i) (\<sigma> i) (\<sigma> (Suc i))" for i
  proof (cases "i < n")
    case True
    then have "interleaved send (\<sigma> i) (\<sigma> (Suc i))" using \<rho>(3) by (simp add: \<sigma>_def)
    then show ?thesis using True by cases (simp_all add: who_def)
  qed (use rest poll in simp)
  moreover have "often (\<lambda>i. who i = th)" if en: "often (\<lambda>i. \<exists>u. moves send th (\<sigma> i) u)" for th
  proof (cases th)
    case TRANSMITTER
    then show ?thesis using rest(2) by (intro oftenI [of n]) simp
  next
    case HANDLER
    obtain i u where "n \<le> i" "moves send th (\<sigma> i) u" using en unfolding often_def by blast
    then have "handler_step t u" using rest(1) HANDLER by simp
    then show ?thesis using t(2,3) by cases simp_all
  qed
  moreover have "\<exists>j \<ge> i. handler (\<sigma> j) = WAITING" for i
    using rest(1) [of "max i n"] t(3) by (intro exI [of _ "max i n"]) simp
  ultimately have "fair_run send who \<sigma>" by (simp add: fair_run_def)
  moreover have "\<sigma> 0 = idle b fs []" by (simp add: \<sigma>_def \<rho>(1))
  ultimately show ?thesis by blast
qed

end
