(* ===== verification/Iscsi_Samples.thy ===== *)
theory Iscsi_Samples
  imports Iscsi_Main Iscsi_Sessions Iscsi_Lookup Iscsi_Offer
begin

text \<open>
  Concrete buffers, connections, worlds and PDUs, at which the properties are applied, with the
  facts about them that their hypotheses ask for: a buffer that holds given bytes, a connection
  that is logged in to a normal session, a device that counts its commands, and request headers.
\<close>

section \<open>Buffers\<close>

definition sample_buffer :: "byte list \<Rightarrow> iSCSIBuffer" where
  "sample_buffer bs = \<lparr>blength = word_of_nat (length bs), block = 1, bdata = mem_of bs\<rparr>"

lemma sample_buffer_fill: "length bs \<le> 4194304 \<Longrightarrow> fill (sample_buffer bs) = length bs"
  by (simp add: fill_def sample_buffer_def sint_of_nat)

lemma sample_buffer_ok: "length bs \<le> 4194304 \<Longrightarrow> buffer_ok (sample_buffer bs)"
  by (simp add: buffer_ok_def sample_buffer_def sint_of_nat)

lemma sample_buffer_contents: "length bs \<le> 4194304 \<Longrightarrow> contents (sample_buffer bs) = bs"
  by (intro nth_equalityI)
    (simp_all add: contents_def sample_buffer_fill, simp add: sample_buffer_def mem_of_def)

lemma sample_buffer_room: "length bs + n \<le> 4194304 \<Longrightarrow> room (sample_buffer bs) n"
  by (simp add: room_def sample_buffer_fill sample_buffer_ok)

lemma sample_buffer_sel [simp]:
  "bdata (sample_buffer bs) = mem_of bs" "block (sample_buffer bs) = 1"
  by (simp_all add: sample_buffer_def)

section \<open>Connections and worlds\<close>

definition sample_parameter :: "nat \<Rightarrow> iSCSIConnectionParameter" where
  "sample_parameter mx = \<lparr>pbuffer = \<lambda>_. 0, plength = 0,
     max_receive_data_segment_length = word_of_nat mx, max_connections = 1, initial_r2t = 1,
     immediate_data = 1, max_burst_length = 8192, first_burst_length = 8192, data_pdu_in_order = 1,
     data_sequence_in_order = 1, default_time_2_wait = 10, default_time_2_retain = 10,
     max_outstanding_r2t = 10\<rparr>"

definition sample_connection :: "nat \<Rightarrow> byte list \<Rightarrow> iSCSIConnection" where
  "sample_connection mx bs = \<lparr>session_reference = DefaultSession, receive_buffer = sample_buffer bs,
     response_buffer = sample_buffer [], conn_parameter = sample_parameter mx, socket_fd = 4,
     so_far_in_order = 1, connection_id = 0, conn_state = 0, current_timeout = 0, stat_sn = 5,
     expected_cmd_sn = 6, conn_max_cmd_sn = 0xFFFFFFFF, perform_connection_cleanup = 0\<rparr>"

definition sample_entry :: iSCSITransferEntry where
  "sample_entry = \<lparr>entry_data = \<lambda>_. 0, entry_cdb = \<lambda>_. 0, total_length = 8, entry_offset = 0,
     r2t_sn = 0, total_r2t_sn = 0, entry_transfer_tag = 3\<rparr>"

definition sample_session :: iSCSISession where
  "sample_session = \<lparr>num_connections = 0, session_max_connections = 4, TSIH = 1, ExpCmdSN = 0,
     command_numbering_start = 0, is_full_feature_phase = 1, is_discovery = 0,
     error_recovery_level = 0, session_transfer_tag = 3, session_target = DefaultTarget,
     transfer_entry = sample_entry\<rparr>"

definition sample_target :: iSCSITarget where
  "sample_target = \<lparr>fd = 3, scsi_response = 0, io_hdr = sg_request, tbuffer = \<lambda>_. 0,
     sense_buffer = \<lambda>_. 0\<rparr>"

text \<open>The device counts its commands and reads byte \<open>i\<close> as \<open>i\<close> modulo 256.\<close>

definition sample_os :: "nat os" where
  "sample_os = \<lparr>os_open = 3, os_ioctl = \<lambda>d hdr cdb buf sense. \<lparr>reply_ret = 0, reply_device = d + 1,
     reply_status = 0, reply_sb_len_wr = 0, reply_resid = 0, reply_buffer = of_nat,
     reply_sense = sense\<rparr>\<rparr>"

definition sample_world :: "nat \<Rightarrow> byte list \<Rightarrow> nat world" where
  "sample_world mx bs = \<lparr>connection = sample_connection mx bs, default_session = sample_session,
     default_target = sample_target, device = 0\<rparr>"

lemmas sample_defs = sample_world_def sample_connection_def sample_session_def sample_target_def
  sample_entry_def sample_parameter_def

lemma sample_world_sel [simp]:
  "connection (sample_world mx bs) = sample_connection mx bs"
  "default_session (sample_world mx bs) = sample_session"
  "default_target (sample_world mx bs) = sample_target" "device (sample_world mx bs) = 0"
  "receive_buffer (sample_connection mx bs) = sample_buffer bs"
  "response_buffer (sample_connection mx bs) = sample_buffer []"
  "conn_parameter (sample_connection mx bs) = sample_parameter mx"
  "request_of (sample_connection mx bs) = mem_of bs"
  "session_reference (sample_connection mx bs) = DefaultSession"
  by (simp_all add: sample_world_def sample_connection_def request_of_def)

lemma sample_parameter_negotiated: "mx \<le> 1048576 \<Longrightarrow> negotiated (sample_parameter mx)"
  by (simp add: negotiated_def sample_parameter_def sint_of_nat)

lemma sample_parameter_non_negative: "non_negative (sample_parameter mx)"
  by (simp add: non_negative_def sample_parameter_def)

lemma sample_world_ok: "mx \<le> 1048576 \<Longrightarrow> length bs \<le> 4194304 \<Longrightarrow> world_ok (sample_world mx bs)"
  by (simp add: world_ok_def sample_buffer_ok sample_parameter_negotiated)
    (simp add: sample_session_def)

lemma sample_logged_in: "logged_in (sample_world mx bs)"
  by (simp add: logged_in_def) (simp add: sample_session_def)

lemma sample_reply [simp]:
  "reply_buffer (reply_to sample_os w cdb buf) = of_nat" "reply_resid (reply_to sample_os w cdb buf) = 0"
  "reply_device (reply_to sample_os w cdb buf) = device w + 1"
  "reply_sb_len_wr (reply_to sample_os w cdb buf) = 0"
  by (simp_all add: reply_to_def sample_os_def)

section \<open>Request headers\<close>

text \<open>
  Opcode and flags, the data segment length, the word at 20 (the transfer tag of a Data-Out, the
  expected length of a command), the word at 24 (CmdSN) and the word at 40 (a buffer offset).
\<close>

definition sample_header :: "byte \<Rightarrow> byte \<Rightarrow> nat \<Rightarrow> cint \<Rightarrow> cint \<Rightarrow> cint \<Rightarrow> byte list" where
  "sample_header opc fl d w20 w24 w40 =
     [opc, fl, 0, 0, 0] @ be24 (word_of_nat d) @ replicate 8 0 @ be32 7 @ be32 w20 @ be32 w24
     @ replicate 12 0 @ be32 w40 @ replicate 4 0"

lemma length_sample_header [simp]: "length (sample_header opc fl d w20 w24 w40) = 48"
  by (simp add: sample_header_def)

lemma replicate_4: "replicate 4 x = [x, x, x, x]"
  by (simp add: numeral_eq_Suc)

lemma sample_header_at:
  "k < 48 \<Longrightarrow> mem_of (sample_header opc fl d w20 w24 w40 @ bs) k
     = sample_header opc fl d w20 w24 w40 ! k"
  by (simp add: mem_of_def nth_append)

lemmas sample_header_bytes = sample_header_def be24_def be32_def replicate_8 replicate_12 replicate_4

lemma sample_header_words [simp]:
  fixes opc fl d w20 w24 w40 bs
  defines "m \<equiv> mem_of (sample_header opc fl d w20 w24 w40 @ bs)"
  shows "iscsi_byte_byte2int m 16 = 7" and "iscsi_byte_byte2int m 20 = w20"
    and "iscsi_byte_byte2int m 24 = w24" and "iscsi_byte_byte2int m 40 = w40"
  unfolding m_def
  by (intro byte2int_eqI; simp add: sample_header_at; simp add: sample_header_bytes)+

lemma sample_header_fields [simp]:
  fixes opc fl d w20 w24 w40 bs
  defines "m \<equiv> mem_of (sample_header opc fl d w20 w24 w40 @ bs)"
  shows "iscsi_pdu_opcode m 0 = ucast opc AND 0x3F"
    and "m 0 = opc" and "m (Suc 0) = fl" and "m 4 = 0" and "m 14 = 0" and "m 15 = 0"
  unfolding m_def by (simp_all add: iscsi_pdu_opcode_def sample_header_at)
    (simp_all add: sample_header_bytes)

lemma sample_header_dsl [simp]:
  assumes "d < 16777216"
  shows "iscsi_pdu_data_segment_length (mem_of (sample_header opc fl d w20 w24 w40 @ bs)) 0 = word_of_nat d"
    and "dsl (mem_of (sample_header opc fl d w20 w24 w40 @ bs)) 0 = d"
    and "plen (mem_of (sample_header opc fl d w20 w24 w40 @ bs)) 0 = padn (48 + d)"
proof -
  let ?m = "mem_of (sample_header opc fl d w20 w24 w40 @ bs)"
  have v: "sint (word_of_nat d :: cint) = int d" using assms by (simp add: sint_of_nat)
  show l: "iscsi_pdu_data_segment_length ?m 0 = word_of_nat d"
    using assms v by (intro data_segment_length_eqI)
      (simp_all add: sample_header_at, simp_all add: sample_header_def be24_def)
  show d: "dsl ?m 0 = d" using v by (simp add: dsl_def l)
  show "plen ?m 0 = padn (48 + d)" by (simp add: plen_def d)
qed

lemmas sample_header_only [simp] =
  sample_header_words [where bs = "[]", unfolded append_Nil2]
  sample_header_fields [where bs = "[]", unfolded append_Nil2]
  sample_header_dsl [where bs = "[]", unfolded append_Nil2]

end
