(* ===== verification/Properties_Login.thy ===== *)
theory Properties_Login
  imports Iscsi_Samples Iscsi_Text
begin

text \<open>
  The properties of the login phase: the login that completes, the decision of the session setup over
  the pairs of the text, the refusals, and what a connection without a full feature session answers.
\<close>

section \<open>Completing a login\<close>

text \<open>
  C20: A login completes. The first login of a connection, with a text of pairs that names the
  initiator, a session type other than \<open>Discovery\<close> and a target, in the operational stage with the
  transit to the full feature phase, opens the session on the target, enters the full feature phase
  without touching the device, and appends the response with status 0, TSIH 1 and the offer of the
  parameters that the text negotiated; the response is a frame when the request has no additional
  headers.
\<close>

theorem login_completes:
  fixes os :: "'d os" and w :: "'d world"
  defines "c \<equiv> connection w" and "req \<equiv> request_of (connection w)"
  assumes s: "session_reference c = NoSession" and t: "login_text c kvs"
    and h: "iscsi_pdu_login_continue req 0 = 0" "iscsi_pdu_login_TSIH req 0 = 0" "operational_login req"
    and f: "find_pair kvs (cstr ''InitiatorName'') = Some i" "find_pair kvs (cstr ''SessionType'') = Some ty"
      "snd ty \<noteq> cstr ''Discovery''" "find_pair kvs (cstr ''TargetName'') = Some tn"
    and os: "0 \<le> sint (os_open os)" and p: "non_negative (login_parameter c kvs)"
  defines "w1 \<equiv> w\<lparr>connection := c\<lparr>conn_parameter := login_parameter c kvs\<rparr>,
      default_session := (default_session w)\<lparr>TSIH := 1\<rparr>\<rparr>"
  assumes r: "room (response_buffer c) (length (operational_message w1))"
  shows "\<exists>v w'. iscsi_request_login_process os w = Inr (v, w') \<and> device w' = device w
    \<and> session_reference (connection w') = DefaultSession
    \<and> session_target (default_session w') = DefaultTarget
    \<and> is_full_feature_phase (default_session w') = 1 \<and> is_discovery (default_session w') = 0
    \<and> contents (response_buffer (connection w')) = contents (response_buffer c) @ operational_message w1
    \<and> (frame (operational_message w1) \<or> req 4 \<noteq> 0)"
proof -
  have "frame (operational_message w1) \<or> req 4 \<noteq> 0"
    using operational_message_frame [of w1] by (auto simp: w1_def request_of_def req_def c_def)
  then show ?thesis
    using login_enters [where w = w and os = os, OF _ _ _ _ _ opens_normal [OF f]] s t h os p r unfolding c_def req_def w1_def by blast
qed

definition sample_login_pairs :: "(byte list \<times> byte list) list" where
  "sample_login_pairs = [(cstr ''InitiatorName'', cstr ''a''), (cstr ''SessionType'', cstr ''Normal''),
     (cstr ''TargetName'', cstr ''t''), (MAX_BURST_LENGTH, cstr ''4096'')]"

text \<open>A login PDU with the given stage byte, TSIH and pairs, on a connection without a session.\<close>

definition login_header :: "byte \<Rightarrow> byte \<Rightarrow> nat \<Rightarrow> byte list" where
  "login_header stage tsih d =
     [3, stage, 0, 0, 0] @ be24 (word_of_nat d) @ replicate 6 0 @ [0, tsih] @ replicate 32 0"

definition login_pdu :: "byte \<Rightarrow> byte \<Rightarrow> (byte list \<times> byte list) list \<Rightarrow> byte list" where
  "login_pdu stage tsih kvs = login_header stage tsih (length (pairs_text kvs)) @ pairs_text kvs"

definition sample_login :: "byte \<Rightarrow> byte \<Rightarrow> (byte list \<times> byte list) list \<Rightarrow> nat world" where
  "sample_login stage tsih kvs = (sample_world 64 (login_pdu stage tsih kvs))\<lparr>
     connection := (sample_connection 64 (login_pdu stage tsih kvs))\<lparr>session_reference := NoSession\<rparr>,
     default_session := sample_session\<lparr>is_full_feature_phase := 0, session_max_connections := 0\<rparr>\<rparr>"

lemma sample_login_sel [simp]:
  "connection (sample_login stage tsih kvs)
     = (sample_connection 64 (login_pdu stage tsih kvs))\<lparr>session_reference := NoSession\<rparr>"
  "default_session (sample_login stage tsih kvs)
     = sample_session\<lparr>is_full_feature_phase := 0, session_max_connections := 0\<rparr>"
  "device (sample_login stage tsih kvs) = 0"
  "request_of (c\<lparr>session_reference := s\<rparr>) = request_of c"
  by (simp_all add: sample_login_def sample_world_def request_of_def)

lemma length_login_header [simp]: "length (login_header stage tsih d) = 48"
  by (simp add: login_header_def)

lemma login_pdu_at:
  "k < 48 \<Longrightarrow> mem_of (login_pdu stage tsih kvs) k = login_header stage tsih (length (pairs_text kvs)) ! k"
  by (simp add: login_pdu_def mem_of_def nth_append)

lemma login_pdu_fields [simp]:
  "mem_of (login_pdu stage tsih kvs) 0 = 3" "mem_of (login_pdu stage tsih kvs) (Suc 0) = stage"
  "mem_of (login_pdu stage tsih kvs) 4 = 0" "mem_of (login_pdu stage tsih kvs) 14 = 0"
  "mem_of (login_pdu stage tsih kvs) 15 = tsih"
  by (simp_all add: login_pdu_at) (simp_all add: login_header_def be24_def nth_append)

lemma login_pdu_dsl [simp]:
  assumes "length (pairs_text kvs) < 16777216"
  shows "dsl (mem_of (login_pdu stage tsih kvs)) 0 = length (pairs_text kvs)"
proof -
  have v: "sint (word_of_nat (length (pairs_text kvs)) :: cint) = int (length (pairs_text kvs))"
    using assms by (simp add: sint_of_nat)
  have "iscsi_pdu_data_segment_length (mem_of (login_pdu stage tsih kvs)) 0 = word_of_nat (length (pairs_text kvs))"
    using assms v by (intro data_segment_length_eqI)
      (simp_all add: login_pdu_at, simp_all add: login_header_def be24_def)
  then show ?thesis by (simp add: dsl_def v)
qed

lemma sample_login_text:
  assumes "list_all plain_pair kvs" "length (pairs_text kvs) \<le> 1048576"
  shows "login_text (connection (sample_login stage tsih kvs)) kvs"
  using assms by (simp add: login_text_def at_def) (simp add: login_pdu_def mem_of_def nth_append)

lemma sample_login_pairs_plain: "list_all plain_pair sample_login_pairs"
  by (simp add: sample_login_pairs_def plain_pair_def plain_def is_sep_def cstr_def MAX_BURST_LENGTH_def)

lemma sample_login_pairs_length: "length (pairs_text sample_login_pairs) = 68"
  by (simp add: sample_login_pairs_def pairs_text_def pair_text_def cstr_def MAX_BURST_LENGTH_def)

lemma sample_login_found:
  "find_pair sample_login_pairs (cstr ''InitiatorName'') = Some (cstr ''InitiatorName'', cstr ''a'')"
  "find_pair sample_login_pairs (cstr ''SessionType'') = Some (cstr ''SessionType'', cstr ''Normal'')"
  "find_pair sample_login_pairs (cstr ''TargetName'') = Some (cstr ''TargetName'', cstr ''t'')"
  by (simp_all add: find_pair_def sample_login_pairs_def cstr_def)

lemma sample_login_non_negative:
  "non_negative (login_parameter c sample_login_pairs)"
  "max_receive_data_segment_length (login_parameter c sample_login_pairs) = 1048576"
proof -
  have e: "apply_pair q (cstr ''InitiatorName'', v) = q" "apply_pair q (cstr ''SessionType'', v) = q"
    "apply_pair q (cstr ''TargetName'', v) = q" for q v
    by (simp_all add: apply_pair_def keep_or_def parameter_keys cstr_def)
  have v: "digits_value 0 (cstr ''4096'') = 4096" by (simp add: cstr_def)
  show "non_negative (login_parameter c sample_login_pairs)"
    "max_receive_data_segment_length (login_parameter c sample_login_pairs) = 1048576"
    by (simp_all add: login_parameter_def sample_login_pairs_def e v apply_pair_numbers non_negative_def
        set_default_parameter_def c_min_def)
qed

lemma operational_stage: "operational_login (mem_of (login_pdu 0x87 tsih kvs))"
  by (simp add: operational_login_def iscsi_pdu_login_csg_def iscsi_pdu_login_transit_def iscsi_pdu_login_nsg_def)

lemma login_completes_witness:
  "\<exists>v w'. iscsi_request_login_process sample_os (sample_login 0x87 0 sample_login_pairs) = Inr (v, w')
    \<and> session_reference (connection w') = DefaultSession \<and> is_full_feature_phase (default_session w') = 1"
proof -
  let ?w = "sample_login 0x87 0 sample_login_pairs"
  have c: "iscsi_pdu_login_continue (request_of (connection ?w)) 0 = 0"
    "iscsi_pdu_login_TSIH (request_of (connection ?w)) 0 = 0"
    by (simp_all add: iscsi_pdu_login_continue_def iscsi_pdu_login_TSIH_def)
  have r: "room (response_buffer (connection ?w)) (length (operational_message w1))" for w1 :: "nat world"
    using length_offered [of "conn_parameter (connection w1)"]
      padn_bounds [of "48 + length (pairs_text (offered (conn_parameter (connection w1))))"]
    by (simp add: length_operational_message sample_buffer_room)
  have n: "snd (cstr ''SessionType'', cstr ''Normal'') \<noteq> cstr ''Discovery''" by (simp add: cstr_def)
  have s: "session_reference (connection ?w) = NoSession" and l: "operational_login (request_of (connection ?w))"
    by (simp_all add: operational_stage)
  have o: "0 \<le> sint (os_open sample_os)" by (simp add: sample_os_def)
  have t: "login_text (connection ?w) sample_login_pairs"
    by (rule sample_login_text [OF sample_login_pairs_plain]) (simp add: sample_login_pairs_length)
  from login_completes [OF s t c l sample_login_found(1,2) n sample_login_found(3) o sample_login_non_negative(1) r]
  show ?thesis by blast
qed

section \<open>The decision of the session setup\<close>

text \<open>
  C29: The first login of a connection is decided by the pairs of its text. For a text of pairs without
  commas the whole handler, with its scans of the parameter buffer for the three names and the string
  comparison of the session type, is the reference \<open>setup_by_pairs\<close>, which looks the names up among the
  pairs, followed by the response of its status. A login whose session type is not given dereferences
  the null pointer there.
\<close>

theorem login_decided_by_pairs:
  fixes os :: "'d os" and w :: "'d world"
  assumes "login_text (connection w) kvs" "session_reference (connection w) = NoSession"
    and "iscsi_pdu_login_continue (request_of (connection w)) 0 = 0"
  shows "iscsi_request_login_process os w =
    bindR (setup_by_pairs os kvs (w\<lparr>connection := (connection w)\<lparr>
        conn_parameter := login_parameter (connection w) kvs\<rparr>\<rparr>)) (\<lambda>(st, w).
      if st \<noteq> SUCCESS then with_connection w (response_status_only (connection w) st)
      else response_final_login w)"
  using login_process_text [OF assms(1), of os] assms(2,3) by simp

lemma login_decided_by_pairs_witness:
  "iscsi_request_login_process sample_os (sample_login 0x87 0 [(cstr ''InitiatorName'', cstr ''a'')]) = Inl NullPointer"
proof -
  let ?kvs = "[(cstr ''InitiatorName'', cstr ''a'')]" and ?w = "sample_login 0x87 0 [(cstr ''InitiatorName'', cstr ''a'')]"
  have p: "list_all plain_pair ?kvs" by (simp add: plain_pair_def plain_def is_sep_def cstr_def)
  have n: "length (pairs_text ?kvs) = 16" by (simp add: pairs_text_def pair_text_def)
  have t: "login_text (connection ?w) ?kvs" by (rule sample_login_text [OF p]) (simp add: n)
  have c: "iscsi_pdu_login_continue (request_of (connection ?w)) 0 = 0"
    "iscsi_pdu_login_TSIH (request_of (connection ?w)) 0 = 0"
    by (simp_all add: iscsi_pdu_login_continue_def iscsi_pdu_login_TSIH_def)
  have f: "find_pair ?kvs (cstr ''InitiatorName'') = Some (cstr ''InitiatorName'', cstr ''a'')"
    "find_pair ?kvs (cstr ''SessionType'') = None"
    by (simp_all add: find_pair_def cstr_def)
  have "request_of (d\<lparr>conn_parameter := q\<rparr>) = request_of d" for d q by (simp add: request_of_def)
  then show ?thesis
    using login_decided_by_pairs [OF t _ c(1), of sample_os] c f
    by (simp add: setup_by_pairs_def iscsi_session_create_def iscsi_target_create_default_def sample_os_def)
qed

text \<open>
  C30: A login that asks to join an existing session (a TSIH other than 0), on a connection that has no
  session yet. Without an initiator name it is refused with \<open>INITIATOR_ERROR\<close>, and when the session
  object of the process is full with \<open>TOO_MANY_CONNECTION\<close>: the answer is the header of the request
  with that status, the connection gets no session, and the device and the session object stay as they
  are. The session object is full in every well formed world, so in every process that \<open>main\<close> forks
  first. Otherwise, with a session object that a re-forked process inherited, the connection joins that
  session and the login goes on.
\<close>

theorem login_refused:
  fixes os :: "'d os" and w :: "'d world"
  defines "c \<equiv> connection w" and "req \<equiv> request_of (connection w)"
  assumes s: "session_reference c = NoSession" and t: "login_text c kvs"
    and h: "iscsi_pdu_login_continue req 0 = 0" "iscsi_pdu_login_TSIH req 0 \<noteq> 0"
    and r: "room (response_buffer c) 48"
  shows "(if find_pair kvs (cstr ''InitiatorName'') = None \<or> iscsi_session_full (default_session w)
      then \<exists>b. iscsi_request_login_process os w = Inr (48, w\<lparr>connection := c\<lparr>
          conn_parameter := login_parameter c kvs, response_buffer := b\<rparr>\<rparr>) \<and> buffer_ok b
        \<and> contents b = contents (response_buffer c) @ status_message req
            (if find_pair kvs (cstr ''InitiatorName'') = None then INITIATOR_ERROR else TOO_MANY_CONNECTION)
      else iscsi_request_login_process os w = response_final_login (w\<lparr>connection := c\<lparr>
          conn_parameter := login_parameter c kvs, session_reference := DefaultSession,
          connection_id := iscsi_pdu_login_CID req 0\<rparr>\<rparr>))
    \<and> (world_ok w \<longrightarrow> iscsi_session_full (default_session w))"
proof -
  let ?w1 = "w\<lparr>connection := c\<lparr>conn_parameter := login_parameter c kvs\<rparr>\<rparr>"
  let ?st = "if find_pair kvs (cstr ''InitiatorName'') = None then INITIATOR_ERROR else TOO_MANY_CONNECTION"
  have q: "request_of (connection ?w1) = req" by (simp add: request_of_def req_def c_def)
  note process = login_process_text [OF t [unfolded c_def], of os]
  have ok: "world_ok w \<longrightarrow> iscsi_session_full (default_session w)" using s by (simp add: world_ok_def c_def)
  show ?thesis
  proof (cases "find_pair kvs (cstr ''InitiatorName'') = None \<or> iscsi_session_full (default_session w)")
    case True
    have su: "setup_by_pairs os kvs ?w1 = Inr (?st, ?w1)"
      using h True unfolding setup_by_pairs_def q by auto
    have room: "room (response_buffer (connection ?w1)) 48" using r by simp
    obtain b where b: "response_status_only (connection ?w1) ?st = Inr (48, (connection ?w1)\<lparr>response_buffer := b\<rparr>)"
      "buffer_ok b" "contents b = contents (response_buffer c) @ status_message req ?st"
      using status_only_sends [OF room, of ?st] q by auto
    moreover have "?st \<noteq> SUCCESS" by simp
    ultimately have "iscsi_request_login_process os w = Inr (48, w\<lparr>connection := c\<lparr>
        conn_parameter := login_parameter c kvs, response_buffer := b\<rparr>\<rparr>)"
      using process s h(1) su by (simp add: with_connection_def c_def req_def)
    with b True ok show ?thesis by auto
  next
    case False
    then have "setup_by_pairs os kvs ?w1 = Inr (SUCCESS, joined ?w1)"
      using h unfolding setup_by_pairs_def q by auto
    then show ?thesis using process s h(1) False ok q by (auto simp: c_def req_def joined_def)
  qed
qed

lemma login_refused_witness:
  "\<exists>w'. iscsi_request_login_process sample_os (sample_login 0x87 1 sample_login_pairs) = Inr (48, w')
    \<and> session_reference (connection w') = NoSession
    \<and> contents (response_buffer (connection w'))
        = status_message (mem_of (login_pdu 0x87 1 sample_login_pairs)) TOO_MANY_CONNECTION"
proof -
  let ?w = "sample_login 0x87 1 sample_login_pairs"
  have t: "login_text (connection ?w) sample_login_pairs"
    by (rule sample_login_text [OF sample_login_pairs_plain]) (simp add: sample_login_pairs_length)
  have c: "iscsi_pdu_login_continue (request_of (connection ?w)) 0 = 0"
    "iscsi_pdu_login_TSIH (request_of (connection ?w)) 0 \<noteq> 0"
    by (simp_all add: iscsi_pdu_login_continue_def iscsi_pdu_login_TSIH_def)
  have w: "world_ok ?w" by (simp add: world_ok_def sample_buffer_ok iscsi_session_full_def sample_session_def
        login_pdu_def sample_login_pairs_length)
  have r: "room (response_buffer (connection ?w)) 48" by (simp add: sample_buffer_room)
  show ?thesis
    using login_refused [OF _ t c r, of sample_os] w
    by (auto simp: sample_login_found sample_buffer_contents)
qed

definition announces_request :: "iSCSIConnection \<Rightarrow> byte list \<Rightarrow> bool" where
  "announces_request c m \<longleftrightarrow> length m = 48 \<and> plen (mem_of m) 0 = plen (request_of c) 0
     \<and> (frame m \<longleftrightarrow> plen (request_of c) 0 = 48)"

text \<open>
  C37: The short login responses announce the data of the request. The answer to a login that is to be
  continued, and the refusal of a login, are the 48 bytes of a header that keeps the lengths of the
  request: the PDU length a receiver reads from it is that of the request, so it is a frame exactly
  when the request itself had no data. The transmitter, which cuts the response buffer by that length,
  waits for bytes that nobody adds or sends those of the next response.
\<close>

theorem short_login_responses:
  assumes "room (response_buffer c) 48"
  shows "(\<exists>b m. response_partial_login c = Inr (48, c\<lparr>response_buffer := b, stat_sn := stat_sn c + 1\<rparr>)
      \<and> contents b = contents (response_buffer c) @ m \<and> announces_request c m)
    \<and> (\<exists>b m. response_status_only c st = Inr (48, c\<lparr>response_buffer := b\<rparr>)
      \<and> contents b = contents (response_buffer c) @ m \<and> announces_request c m)"
proof -
  have p: "plen (mem_of m) 0 = plen req 0"
    if "mem_of m 4 = req 4" "mem_of m 5 = req 5" "mem_of m 6 = req 6" "mem_of m 7 = req 7" for m req
    using that by (simp add: plen_def dsl_def iscsi_pdu_data_segment_length_def)
  have "plen (mem_of (partial_message req st sn ec)) 0 = plen req 0"
    "plen (mem_of (status_message req st)) 0 = plen req 0" for req st sn ec
    by (rule p; simp add: partial_message_def status_message_def mem_of_def nth_append)+
  then show ?thesis
    using partial_sends [OF assms] status_only_sends [OF assms, of st]
    by (auto simp: announces_request_def frame_def)
qed

lemma short_login_responses_witness:
  "\<exists>b m. response_partial_login (connection (sample_login 0x40 0 sample_login_pairs))
      = Inr (48, (connection (sample_login 0x40 0 sample_login_pairs))\<lparr>response_buffer := b, stat_sn := 6\<rparr>)
    \<and> contents b = m \<and> length m = 48 \<and> \<not> frame m"
proof -
  let ?c = "connection (sample_login 0x40 0 sample_login_pairs)"
  have r: "room (response_buffer ?c) 48" by (simp add: sample_buffer_room)
  have "plen (request_of ?c) 0 = 116"
    by (simp add: plen_def sample_login_pairs_length padn_def)
  moreover have "stat_sn ?c = 5" by (simp add: sample_connection_def)
  moreover obtain b m where "response_partial_login ?c = Inr (48, ?c\<lparr>response_buffer := b, stat_sn := stat_sn ?c + 1\<rparr>)"
    "contents b = contents (response_buffer ?c) @ m" "announces_request ?c m"
    using short_login_responses [OF r] by blast
  ultimately show ?thesis
    by (intro exI [of _ b] exI [of _ m]) (simp add: sample_buffer_contents announces_request_def)
qed

section \<open>Connections without a full feature session\<close>

text \<open>
  A connection that has no session and sends anything but a login is closed: the dispatcher
  changes nothing and returns \<open>SOCKET_TERMINATE\<close>, on which the receiver leaves its loop.
\<close>

theorem only_login_without_session:
  assumes "session_reference (connection w) = NoSession"
    and "iscsi_pdu_opcode (request_of (connection w)) 0 \<noteq> opcode_value LOGIN"
  shows "iscsi_server_process os w = Inr (pdu_status_value SOCKET_TERMINATE, w)"
  using assms by (simp add: iscsi_server_process_def valid_command_numbering_def)

lemma only_login_without_session_witness:
  "iscsi_server_process sample_os ((sample_world 64 (sample_header 1 0xC0 0 10 0 0))\<lparr>connection :=
      (sample_connection 64 (sample_header 1 0xC0 0 10 0 0))\<lparr>session_reference := NoSession\<rparr>\<rparr>)
    = Inr (-1, (sample_world 64 (sample_header 1 0xC0 0 10 0 0))\<lparr>connection :=
      (sample_connection 64 (sample_header 1 0xC0 0 10 0 0))\<lparr>session_reference := NoSession\<rparr>\<rparr>)"
  using only_login_without_session [of "(sample_world 64 (sample_header 1 0xC0 0 10 0 0))\<lparr>connection :=
      (sample_connection 64 (sample_header 1 0xC0 0 10 0 0))\<lparr>session_reference := NoSession\<rparr>\<rparr>" sample_os]
  by simp

text \<open>
  C39: In a discovery session every request but logout and text is rejected with \<open>PROTOCOL_ERROR\<close>, and
  in a normal session a second login is, unless its command number is wrong: then the request is
  ignored, without an answer and without any effect. In both cases the device is not touched.
\<close>

theorem discovery_rejects:
  fixes os :: "'d os" and w :: "'d world"
  defines "c \<equiv> connection w" and "opc \<equiv> iscsi_pdu_opcode (request_of (connection w)) 0"
    and "r \<equiv> \<lparr>rej_reason = PROTOCOL_ERROR, rej_data = None, rej_length = 0\<rparr>"
  assumes s: "session_reference c \<noteq> NoSession" "is_full_feature_phase (default_session w) \<noteq> 0"
    and o: "opc \<noteq> opcode_value LOGOUT" "opc \<noteq> opcode_value TEXT"
      "is_discovery (default_session w) \<noteq> 0 \<or> opc = opcode_value LOGIN"
    and room: "room (response_buffer c) 48"
  shows "if fst (valid_command_numbering w)
    then \<exists>v b w1. w1 = snd (valid_command_numbering w) \<and> device w1 = device w
      \<and> iscsi_server_process os w = Inr (v, w1\<lparr>connection := c\<lparr>response_buffer := b, stat_sn := stat_sn c + 1\<rparr>\<rparr>)
      \<and> contents b = contents (response_buffer c) @ reject_message c r
    else iscsi_server_process os w = Inr (pdu_status_value PDU_IGNORE, w)"
proof -
  obtain ok w1 where n: "valid_command_numbering w = (ok, w1)" by fastforce
  note w1 = numbering_parts [OF n]
  show ?thesis
  proof (cases ok)
    case False
    then have "w1 = w" using n by (auto simp: valid_command_numbering_def Let_def split: if_splits)
    then show ?thesis using n False by (simp add: iscsi_server_process_def)
  next
    case True
    have g: "reject_good c r" by (simp add: reject_good_def r_def)
    have l: "length (reject_message c r) = 48" using reject_lengths(5) [OF g refl] by (simp add: r_def)
    obtain v b where b: "iscsi_request_reject c PROTOCOL_ERROR None 0
        = Inr (v, c\<lparr>response_buffer := b, stat_sn := stat_sn c + 1\<rparr>)"
      "contents b = contents (response_buffer c) @ reject_message c r"
      using after_pairD [OF reject.sends [OF g, unfolded reject_send_def]] room by (auto simp: l) (auto simp: r_def)
    have "iscsi_server_process os w = with_connection w1 (iscsi_request_reject c PROTOCOL_ERROR None 0)"
      using s o w1 True by (auto simp: iscsi_server_process_def n Let_def c_def opc_def)
    with b have "iscsi_server_process os w = Inr (v, w1\<lparr>connection := c\<lparr>
        response_buffer := b, stat_sn := stat_sn c + 1\<rparr>\<rparr>)" by (simp add: with_connection_def)
    with b n True w1 show ?thesis by auto
  qed
qed

abbreviation sample_discovery :: "nat world" where
  "sample_discovery \<equiv> (sample_world 64 (sample_header 1 0xC0 0 10 0 0))\<lparr>
     default_session := sample_session\<lparr>is_discovery := 1\<rparr>\<rparr>"

lemma discovery_rejects_witness:
  "\<exists>v w'. iscsi_server_process sample_os sample_discovery = Inr (v, w')
    \<and> device w' = 0 \<and> take 3 (contents (response_buffer (connection w'))) = [0x3F, 0x80, 4]"
proof -
  let ?w = sample_discovery
  have n: "valid_command_numbering ?w = (True, ?w)"
    by (simp add: valid_command_numbering_def iscsi_pdu_has_cmdSN_def)
  have s: "session_reference (connection ?w) \<noteq> NoSession" "is_full_feature_phase (default_session ?w) \<noteq> 0"
    by simp (simp add: sample_session_def)
  have o: "iscsi_pdu_opcode (request_of (connection ?w)) 0 \<noteq> opcode_value LOGOUT"
    "iscsi_pdu_opcode (request_of (connection ?w)) 0 \<noteq> opcode_value TEXT"
    "is_discovery (default_session ?w) \<noteq> 0 \<or> iscsi_pdu_opcode (request_of (connection ?w)) 0 = opcode_value LOGIN"
    by simp_all
  have r: "room (response_buffer (connection ?w)) 48" by (simp add: sample_buffer_room)
  show ?thesis
    using discovery_rejects [OF s o r, of sample_os] n
    by (auto simp: sample_buffer_contents reject_message_def response_bhs_def)
qed

end
