(* ===== verification/Properties_Transport.thy ===== *)
theory Properties_Transport
  imports Iscsi_Write Iscsi_Fairness Properties_Login
begin

text \<open>
  The properties of the transport: what the transmitter sends, the two threads of a connection on the
  response buffer in every interleaving, and requests and answers between the socket and the handlers.
\<close>

section \<open>Sending\<close>

text \<open>
  C28: The transmitter sends the messages in order, and of each what the network takes. When the response
  buffer starts with frames and no \<open>send\<close> fails, as many rounds as there are frames hand over their
  bytes in order, of each frame the part that the one \<open>send\<close> took, and leave exactly the rest of the
  buffer. What a short \<open>send\<close> leaves of a frame is never sent.
\<close>

theorem transmitter_in_order:
  assumes "buffer_ok (response_buffer (connection w))"
    and "contents (response_buffer (connection w)) = concat fs @ rest" "\<forall>f \<in> set fs. frame f"
    and "\<forall>f \<in> set fs. 0 \<le> sint (send f)"
  shows "\<exists>w'. transmit_rounds (length fs) send w = Inr (w', concat (map (taken send) fs))
    \<and> buffer_ok (response_buffer (connection w')) \<and> contents (response_buffer (connection w')) = rest"
  using assms by (rule transmit_series_taken)

abbreviation sample_answer :: "byte list" where
  "sample_answer \<equiv> logout_message (sample_connection 64 []) ()"

definition answered_world :: "nat world" where
  "answered_world = (sample_world 64 [])\<lparr>connection :=
     (sample_connection 64 [])\<lparr>response_buffer := sample_buffer (sample_answer @ sample_answer @ [1])\<rparr>\<rparr>"

lemma answered_world_facts:
  "buffer_ok (response_buffer (connection answered_world))"
  "contents (response_buffer (connection answered_world)) = concat [sample_answer, sample_answer] @ [1]"
  "length sample_answer = 48" "frame sample_answer"
proof -
  show l: "length sample_answer = 48" by (simp add: logout_message_def)
  show "frame sample_answer" by (rule logout.framed) (simp add: logout_good_def)
  show "buffer_ok (response_buffer (connection answered_world))"
    "contents (response_buffer (connection answered_world)) = concat [sample_answer, sample_answer] @ [1]"
    by (simp_all add: answered_world_def sample_buffer_ok sample_buffer_contents l)
qed

lemma transmitter_in_order_witness:
  "\<exists>w'. transmit_rounds 2 (\<lambda>bs. 40) answered_world = Inr (w', take 40 sample_answer @ take 40 sample_answer)
    \<and> contents (response_buffer (connection w')) = [1]"
proof -
  have f: "\<forall>f \<in> set [sample_answer, sample_answer]. frame f"
    "\<forall>f \<in> set [sample_answer, sample_answer]. 0 \<le> sint (40 :: cint)"
    using answered_world_facts(4) by simp_all
  have "length [sample_answer, sample_answer] = 2"
    "concat (map (taken (\<lambda>bs. 40)) [sample_answer, sample_answer]) = take 40 sample_answer @ take 40 sample_answer"
    by (simp_all add: taken_def)
  with transmitter_in_order [OF answered_world_facts(1,2) f] show ?thesis by metis
qed

text \<open>
  A waiting handler is released. When a handler waits for space and the network takes the frames
  in the buffer, the transmitter needs only as many rounds as there are frames before every request
  for up to the whole buffer succeeds.
\<close>

theorem waiting_handler_released:
  assumes "buffer_ok (response_buffer (connection w))"
    and "contents (response_buffer (connection w)) = concat fs" "\<forall>f \<in> set fs. frame f"
    and "\<forall>f \<in> set fs. send f = word_of_nat (length f)"
    and "sint len = int n" "48 \<le> n" "n \<le> 4194304"
  shows "\<exists>w' x. transmit_rounds (length fs) send w = Inr (w', concat fs)
    \<and> response_acquire (connection w') len = Inr x"
proof -
  have "contents (response_buffer (connection w)) = concat fs @ []" using assms(2) by simp
  from transmit_series [OF assms(1) this assms(3,4)] obtain w' where
    w': "transmit_rounds (length fs) send w = Inr (w', concat fs)"
    "buffer_ok (response_buffer (connection w'))" "contents (response_buffer (connection w')) = []"
    by auto
  have "fill (response_buffer (connection w')) = 0" using w'(3) by (simp add: fill_length del: length_contents)
  then have "room (response_buffer (connection w')) n" using assms(7) w'(2) by (simp add: room_def)
  from response_acquire_ok [OF this assms(5,6)] w'(1) show ?thesis by blast
qed

definition emptied_world :: "nat world" where
  "emptied_world = (sample_world 64 [])\<lparr>connection :=
     (sample_connection 64 [])\<lparr>response_buffer := sample_buffer (sample_answer @ sample_answer)\<rparr>\<rparr>"

lemma waiting_handler_released_witness:
  "response_acquire (connection emptied_world) 4194304 = Inl Blocked
    \<and> (\<exists>w' x. transmit_rounds 2 (\<lambda>bs. word_of_nat (length bs)) emptied_world = Inr (w', sample_answer @ sample_answer)
      \<and> response_acquire (connection w') 4194304 = Inr x)"
proof -
  note l = answered_world_facts(3)
  have b: "buffer_ok (response_buffer (connection emptied_world))"
    by (simp add: emptied_world_def sample_buffer_ok l)
  have c: "contents (response_buffer (connection emptied_world)) = concat [sample_answer, sample_answer]"
    by (simp add: emptied_world_def sample_buffer_contents l)
  have "\<not> room (response_buffer (connection emptied_world)) 4194304"
    by (simp add: emptied_world_def room_def sample_buffer_fill l)
  then have "response_acquire (connection emptied_world) 4194304 = Inl Blocked"
    using response_acquire_blocked [OF b, of 4194304 4194304] by simp
  moreover have f: "\<forall>f \<in> set [sample_answer, sample_answer]. frame f"
    "\<forall>f \<in> set [sample_answer, sample_answer]. word_of_nat (length f) = (word_of_nat (length f) :: cint)"
    using answered_world_facts(4) by simp_all
  from waiting_handler_released [OF b c f, of 4194304 4194304]
  have "\<exists>w' x. transmit_rounds 2 (\<lambda>bs. word_of_nat (length bs)) emptied_world = Inr (w', sample_answer @ sample_answer)
      \<and> response_acquire (connection w') 4194304 = Inr x"
    by (simp add: numeral_2_eq_2)
  ultimately show ?thesis by blast
qed

text \<open>
  C32: A failed \<open>send\<close> stops the connection for good. The transmitter leaves its loop with the semaphore
  of the response buffer still held, so from then on every handler that answers waits for ever.
\<close>

theorem failed_send_blocks_answers:
  assumes "buffer_ok (response_buffer (connection w))" "complete (contents (response_buffer (connection w)))"
    and "\<forall>bs. sint (send bs) < 0" "sint len \<le> 4194304"
  shows "\<exists>w'. transmit_round send w = Inr (False, w', [])
    \<and> response_acquire (connection w') len = Inl Blocked"
proof -
  obtain w' where "transmit_round send w = Inr (False, w', [])" "block (response_buffer (connection w')) = 0"
    by (rule transmit_failure [OF assms(1-3)])
  then show ?thesis using held_lock_blocks [OF _ assms(4)] by blast
qed

lemma failed_send_blocks_answers_witness:
  "\<exists>w'. transmit_round (\<lambda>_. - 1) answered_world = Inr (False, w', [])
    \<and> response_acquire (connection w') 48 = Inl Blocked"
proof -
  have "plen (mem_of (contents (response_buffer (connection answered_world)))) 0 = 48"
    using answered_world_facts(2,3,4) plen_frame [of "response_buffer (connection answered_world)" sample_answer]
      plen_contents [of "response_buffer (connection answered_world)"]
    by (simp add: fill_length del: length_contents)
  then have "complete (contents (response_buffer (connection answered_world)))"
    using answered_world_facts(2,3) by (simp add: complete_def del: length_contents)
  from failed_send_blocks_answers [OF answered_world_facts(1) this, of "\<lambda>_. - 1" 48] show ?thesis by simp
qed


section \<open>A ping that is cut\<close>

lemma and_3_int: "0 \<le> i \<Longrightarrow> i < 4 \<Longrightarrow> i AND 3 = (i :: int)"
  using take_bit_int_eq_self [of i 2] by (simp add: take_bit_eq_mask mask_eq_exp_minus_1)

lemma pad_size_negative:
  fixes x :: cint
  assumes "sint x = - int k" "k < 1073741824"
  shows "sint ((iscsi_pdu_padded_length x - x) AND 3) = int (k mod 4)"
proof -
  have "sint (x + 3) = sint x + sint (3 :: cint)" by (rule sint_plus) (use assms in simp_all)
  moreover have "sint ((x + 3) AND NOT 3) = sint (x + 3) AND NOT 3" by (simp add: signed_and_eq signed_not_eq)
  ultimately have p: "sint (iscsi_pdu_padded_length x) = 4 * ((3 - int k) div 4)"
    using assms(1) by (simp add: iscsi_pdu_padded_length_def int_and_not_3 flip: int_and_not_3)
  have k: "4 * ((3 - int k) div 4) + int k = int k mod 4" by presburger
  have "sint (iscsi_pdu_padded_length x - x) = sint (iscsi_pdu_padded_length x) - sint x"
    by (rule sint_minus) (use p assms k in simp_all)
  then have "sint (iscsi_pdu_padded_length x - x) = int k mod 4" using p assms(1) k by simp
  then show ?thesis using and_3_int [of "int k mod 4"] by (simp add: signed_and_eq zmod_int)
qed


lemma cleared_bytes:
  assumes "below p (bdata b) m" "p = fill b" "k \<le> p" "j \<le> k"
  shows "bytes_of (blit m (p - k) (\<lambda>_. 0) j) 0 p
    = take (p - k) (contents b) @ replicate j 0 @ drop (p - k + j) (contents b)"
  using assms by (intro nth_equalityI) (auto simp: below_def blit_def nth_append contents_nth)

text \<open>The answer before it is padded, with the bytes that wait before it as they were.\<close>

lemma cut_ping_built:
  fixes c :: iSCSIConnection
  defines "mr \<equiv> max_receive_data_segment_length (conn_parameter c)"
    and "d \<equiv> iscsi_pdu_data_segment_length (request_of c) 0"
  assumes r: "room (response_buffer c) (48 + n)" and len: "sint (48 + mr) = int (48 + n)"
    and mr: "sint mr = int n" "c_min mr d = mr"
  obtains m where "below (fill (response_buffer c)) (bdata (response_buffer c)) m"
    "iscsi_request_nop_out_process c = bindR (iscsi_pdu_pad0 m (fill (response_buffer c)) (mr - d)) (\<lambda>m.
      Inr (48 + mr, response_release (c\<lparr>response_buffer := (response_buffer c)\<lparr>block := 0, bdata := reserved c (48 + n)\<rparr>,
        stat_sn := stat_sn c + 1\<rparr>) m (48 + mr)))"
proof -
  let ?p = "fill (response_buffer c)"
  have p: "?p + (48 + n) \<le> 4194304" using r by (simp add: room_def)
  have req: "request_of (c\<lparr>response_buffer := b\<rparr>) = request_of c" for b by (simp add: request_of_def)
  have data: "\<exists>m'. iscsi_pdu_set_data_segment m ?p (iscsi_pdu_data (c\<lparr>response_buffer := b, stat_sn := s\<rparr>)) mr = Inr m'" for m b s
    using p mr by (simp add: iscsi_pdu_set_data_segment_def c_memcpy_ok iscsi_pdu_data_def request_ptr_def
        iscsi_buffer_data_def padd_def)
  have old: "below ?p (bdata (response_buffer c)) (reserved c (48 + n))"
    by (simp add: reserved_def below_def blit_out)
  let ?m = "iscsi_byte_int2byte (iscsi_byte_int2byte (iscsi_byte_int2byte
     (iscsi_pdu_set_target_transfer_tag
        (iscsi_pdu_set_initiator_task_tag (iscsi_pdu_set_final (iscsi_pdu_set_opcode (reserved c (48 + n)) ?p NOP_IN) ?p 1)
           ?p (iscsi_pdu_initiator_task_tag (request_of c) 0))
        ?p (iscsi_pdu_target_transfer_tag (request_of c) 0))
     (?p + 24) (stat_sn c)) (?p + 28) (expected_cmd_sn c)) (?p + 32) (iscsi_connection_max_cmd_sn c)"
  obtain m where m: "iscsi_pdu_set_data_segment ?m ?p (iscsi_pdu_data (c\<lparr>response_buffer :=
      (response_buffer c)\<lparr>block := 0, bdata := reserved c (48 + n)\<rparr>, stat_sn := stat_sn c + 1\<rparr>)) mr = Inr m"
    using data by blast
  have "below ?p (bdata (response_buffer c)) ?m" by (intro below_stores old)
  with m have "below ?p (bdata (response_buffer c)) m" by (rule below_data_segment)
  moreover have "iscsi_request_nop_out_process c = bindR (iscsi_pdu_pad0 m ?p (mr - d)) (\<lambda>m. Inr (48 + mr,
      response_release (c\<lparr>response_buffer := (response_buffer c)\<lparr>block := 0, bdata := reserved c (48 + n)\<rparr>,
        stat_sn := stat_sn c + 1\<rparr>) m (48 + mr)))"
    using m mr(2) response_acquire_ok [OF r len] unfolding mr_def d_def
    by (simp add: iscsi_request_nop_out_process_def Let_def req
        iscsi_pdu_set_response_header_def iscsi_connection_advance_stat_sn_def iscsi_connection_max_cmd_sn_def)
  ultimately show thesis by (rule that)
qed

lemma cut_ping_cleared:
  fixes c :: iSCSIConnection and l :: cint
  assumes r: "room (response_buffer c) (48 + mr)" and m: "below (fill (response_buffer c)) (bdata (response_buffer c)) m"
    and l: "sint l = int (48 + mr)" and k: "k \<le> fill (response_buffer c)"
  defines "m' \<equiv> blit m (fill (response_buffer c) - k) (\<lambda>_. 0) (k mod 4)" and "q \<equiv> contents (response_buffer c)"
  shows "\<exists>f. length f = 48 + mr \<and> contents (response_buffer
      (response_release (c\<lparr>response_buffer := (response_buffer c)\<lparr>block := 0, bdata := x\<rparr>, stat_sn := y\<rparr>) m' l))
    = take (length q - k) q @ replicate (k mod 4) 0 @ drop (length q - k + k mod 4) q @ f"
proof -
  let ?p = "fill (response_buffer c)" and ?b = "(response_buffer c)\<lparr>block := 0, bdata := m'\<rparr>"
  have f: "fill ?b = ?p" by (simp add: fill_def)
  have "block ?b = 0" "0 \<le> sint (blength ?b)" "fill ?b + (48 + mr) \<le> 4194304"
    using r f by (simp_all add: room_def buffer_ok_def)
  note rel = release_ok(3) [OF this l]
  have "k mod 4 \<le> k" by simp
  then have "contents ?b = take (?p - k) q @ replicate (k mod 4) 0 @ drop (?p - k + k mod 4) q"
    using cleared_bytes [OF m refl k] unfolding contents_def [of ?b] f by (simp add: q_def m'_def)
  with rel show ?thesis by (intro exI [of _ "bytes_of m' ?p (48 + mr)"]) (simp add: response_release_def f q_def)
qed

text \<open>
  C11: A ping with more data than the limit of the connection damages the answers that wait. The NOP-In
  is cut to the limit, but \<open>iscsi_pdu_pad0\<close> gets the difference of the two lengths, \<open>- k\<close>, as if it were the
  length of the answer: unless \<open>k\<close> is a multiple of 4, the one to three bytes that start \<open>k\<close> bytes before
  the end of the waiting bytes become 0 and the answer itself is appended without padding. When fewer than \<open>k\<close>
  bytes wait the padding is written before the array of the response buffer.
\<close>

theorem cut_ping_overwrites:
  fixes c :: iSCSIConnection
  defines "waiting \<equiv> contents (response_buffer c)"
  assumes r: "room (response_buffer c) (48 + mr)"
    and mr: "sint (max_receive_data_segment_length (conn_parameter c)) = int mr"
    and d: "dsl (request_of c) 0 = mr + k" "k mod 4 \<noteq> 0"
  shows "if k \<le> length waiting
    then \<exists>v c' f. iscsi_request_nop_out_process c = Inr (v, c') \<and> length f = 48 + mr
      \<and> contents (response_buffer c') =
          take (length waiting - k) waiting @ replicate (k mod 4) 0 @ drop (length waiting - k + k mod 4) waiting @ f
    else iscsi_request_nop_out_process c = Inl OutOfBounds"
proof -
  let ?mr = "max_receive_data_segment_length (conn_parameter c)" and ?d = "iscsi_pdu_data_segment_length (request_of c) 0"
  let ?p = "fill (response_buffer c)"
  have p: "?p + (48 + mr) \<le> 4194304" using r by (simp add: room_def)
  have sd: "sint ?d = int mr + int k" using d(1) by (simp add: sint_dsl)
  have "dsl (request_of c) 0 < 16777216" by (rule dsl_bound)
  then have kb: "k < 16777216" using d(1) by simp
  have min: "c_min ?mr ?d = ?mr" using mr sd d(2) by (auto simp: c_min_def)
  have len: "sint (48 + ?mr) = int (48 + mr)" using mr p by (simp add: c_arith)
  have x: "sint (?mr - ?d) = - int k" using mr sd p kb by (simp add: c_arith)
  have pad: "sint ((iscsi_pdu_padded_length (?mr - ?d) - (?mr - ?d)) AND 3) = int (k mod 4)"
    by (rule pad_size_negative [OF x]) (use kb in simp)
  obtain m where m: "below ?p (bdata (response_buffer c)) m" and
    nop: "iscsi_request_nop_out_process c = bindR (iscsi_pdu_pad0 m ?p (?mr - ?d)) (\<lambda>m. Inr (48 + ?mr,
      response_release (c\<lparr>response_buffer := (response_buffer c)\<lparr>block := 0, bdata := reserved c (48 + mr)\<rparr>,
        stat_sn := stat_sn c + 1\<rparr>) m (48 + ?mr)))"
    using cut_ping_built [OF r len mr min] .
  let ?c = "\<lambda>m. response_release (c\<lparr>response_buffer := (response_buffer c)\<lparr>block := 0, bdata := reserved c (48 + mr)\<rparr>,
      stat_sn := stat_sn c + 1\<rparr>) m (48 + ?mr)"
  show ?thesis
  proof (cases "k \<le> ?p")
    case True
    let ?m = "blit m (?p - k) (\<lambda>_. 0) (k mod 4)"
    have "k mod 4 \<le> k" by simp
    then have "iscsi_pdu_pad0 m ?p (?mr - ?d) = Inr ?m"
      using pad x True p by (simp add: iscsi_pdu_pad0_def Let_def c_memset_ok flip: of_nat_diff)
    then have n: "iscsi_request_nop_out_process c = Inr (48 + ?mr, ?c ?m)" by (simp add: nop)
    with True cut_ping_cleared [OF r m len True] show ?thesis by (auto simp: waiting_def)
  next
    case False
    then have "iscsi_pdu_pad0 m ?p (?mr - ?d) = Inl OutOfBounds"
      using pad x d(2) by (simp add: iscsi_pdu_pad0_def Let_def c_memset_def)
    with False show ?thesis by (simp add: nop waiting_def)
  qed
qed

lemma cut_ping_overwrites_witness:
  "\<exists>v c' f. iscsi_request_nop_out_process ((sample_connection 64 (sample_header 0 0x80 65 7 0 0 @ replicate 65 1))\<lparr>
        response_buffer := sample_buffer [1, 2, 3, 4]\<rparr>) = Inr (v, c')
    \<and> contents (response_buffer c') = [1, 2, 3, 0] @ f"
proof -
  let ?bs = "sample_header 0 0x80 65 7 0 0 @ replicate 65 1"
  let ?c = "(sample_connection 64 ?bs)\<lparr>response_buffer := sample_buffer [1, 2, 3, 4]\<rparr>"
  have q: "request_of ?c = mem_of ?bs" by (simp add: request_of_def)
  have r: "room (response_buffer ?c) (48 + 64)" by (simp add: sample_buffer_room)
  have m: "sint (max_receive_data_segment_length (conn_parameter ?c)) = int 64" by (simp add: sample_parameter_def)
  have d: "dsl (request_of ?c) 0 = 64 + 1" unfolding q by simp
  have w: "contents (response_buffer ?c) = [1, 2, 3, 4]" by (simp add: sample_buffer_contents)
  from cut_ping_overwrites [OF r m d] show ?thesis unfolding w by auto
qed

section \<open>The two threads in every interleaving\<close>

text \<open>
  C12: The threads implement a channel of messages. However the statements of the transmitter and of the
  handlers that answer follow each other, the reads of the transmitter without the semaphore included,
  the run is a run of the abstract channel, which takes whole messages in and gives them out in
  order: the buffer always holds the messages of the channel, preceded at most by the one that was
  sent and not yet flushed, and the network has got, of the first messages, what each \<open>send\<close> took.
\<close>

theorem threads_refine_channel:
  assumes "buffer_ok b" "contents b = concat q" "\<forall>f \<in> set (q @ fs). frame f"
    and "runs send (idle b fs []) s"
  shows "\<exists>q' k. (channel send)\<^sup>*\<^sup>* (q, fs, []) (q', answers s, wire s)
    \<and> wire s = concat (map (taken send) (take k (q @ fs)))
    \<and> (contents (line_buffer s) = concat q'
      \<or> (\<exists>f len. (transmitter s = RELEASING len \<or> transmitter s = FLUSHING len)
          \<and> contents (line_buffer s) = f @ concat q'))"
proof -
  from runs_channel [OF assms(4) line_ok_idle [OF assms(1-3)]] obtain gone q' where
    l: "line_ok send s gone q'" "gone @ q' @ answers s = q @ fs"
    "(channel send)\<^sup>*\<^sup>* (q, fs, []) (q', answers s, wire s)" by auto
  have "gone = take (length gone) (q @ fs)" using l(2) by (metis append_eq_conv_conj)
  then have "wire s = concat (map (taken send) (take (length gone) (q @ fs)))"
    using l(1) by (simp add: line_ok_def)
  moreover have "contents (line_buffer s) = concat q' \<or> (\<exists>f len. (transmitter s = RELEASING len
      \<or> transmitter s = FLUSHING len) \<and> contents (line_buffer s) = f @ concat q')"
    using l(1) by (cases "transmitter s") (auto simp: line_ok_def)
  ultimately show ?thesis using l(3) by blast
qed

lemma sample_line:
  "buffer_ok (sample_buffer sample_answer)" "contents (sample_buffer sample_answer) = concat [sample_answer]"
  "\<forall>f \<in> set ([sample_answer] @ [sample_answer]). frame f"
  using answered_world_facts(3,4) by (simp_all add: sample_buffer_ok sample_buffer_contents)

abbreviation sample_start :: line where
  "sample_start \<equiv> idle (sample_buffer sample_answer) [sample_answer] []"

definition sample_writing :: line where
  "sample_writing = \<lparr>line_buffer = (sample_buffer sample_answer)\<lparr>block := 0,
       bdata := blit (mem_of sample_answer) 48 (\<lambda>_. 0) 48\<rparr>,
     transmitter = CHECKING, handler = WRITING 48, answers = [sample_answer], wire = []\<rparr>"

lemma sample_acquires: "runs send sample_start sample_writing"
proof -
  have r: "room (sample_buffer sample_answer) 48" and f: "fill (sample_buffer sample_answer) = 48"
    using answered_world_facts(3) by (simp_all add: sample_buffer_room sample_buffer_fill)
  have "iscsi_buffer_acquire_lock_for_length (line_buffer sample_start) (word_of_nat (length sample_answer))
      = Inr (Some 48, line_buffer sample_writing)"
    using acquire_ok [OF r, of 48] f by (simp add: answered_world_facts(3) sample_writing_def)
  from runs_acquire [OF _ _ this, of "[]" send] show ?thesis by (simp add: sample_writing_def idle_def)
qed

lemma sample_acquire: "\<exists>s. runs send sample_start s \<and> handler s = WRITING 48"
  using sample_acquires [of send] by (intro exI [of _ sample_writing]) (simp add: sample_writing_def)

lemma threads_refine_channel_witness:
  "\<exists>q' s. runs (\<lambda>bs. word_of_nat (length bs)) sample_start s \<and> handler s = WRITING 48
    \<and> (channel (\<lambda>bs. word_of_nat (length bs)))\<^sup>*\<^sup>* ([sample_answer], [sample_answer], []) (q', answers s, wire s)"
proof -
  obtain s where s: "runs (\<lambda>bs. word_of_nat (length bs)) sample_start s" "handler s = WRITING 48"
    using sample_acquire by blast
  from threads_refine_channel [OF sample_line s(1)] s show ?thesis by blast
qed

text \<open>
  C26: The semaphore guards the buffer. In every interleaving at most one thread holds it; the length
  that the transmitter read without it is still the length of the first PDU of the buffer, and that
  PDU is still complete, when the transmitter locks and sends; the assertion of \<open>iscsi_buffer_flush\<close> holds
  when it is reached; and the place a handler writes to is the end of the buffer, with space for
  its message.
\<close>

theorem semaphore_guards:
  assumes "buffer_ok b" "contents b = concat q" "\<forall>f \<in> set (q @ fs). frame f"
    and "runs send (idle b fs []) s"
  shows "\<not> (sending (transmitter s) \<and> handler s \<noteq> WAITING)
    \<and> (\<forall>len. transmitter s = LOCKING len \<or> transmitter s = SENDING len \<longrightarrow>
        iscsi_pdu_length (bdata (line_buffer s)) 0 = len
        \<and> iscsi_pdu_valid (bdata (line_buffer s)) 0 (iscsi_buffer_length (line_buffer s)))
    \<and> (\<forall>len. transmitter s = FLUSHING len \<longrightarrow> sint len \<le> sint (blength (line_buffer s)))
    \<and> (\<forall>p. handler s = WRITING p \<longrightarrow> p = fill (line_buffer s) \<and> p + length (hd (answers s)) \<le> 4194304)"
proof -
  from runs_channel [OF assms(4) line_ok_idle [OF assms(1-3)]] obtain gone q' where
    l: "line_ok send s gone q'" by blast
  have "iscsi_pdu_length (bdata (line_buffer s)) 0 = len
      \<and> iscsi_pdu_valid (bdata (line_buffer s)) 0 (iscsi_buffer_length (line_buffer s))"
    if "transmitter s = LOCKING len \<or> transmitter s = SENDING len" for len
    using line_front [OF l that] by blast
  moreover have "sint len \<le> sint (blength (line_buffer s))" if "transmitter s = FLUSHING len" for len
    by (rule line_flush [OF l that])
  ultimately show ?thesis using l by (auto simp: line_ok_def)
qed

lemma semaphore_guards_witness:
  "\<exists>s. runs (\<lambda>bs. word_of_nat (length bs)) sample_start s \<and> handler s = WRITING 48
    \<and> \<not> sending (transmitter s) \<and> 48 = fill (line_buffer s)"
proof -
  obtain s where s: "runs (\<lambda>bs. word_of_nat (length bs)) sample_start s" "handler s = WRITING 48"
    using sample_acquire by blast
  from semaphore_guards [OF sample_line s(1)] s show ?thesis by auto
qed


text \<open>
  C13: Every answer is delivered. Whatever state the threads have reached, as long as the network takes
  each frame whole they can go on to the state in which all answers are given, the buffer is empty,
  both threads wait for work, and the network has got exactly all the messages in order; so neither
  a full buffer nor any order of the steps brings the connection to a halt.
\<close>

theorem answers_delivered:
  assumes "buffer_ok b" "contents b = concat q" "\<forall>f \<in> set (q @ fs). frame f"
    and "\<forall>f \<in> set fs. length f \<le> 4194304" "takes_all send" "runs send (idle b fs []) s"
  shows "\<exists>t. runs send s t \<and> answers t = [] \<and> handler t = WAITING \<and> transmitter t = CHECKING
    \<and> contents (line_buffer t) = [] \<and> wire t = concat (q @ fs)"
proof -
  note net = taken_all [OF assms(5,3)]
  from delivered [OF assms(1-4) net(1) assms(6)] show ?thesis unfolding net(2) .
qed

lemma takes_all_lengths: "takes_all (\<lambda>bs. word_of_nat (length bs))"
  by (simp add: takes_all_def)

lemma answers_delivered_witness:
  "\<exists>s t. handler s = WRITING 48 \<and> runs (\<lambda>bs. word_of_nat (length bs)) s t
    \<and> contents (line_buffer t) = [] \<and> wire t = sample_answer @ sample_answer"
proof -
  obtain s where s: "runs (\<lambda>bs. word_of_nat (length bs)) sample_start s" "handler s = WRITING 48"
    using sample_acquire by blast
  have l: "\<forall>f \<in> set [sample_answer]. length f \<le> 4194304" by (simp add: answered_world_facts(3))
  from answers_delivered [OF sample_line l takes_all_lengths s(1)] s(2) show ?thesis by auto
qed

text \<open>
  C27: Every fair run delivers every answer. The transmitter polls for ever and a handler asks for space as
  often as it finds none, so a run of the two threads never ends; but as long as no \<open>send\<close> fails there
  is always a step to make, and in every endless run in which a thread that can step infinitely often
  does so infinitely often, and in which a handler that writes finishes its answer, from some point on all answers are given, the buffer
  is empty, the handler waits, the transmitter polls, and the network has got, in order, of every
  message the part that its \<open>send\<close> took.
\<close>

theorem fair_runs_deliver:
  assumes "buffer_ok b" "contents b = concat q" "\<forall>f \<in> set (q @ fs). frame f"
    and "\<forall>f \<in> set fs. length f \<le> 4194304" "\<forall>f \<in> set (q @ fs). 0 \<le> sint (send f)"
  shows "(\<forall>s. runs send (idle b fs []) s \<longrightarrow> (\<exists>t. interleaved send s t))
    \<and> (\<forall>who \<sigma>. \<sigma> 0 = idle b fs [] \<longrightarrow> fair_run send who \<sigma> \<longrightarrow>
        (\<exists>n. \<forall>i \<ge> n. answers (\<sigma> i) = [] \<and> handler (\<sigma> i) = WAITING \<and> transmitter (\<sigma> i) = CHECKING
          \<and> contents (line_buffer (\<sigma> i)) = [] \<and> wire (\<sigma> i) = concat (map (taken send) (q @ fs))))"
proof -
  have net: "accepts send (q @ fs)" using assms(5) by (simp add: accepts_def)
  show ?thesis
    using idle_never_stuck [OF assms(1-3) net] fair_delivers [OF assms(1-4) net] by blast
qed

lemma sample_fair_run:
  "\<exists>who \<sigma>. \<sigma> 0 = sample_start \<and> fair_run (\<lambda>_. 40) who \<sigma>"
  using fair_run_exists [OF sample_line(1,2), of "[sample_answer]" "\<lambda>_. 40"] sample_line(3)
  by (simp add: answered_world_facts(3) accepts_def)

lemma fair_runs_deliver_witness:
  "\<exists>who \<sigma>. fair_run (\<lambda>_. 40) who \<sigma> \<and> answers (\<sigma> 0) = [sample_answer]
    \<and> (\<exists>n. \<forall>i \<ge> n. transmitter (\<sigma> i) = CHECKING \<and> wire (\<sigma> i) = take 40 sample_answer @ take 40 sample_answer)"
proof -
  have l: "\<forall>f \<in> set [sample_answer]. length f \<le> 4194304"
    "\<forall>f \<in> set ([sample_answer] @ [sample_answer]). 0 \<le> sint (40 :: cint)"
    by (simp_all add: answered_world_facts(3))
  have t: "concat (map (taken (\<lambda>_. 40)) ([sample_answer] @ [sample_answer])) = take 40 sample_answer @ take 40 sample_answer"
    by (simp add: taken_def)
  obtain who \<sigma> where r: "\<sigma> 0 = sample_start" "fair_run (\<lambda>_. 40) who \<sigma>" using sample_fair_run by blast
  from fair_runs_deliver [OF sample_line l] r have "\<exists>n. \<forall>i \<ge> n. transmitter (\<sigma> i) = CHECKING
      \<and> wire (\<sigma> i) = take 40 sample_answer @ take 40 sample_answer"
    unfolding t by meson
  then show ?thesis using r by (intro exI [of _ who] exI [of _ \<sigma>]) simp
qed

lemma long_series:
  fixes tag :: cint
  assumes "transfer_ok e mx d"
  shows "\<forall>m \<in> set (messages data_in_message c (chunks tag e mx d)). frame m"
    and "\<forall>m \<in> set (messages data_in_message c (chunks tag e mx d)). length m \<le> 4194304"
proof -
  have g: "\<forall>a \<in> set (chunks tag e mx d). data_in_good c a" by (rule chunks_good [OF assms])
  show "\<forall>m \<in> set (messages data_in_message c (chunks tag e mx d)). frame m"
    using data_in.messages_framed [OF g] by auto
  show "\<forall>m \<in> set (messages data_in_message c (chunks tag e mx d)). length m \<le> 4194304"
    by (rule data_in.messages_all [OF _ g]) (simp add: data_in_lengths(4), simp add: data_in_good_def)
qed

text \<open>
  C25: Reads larger than the buffer are delivered. The Data-In handler sends the series of its messages one
  by one, and asks for the space of each again and again while the transmitter empties the buffer; when
  the network takes each frame whole, in every fair run of the two threads from some point on the
  whole series is given and the network has got the messages that waited before and then the series, in
  order, whose data segments together are the bytes of the target.
\<close>

theorem long_read_delivered:
  fixes tag :: cint
  assumes t: "transfer_ok e mx (iscsi_target_buffer target)" "e + mx \<le> 2147483647"
    and mx: "max_receive_data_segment_length (conn_parameter c) = word_of_nat mx"
    and b: "buffer_ok (response_buffer c)" "contents (response_buffer c) = concat q" "\<forall>f \<in> set q. frame f"
    and net: "takes_all send"
  defines "ds \<equiv> chunks tag e mx (iscsi_target_buffer target)"
  assumes r: "\<sigma> 0 = idle (response_buffer c) (messages data_in_message c ds) []" "fair_run send who \<sigma>"
  shows "iscsi_request_data_in_send c tag (word_of_nat e) target = send_all data_in_send c ds
    \<and> concat (map di_bytes ds) = bytes_of (tbuffer target) 0 e
    \<and> (\<exists>n. \<forall>i \<ge> n. answers (\<sigma> i) = [] \<and> contents (line_buffer (\<sigma> i)) = []
        \<and> wire (\<sigma> i) = concat q @ concat (messages data_in_message c ds))"
proof -
  let ?fs = "messages data_in_message c ds"
  have f: "\<forall>f \<in> set (q @ ?fs). frame f" using b(3) long_series(1) [OF t(1)] by (auto simp: ds_def)
  have "\<forall>m \<in> set ?fs. length m \<le> 4194304" unfolding ds_def by (rule long_series(2) [OF t(1)])
  from fair_delivers [OF b(1,2) f this taken_all(1) [OF net f] r]
  have "\<exists>n. \<forall>i \<ge> n. answers (\<sigma> i) = [] \<and> contents (line_buffer (\<sigma> i)) = []
      \<and> wire (\<sigma> i) = concat q @ concat ?fs"
    unfolding taken_all(2) [OF net f] by auto
  moreover have "concat (map di_bytes ds) = bytes_of (tbuffer target) 0 e"
    using concat_chunks [OF t(1)] by (simp add: ds_def iscsi_target_buffer_def)
  ultimately show ?thesis using data_in_send_chunks [OF t(1) mx t(2)] by (simp add: ds_def)
qed

lemma long_read_delivered_witness:
  "\<exists>who \<sigma>. fair_run (\<lambda>bs. word_of_nat (length bs)) who \<sigma>
    \<and> (\<exists>n. \<forall>i \<ge> n. wire (\<sigma> i) = concat (messages data_in_message (sample_connection 1048576 [])
        (chunks 7 4194304 1048576 (iscsi_target_buffer sample_target))))
    \<and> iscsi_request_data_in_send (sample_connection 1048576 []) 7 4194304 sample_target = Inl Blocked"
proof -
  let ?c = "sample_connection 1048576 []" and ?d = "iscsi_target_buffer sample_target"
  let ?fs = "messages data_in_message ?c (chunks 7 4194304 1048576 ?d)"
  have t: "transfer_ok 4194304 1048576 ?d" by (simp add: transfer_ok_def iscsi_target_buffer_def)
  have b: "buffer_ok (response_buffer ?c)" "contents (response_buffer ?c) = concat []"
    by (simp_all add: sample_buffer_ok sample_buffer_contents)
  have u: "[0..<4] = [0, 1, 2, 3 :: nat]" by (simp add: upt_rec)
  have w: "4194304 = (word_of_nat 4194304 :: cint)" by simp
  have p: "max_receive_data_segment_length (conn_parameter ?c) = word_of_nat 1048576"
    by (simp add: sample_parameter_def)
  have "\<not> room (response_buffer ?c) (length (concat ?fs))"
    by (simp only: length_chunk_messages [OF t])
      (simp add: chunk_count_def u padn_def room_def sample_buffer_fill)
  then have bl: "send_all data_in_send ?c (chunks 7 4194304 1048576 ?d) = Inl Blocked"
    using data_in.send_all_blocked [OF chunks_good [OF t] b(1)] by blast
  have f: "\<forall>f \<in> set ([] @ ?fs). frame f" using long_series(1) [OF t] by simp
  obtain who \<sigma> where r: "\<sigma> 0 = idle (response_buffer ?c) ?fs []"
    "fair_run (\<lambda>bs. word_of_nat (length bs)) who \<sigma>"
    using fair_run_exists [OF b f long_series(2) [OF t] taken_all(1) [OF takes_all_lengths f]] by blast
  from long_read_delivered [OF t _ p b _ takes_all_lengths r] bl r(2) show ?thesis unfolding w by auto
qed


section \<open>From the socket to the handlers and back\<close>

text \<open>
  C16: It does not matter how the network cuts a PDU. When \<open>recv\<close> returns the bytes of a PDU in any
  number of non-empty pieces, the rounds of the receiver are the one call of the dispatcher on the
  receive buffer with the whole PDU in it, the same in every bit for every way to cut it.
\<close>

theorem pieces_make_pdu:
  assumes "world_ok w" "contents (receive_buffer (connection w)) @ concat ps = f"
    and "frame f" "length f \<le> 4194304" "\<forall>x \<in> set ps. x \<noteq> [] \<and> length x \<le> 256" "ps \<noteq> []"
  shows "receive_rounds os w ps = handle_pdu os (into w (received (receive_buffer (connection w)) (concat ps)))"
  using assms by (rule receive_rounds_pdu)

lemma pieces_make_pdu_witness:
  "receive_rounds sample_os (sample_world 64 []) [take 5 sample_answer, drop 5 sample_answer]
    = receive_rounds sample_os (sample_world 64 []) [sample_answer]"
proof -
  let ?w = "sample_world 64 []" and ?f = "sample_answer"
  have l: "length ?f = 48" by (rule answered_world_facts(3))
  have ok: "world_ok ?w" by (rule sample_world_ok) simp_all
  have c: "contents (receive_buffer (connection ?w)) @ concat [take 5 ?f, drop 5 ?f] = ?f"
    "contents (receive_buffer (connection ?w)) @ concat [?f] = ?f"
    by (simp_all add: sample_buffer_contents)
  have ne: "take 5 ?f \<noteq> []" "drop 5 ?f \<noteq> []" "?f \<noteq> []" using l by auto
  have p: "\<forall>x \<in> set [take 5 ?f, drop 5 ?f]. x \<noteq> [] \<and> length x \<le> 256" "\<forall>x \<in> set [?f]. x \<noteq> [] \<and> length x \<le> 256"
    using ne l by simp_all
  have fl: "length ?f \<le> 4194304" by (simp add: l)
  have cc: "concat [take 5 ?f, drop 5 ?f] = concat [?f]" by simp
  have "receive_rounds sample_os ?w [take 5 ?f, drop 5 ?f]
      = handle_pdu sample_os (into ?w (received (receive_buffer (connection ?w)) (concat [?f])))"
    using pieces_make_pdu [OF ok c(1) answered_world_facts(4) fl p(1)] unfolding cc by blast
  also have "\<dots> = receive_rounds sample_os ?w [?f]"
    using pieces_make_pdu [OF ok c(2) answered_world_facts(4) fl p(2)] by (simp del: concat.simps)
  finally show ?thesis .
qed

text \<open>
  A login over the wire. A process right after \<open>fork\<close> whose peer sends a first login with a text of
  pairs that names the initiator, a session type other than \<open>Discovery\<close> and a target, and that asks for
  the full feature phase, in whatever pieces the bytes arrive: after the rounds of the receiver and
  one round of the transmitter the process waits in the full feature phase of a normal session for the
  next request, with both buffers empty and the device untouched, and the bytes sent are the one login
  response, with status 0, TSIH 1, the first StatSN and the offer of the negotiated parameters.
\<close>

theorem login_over_the_wire:
  fixes os :: "'d os" and p :: "'d process" and kvs :: "(byte list \<times> byte list) list"
  defines "par \<equiv> login_parameter (connection (proc_world p)) kvs"
  assumes p: "fresh (proc_world p)" "receiving p" "transmitting p" "to_receive p = f @ rest"
    and l: "login_request f kvs"
    and ps: "concat ps = f" "\<forall>x \<in> set ps. x \<noteq> [] \<and> length x \<le> 256"
    and k: "find_pair kvs (cstr ''InitiatorName'') = Some i" "find_pair kvs (cstr ''SessionType'') = Some ty"
      "snd ty \<noteq> cstr ''Discovery''" "find_pair kvs (cstr ''TargetName'') = Some tn"
    and os: "0 \<le> sint (os_open os)" "non_negative par" "takes_all send"
  shows "\<exists>w1 w2. receive_rounds os (proc_world p) ps = Inr (True, w1)
    \<and> transmit_round send w1 = Inr (True, w2, login_answer f par)
    \<and> reachable os p (p\<lparr>proc_world := w2, to_receive := rest, sent := sent p @ login_answer f par\<rparr>)
    \<and> quiet (p\<lparr>proc_world := w2, to_receive := rest, sent := sent p @ login_answer f par\<rparr>)
    \<and> session_transfer_tag (default_session w2) = 0 \<and> device w2 = device (proc_world p)"
  using login_listening [OF p l ps opens_normal [OF k] os [unfolded par_def]] unfolding par_def by blast

definition login_process :: "byte list \<Rightarrow> nat process" where
  "login_process bs = \<lparr>proc_world = (sample_world 64 [])\<lparr>
       connection := iscsi_connection_create (sample_connection 64 []) 4 NoSession,
       default_session := sample_session\<lparr>session_max_connections := 0, is_full_feature_phase := 0\<rparr>\<rparr>,
     receiving = True, transmitting = True, to_receive = bs, sent = []\<rparr>"

lemma login_process_sel [simp]:
  "receiving (login_process bs)" "transmitting (login_process bs)" "to_receive (login_process bs) = bs"
  "sent (login_process bs) = []"
  "transfer_entry (default_session (proc_world (login_process bs))) = sample_entry"
  by (simp_all add: login_process_def sample_session_def)

lemma login_process_fresh: "fresh (proc_world (login_process bs))"
  unfolding fresh_def
  by (intro conjI exI [of _ "sample_connection 64 []"] exI [of _ 4])
    (simp_all add: login_process_def sample_session_def sample_buffer_def sample_entry_def)

abbreviation sample_login_bytes :: "byte list" where
  "sample_login_bytes \<equiv> login_pdu 0x87 0 sample_login_pairs"

lemma sample_login_length: "length sample_login_bytes = 116"
  by (simp add: login_pdu_def sample_login_pairs_length)

lemma login_pdu_request:
  assumes "list_all plain_pair kvs" "length (pairs_text kvs) \<le> 1048576" "4 dvd length (pairs_text kvs)"
  shows "login_request (login_pdu 0x87 0 kvs) kvs"
proof -
  have d: "dsl (mem_of (login_pdu 0x87 0 kvs)) 0 = length (pairs_text kvs)" using assms(2) by simp
  have "padn (48 + length (pairs_text kvs)) = 48 + length (pairs_text kvs)" using assms(3) by (auto simp: padn_def)
  then have "frame (login_pdu 0x87 0 kvs)" by (simp add: frame_def plen_def d) (simp add: login_pdu_def)
  moreover have "bytes_of (mem_of (login_pdu 0x87 0 kvs)) 48 (length (pairs_text kvs)) = pairs_text kvs"
    by (rule nth_equalityI) (simp_all add: mem_of_def login_pdu_def nth_append)
  ultimately show ?thesis
    using d assms(1,2) by (simp add: login_request_def operational_stage
        iscsi_pdu_opcode_def iscsi_pdu_login_continue_def iscsi_pdu_login_TSIH_def)
qed

lemma sample_login_request: "login_request sample_login_bytes sample_login_pairs"
  by (rule login_pdu_request) (simp_all add: sample_login_pairs_plain sample_login_pairs_length)

lemma sample_login_wire:
  "concat [take 100 sample_login_bytes, drop 100 sample_login_bytes] = sample_login_bytes"
  "\<forall>x \<in> set [take 100 sample_login_bytes, drop 100 sample_login_bytes]. x \<noteq> [] \<and> length x \<le> 256"
  "snd (cstr ''SessionType'', cstr ''Normal'') \<noteq> cstr ''Discovery''" "0 \<le> sint (os_open sample_os)"
  "non_negative (login_parameter (connection (proc_world (login_process bs))) sample_login_pairs)"
proof -
  show "concat [take 100 sample_login_bytes, drop 100 sample_login_bytes] = sample_login_bytes" by simp
  have "take 100 sample_login_bytes \<noteq> []" "drop 100 sample_login_bytes \<noteq> []"
    using sample_login_length by auto
  then show "\<forall>x \<in> set [take 100 sample_login_bytes, drop 100 sample_login_bytes]. x \<noteq> [] \<and> length x \<le> 256"
    by (simp add: sample_login_length)
  show "snd (cstr ''SessionType'', cstr ''Normal'') \<noteq> cstr ''Discovery''" by (simp add: cstr_def)
  show "0 \<le> sint (os_open sample_os)" by (simp add: sample_os_def)
  show "non_negative (login_parameter (connection (proc_world (login_process bs))) sample_login_pairs)"
    by (rule sample_login_non_negative(1))
qed

lemma sample_login_opens: "opens_session sample_login_pairs 0"
  by (rule opens_normal [OF sample_login_found(1,2) sample_login_wire(3) sample_login_found(3)])

text \<open>
  C33: No follow-up R2T is ever sent. In every state that a process can reach from the one after \<open>fork\<close>, a
  Data-Out that leaves the write incomplete, final bit or not, is only stored: no PDU is sent and the
  device is not touched, since no operation of the program ever gives the transfer entry an R2T
  to send. A write that needs more R2Ts than the command got stays incomplete.
\<close>

theorem follow_up_r2t_never_sent:
  fixes b :: iSCSIBuffer
  assumes "fresh (proc_world p)" "reachable os p q" "transmitting q"
  defines "w \<equiv> into (proc_world q) b"
  assumes "logged_in w" "data_out_plan w off"
    and "iscsi_request_data_out_buffer_offset (request_of (connection w)) 0
        + iscsi_pdu_data_segment_length (request_of (connection w)) 0
      \<noteq> total_length (transfer_entry (default_session w))"
  shows "iscsi_request_data_out_process os w = Inr (0, store w off)"
proof -
  have "no_r2t_left (transfer_entry (default_session w))"
    using safe_reachable [OF assms(2) fresh_safe [OF assms(1)]] assms(3) by (simp add: safe_def w_def)
  then show ?thesis using data_out_partial [OF assms(5-7)] by (simp add: no_r2t_left_def)
qed

lemma follow_up_r2t_never_sent_witness:
  "\<exists>w. iscsi_request_data_out_process sample_os w = Inr (0, store w 0)
    \<and> iscsi_pdu_final (request_of (connection w)) 0 \<noteq> 0 \<and> logged_in w
    \<and> total_length (transfer_entry (default_session w)) = 8 \<and> dsl (request_of (connection w)) 0 = 4"
proof -
  let ?p = "login_process sample_login_bytes" and ?bs = "sample_header 5 0x80 4 3 0 0 @ [1, 2, 3, 4]"
  have p: "receiving ?p" "transmitting ?p" "to_receive ?p = sample_login_bytes @ []" by simp_all
  from login_reachable [OF login_process_fresh p sample_login_request sample_login_wire(1,2)
      sample_login_opens sample_login_wire(4,5) takes_all_lengths]
  obtain w2 where w2: "reachable sample_os ?p (?p\<lparr>proc_world := w2, to_receive := [],
      sent := sent ?p @ login_answer sample_login_bytes (login_parameter (connection (proc_world ?p)) sample_login_pairs)\<rparr>)"
    "logged_in w2" "transfer_entry (default_session w2) = sample_entry" by auto
  let ?w = "into w2 (sample_buffer ?bs)"
  have r: "request_of (connection ?w) = mem_of ?bs" by (simp add: request_of_def)
  have w: "logged_in ?w" using w2(2) by (simp add: logged_in_def)
  have d: "data_out_plan ?w 0"
    by (simp add: data_out_plan_def r w2(3) iscsi_pdu_target_transfer_tag_def iscsi_request_data_out_buffer_offset_def
        DEFAULT_TARGET_TRANSFER_TAG_def Let_def) (simp add: sample_entry_def)
  have n: "iscsi_request_data_out_buffer_offset (request_of (connection ?w)) 0
      + iscsi_pdu_data_segment_length (request_of (connection ?w)) 0 \<noteq> total_length (transfer_entry (default_session ?w))"
    by (simp add: r w2(3) iscsi_request_data_out_buffer_offset_def) (simp add: sample_entry_def)
  have "iscsi_request_data_out_process sample_os ?w = Inr (0, store ?w 0)"
    using follow_up_r2t_never_sent [OF login_process_fresh w2(1), of "sample_buffer ?bs" 0] w d n by simp
  moreover have "iscsi_pdu_final (request_of (connection ?w)) 0 \<noteq> 0"
    by (simp add: r iscsi_pdu_final_def byte2bit_eq)
  ultimately show ?thesis using w
    by (intro exI [of _ ?w] conjI) (simp_all add: w2(3) r, simp add: sample_entry_def)
qed

end
