(* ===== verification/Properties_Scsi.thy ===== *)
theory Properties_Scsi
  imports Iscsi_Samples
begin

text \<open>
  The properties of the SCSI requests: what a read, a write and the Data-Out PDUs of a write do to the
  device, to the transfer entry and to the response buffer, and how they fail.
\<close>

section \<open>Reads\<close>

text \<open>
  C17: A read command. The device is called once, with the command block of the request, and its data
  is sent in Data-In PDUs of at most the negotiated length: the PDUs are appended in order, each is a
  frame with the next StatSN, their data segments together are exactly the transferred bytes, and the
  length of the transfer is the least of what the initiator expects and what the device left.
\<close>

theorem read_command_answer:
  fixes os :: "'d os" and w :: "'d world"
  assumes w: "logged_in w"
    and d: "iscsi_request_cmd_write (request_of (connection w)) 0 = 0"
      "iscsi_request_cmd_read (request_of (connection w)) 0 \<noteq> 0"
  defines "c \<equiv> iscsi_connection_advance_expected_cmd_sn (connection w)"
    and "req \<equiv> request_of (connection w)"
  defines "r \<equiv> reply_to os w (bytes_of req 32 16) (tbuffer (default_target w))"
  assumes e: "c_min (iscsi_request_cmd_exp_data_transfer req 0) (4194304 - reply_resid r) = word_of_nat e"
    and t: "transfer_ok e mx \<lparr>blk = reply_buffer r, bsz = 4194304, pos = 0\<rparr>"
    and mx: "max_receive_data_segment_length (conn_parameter c) = word_of_nat mx" "e + mx \<le> 2147483647"
  defines "ds \<equiv> chunks (iscsi_pdu_initiator_task_tag req 0) e mx \<lparr>blk = reply_buffer r, bsz = 4194304, pos = 0\<rparr>"
  assumes room: "room (response_buffer c) (length (concat (messages data_in_message c ds)))"
  shows "\<exists>w'. iscsi_request_cmd_process os w = Inr (0, w') \<and> device w' = reply_device r
    \<and> contents (response_buffer (connection w')) = contents (response_buffer (connection w))
        @ concat (messages data_in_message c ds)
    \<and> concat (map di_bytes ds) = bytes_of (reply_buffer r) 0 e
    \<and> list_all frame (messages data_in_message c ds)"
  using read_command [OF w d e [unfolded req_def r_def] t [unfolded r_def req_def] mx [unfolded c_def]
      room [unfolded ds_def c_def r_def req_def]]
    data_in.messages_framed [OF chunks_good [OF t], of c]
  unfolding ds_def c_def r_def req_def by (auto simp: list_all_iff)

abbreviation sample_read :: "nat world" where
  "sample_read \<equiv> sample_world 4 (sample_header 1 0xC0 0 10 0 0)"

lemma sample_transfer: "transfer_ok 10 4 \<lparr>blk = of_nat, bsz = 4194304, pos = 0\<rparr>"
  by (simp add: transfer_ok_def)

lemma upt_3: "[0..<3] = [0, 1, 2 :: nat]"
  by (simp add: upt_rec)

lemma read_command_answer_witness:
  "\<exists>w'. iscsi_request_cmd_process sample_os sample_read = Inr (0, w') \<and> device w' = 1
    \<and> length (contents (response_buffer (connection w'))) = 156"
proof -
  let ?c = "iscsi_connection_advance_expected_cmd_sn (connection sample_read)"
  let ?req = "request_of (connection sample_read)"
  let ?r = "reply_to sample_os sample_read (bytes_of ?req 32 16) (tbuffer (default_target sample_read))"
  let ?d = "\<lparr>blk = reply_buffer ?r, bsz = 4194304, pos = 0\<rparr>"
  have t: "transfer_ok 10 4 ?d" by (simp add: sample_transfer)
  have n: "length (concat (messages data_in_message ?c (chunks (iscsi_pdu_initiator_task_tag ?req 0) 10 4 ?d))) = 156"
    by (simp only: length_chunk_messages [OF t]) (simp add: chunk_count_def upt_3 padn_def)
  have "iscsi_request_cmd_write ?req 0 = 0" "iscsi_request_cmd_read ?req 0 \<noteq> 0"
    by (simp_all add: iscsi_request_cmd_write_def iscsi_request_cmd_read_def byte2bit_eq)
  from read_command_answer [OF sample_logged_in this, of sample_os 10 4] n t
  show ?thesis
    by (auto simp: iscsi_request_cmd_exp_data_transfer_def c_min_def sample_parameter_def sample_buffer_room
        sample_buffer_contents simp del: length_contents)
qed

section \<open>Writes\<close>

text \<open>
  C18: A write command whose data did not all come with it. The device is not touched; the command
  block, the total length and a new transfer tag are stored in the transfer entry; and the response
  buffer gets one R2T frame for each of the next pieces, at most MaxOutstandingR2T of them, that ask
  in order for the bytes after the immediate data, each of at most the negotiated length and the last
  of what is left.
\<close>

theorem write_command_requests:
  fixes os :: "'d os" and w :: "'d world"
  assumes w: "logged_in w"
    and p: "write_plan (request_of (connection w)) (conn_parameter (connection w)) e mx k"
    and r: "room (response_buffer (connection w)) (48 * k)"
  defines "c \<equiv> iscsi_connection_advance_expected_cmd_sn (connection w)"
    and "s \<equiv> default_session w" and "req \<equiv> request_of (connection w)"
  shows "\<exists>w'. iscsi_request_cmd_process os w = Inr (0, w') \<and> device w' = device w
    \<and> default_target w' = default_target w
    \<and> transfer_entry (default_session w') = (transfer_entry s)\<lparr>
        entry_cdb := blit (entry_cdb (transfer_entry s)) 0 (\<lambda>i. req (32 + i)) 16,
        total_length := word_of_nat e, entry_transfer_tag := session_transfer_tag s + 1\<rparr>
    \<and> contents (response_buffer (connection w')) = contents (response_buffer (connection w))
        @ concat (messages r2t_message c (requested (iscsi_pdu_initiator_task_tag req 0)
            (session_transfer_tag s + 1) mx e (dsl req 0) k))"
  unfolding c_def s_def req_def using write_command [OF w p r] by blast

abbreviation sample_write :: "nat world" where
  "sample_write \<equiv> sample_world 4 (sample_header 1 0xA0 0 10 0 0)"

lemma write_command_requests_witness:
  "\<exists>w'. iscsi_request_cmd_process sample_os sample_write = Inr (0, w') \<and> device w' = 0
    \<and> entry_transfer_tag (transfer_entry (default_session w')) = 4
    \<and> fill (response_buffer (connection w')) = 3 * 48"
proof -
  have p: "write_plan (request_of (connection sample_write)) (conn_parameter (connection sample_write)) 10 4 3"
    by (simp add: write_plan_def iscsi_request_cmd_write_def iscsi_request_cmd_exp_data_transfer_def
        byte2bit_eq sample_parameter_def)
  have r: "room (response_buffer (connection sample_write)) (48 * 3)" by (simp add: sample_buffer_room)
  have t: "session_transfer_tag sample_session = 3" by (simp add: sample_session_def)
  show ?thesis
    using write_command_requests [OF sample_logged_in p r, of sample_os] t
    by (auto simp: fill_length length_r2t_messages requested_def sample_buffer_contents simp del: length_contents)
qed

text \<open>
  C19: The Data-Out that completes a write. Its data is stored at its offset, the data of the whole
  transfer entry is copied into the buffer of the target, the device is called once with the stored
  command block, and the SCSI response with the status and the sense data of that call is appended
  as one frame.
\<close>

theorem data_out_executes:
  fixes os :: "'d os" and w :: "'d world"
  assumes w: "logged_in w" and p: "data_out_plan w off"
    and total: "sint (total_length (transfer_entry (default_session w))) = int (off + dsl (request_of (connection w)) 0)"
  defines "c \<equiv> connection w" and "e \<equiv> transfer_entry (default_session w)"
    and "n \<equiv> off + dsl (request_of (connection w)) 0"
  defines "r \<equiv> reply_to os w (bytes_of (entry_cdb e) 0 16)
      (blit (tbuffer (default_target w)) 0 (stored_data w off) n)"
  assumes sense: "unat (reply_sb_len_wr r) \<le> 32"
  defines "w' \<equiv> (store w off)\<lparr>device := reply_device r, default_target :=
      target_after r ((default_target w)\<lparr>tbuffer := blit (tbuffer (default_target w)) 0 (stored_data w off) n\<rparr>)\<rparr>"
  assumes room: "room (response_buffer c) (length (scsi_message c w'))"
  shows "\<exists>w2. iscsi_request_data_out_process os w = Inr (0, w2) \<and> device w2 = reply_device r
    \<and> contents (response_buffer (connection w2)) = contents (response_buffer c) @ scsi_message c w'
    \<and> frame (scsi_message c w')"
proof -
  have "scsi_good c w'"
    using w sense by (simp add: scsi_good_def logged_in_def sense_size_def c_def w'_def store_def)
  from scsi.framed [OF this] data_out_last [OF w p total sense [unfolded r_def n_def e_def]
        room [unfolded c_def w'_def r_def n_def e_def]]
  show ?thesis unfolding c_def w'_def r_def n_def e_def by auto
qed

abbreviation sample_data_out :: "nat world" where
  "sample_data_out \<equiv> sample_world 4 (sample_header 5 0x80 4 3 0 4 @ [1, 2, 3, 4])"

lemma sample_data_out_plan: "data_out_plan sample_data_out 4"
  by (simp add: data_out_plan_def iscsi_pdu_target_transfer_tag_def iscsi_request_data_out_buffer_offset_def
      DEFAULT_TARGET_TRANSFER_TAG_def) (simp add: sample_session_def sample_entry_def)

lemma data_out_executes_witness:
  "\<exists>w2. iscsi_request_data_out_process sample_os sample_data_out = Inr (0, w2) \<and> device w2 = 1
    \<and> fill (response_buffer (connection w2)) = 52"
proof -
  have t: "sint (total_length (transfer_entry (default_session sample_data_out)))
      = int (4 + dsl (request_of (connection sample_data_out)) 0)"
    by simp (simp add: sample_session_def sample_entry_def)
  have "padn 50 = 52" by (simp add: padn_def)
  with data_out_executes [OF sample_logged_in sample_data_out_plan t, of sample_os]
  show ?thesis by (auto simp: scsi_lengths sense_size_def sample_buffer_room fill_length
        sample_buffer_contents simp del: length_contents)
qed

text \<open>
  A Data-Out that leaves the write incomplete, when no further R2T is due: its data is stored at
  its offset in the transfer entry, and nothing else changes; no PDU is sent and the device is not
  touched.
\<close>

theorem data_out_stores:
  fixes os :: "'d os" and w :: "'d world"
  assumes w: "logged_in w" and p: "data_out_plan w off"
    and "iscsi_request_data_out_buffer_offset (request_of (connection w)) 0
        + iscsi_pdu_data_segment_length (request_of (connection w)) 0
      \<noteq> total_length (transfer_entry (default_session w))"
    and "iscsi_pdu_final (request_of (connection w)) 0 = 0
      \<or> sint (total_r2t_sn (transfer_entry (default_session w))) \<le> sint (r2t_sn (transfer_entry (default_session w)))"
  shows "iscsi_request_data_out_process os w = Inr (0, store w off)"
  using assms by (rule data_out_partial)

abbreviation sample_first_data :: "nat world" where
  "sample_first_data \<equiv> sample_world 4 (sample_header 5 0x80 4 3 0 0 @ [1, 2, 3, 4])"

lemma data_out_stores_witness:
  "iscsi_request_data_out_process sample_os sample_first_data = Inr (0, store sample_first_data 0)"
proof -
  have p: "data_out_plan sample_first_data 0"
    by (simp add: data_out_plan_def iscsi_pdu_target_transfer_tag_def iscsi_request_data_out_buffer_offset_def
        DEFAULT_TARGET_TRANSFER_TAG_def) (simp add: sample_session_def sample_entry_def)
  show ?thesis
    by (rule data_out_stores [OF sample_logged_in p])
      (simp_all add: iscsi_request_data_out_buffer_offset_def sample_session_def sample_entry_def)
qed

section \<open>Waiting and failing\<close>

text \<open>
  Backpressure. When the whole Data-In series of a read does not fit in the free space of the
  response buffer, the handler does not drop, cut or reorder anything: it stops and waits for the
  transmitter.
\<close>

theorem data_in_waits_for_room:
  assumes t: "transfer_ok e mx (iscsi_target_buffer target)" "e + mx \<le> 2147483647"
    and mx: "max_receive_data_segment_length (conn_parameter c) = word_of_nat mx"
    and b: "buffer_ok (response_buffer c)"
      "\<not> room (response_buffer c) (length (concat (messages data_in_message c (chunks tag e mx (iscsi_target_buffer target)))))"
  shows "iscsi_request_data_in_send c tag (word_of_nat e) target = Inl Blocked"
  using data_in.send_all_blocked [OF chunks_good [OF t(1)] b] data_in_send_chunks [OF t(1) mx t(2)] by simp

definition full_connection :: iSCSIConnection where
  "full_connection = (sample_connection 4 [])\<lparr>response_buffer :=
     \<lparr>blength = 4194200, block = 1, bdata = \<lambda>_. 0\<rparr>\<rparr>"

lemma data_in_waits_for_room_witness:
  "iscsi_request_data_in_send full_connection 7 10 sample_target = Inl Blocked"
proof -
  have t: "transfer_ok 10 4 (iscsi_target_buffer sample_target)"
    by (simp add: transfer_ok_def iscsi_target_buffer_def)
  have f: "fill (response_buffer full_connection) = 4194200" "buffer_ok (response_buffer full_connection)"
    by (simp_all add: full_connection_def fill_def buffer_ok_def)
  have "\<not> room (response_buffer full_connection)
      (length (concat (messages data_in_message full_connection (chunks 7 10 4 (iscsi_target_buffer sample_target)))))"
    by (simp only: length_chunk_messages [OF t]) (simp add: chunk_count_def upt_3 padn_def room_def f)
  from data_in_waits_for_room [OF t _ _ f(2) this] show ?thesis
    by (simp add: full_connection_def sample_parameter_def)
qed

text \<open>
  C34: A division by zero that the initiator can choose. The login text
  \<open>MaxRecvDataSegmentLength=0\<close> is accepted, and with the parameters it gives every attempt to send
  Data-In PDUs divides by zero.
\<close>

theorem zero_segment_length_divides:
  assumes "at data 0 (pair_text (MAX_RECEIVE_DATA_SEGMENT, [48]))"
  shows "\<exists>p' m. iscsi_connection_parameter_create p data 27 = Inr (p', m)
    \<and> iscsi_request_data_in_send (c\<lparr>conn_parameter := p'\<rparr>) tag e target = Inl DivideByZero"
proof -
  let ?kv = "(MAX_RECEIVE_DATA_SEGMENT, [48 :: byte])"
  have k: "pairs_text [?kv] = pair_text ?kv" "length (pair_text ?kv) = 27"
    by (simp_all add: pairs_text_def pair_text_def MAX_RECEIVE_DATA_SEGMENT_def)
  have wf: "list_all wf_pair [?kv]" by (simp add: wf_pair_def MAX_RECEIVE_DATA_SEGMENT_def cstr_def)
  have z: "max_receive_data_segment_length (apply_pair q ?kv) = 0" for q
    by (simp add: apply_pair_def keep_or_def parameter_keys cstr_def c_min_def)
  have "at data 0 (pairs_text [?kv])" using assms by (simp only: k)
  from create_text [OF this wf, of 27 p] show ?thesis
    by (simp add: k z iscsi_request_data_in_send_def divide_round_up_def c_div_def)
qed

lemma zero_segment_length_divides_witness:
  "\<exists>p' m. iscsi_connection_parameter_create (sample_parameter 64) (lit (pair_text (MAX_RECEIVE_DATA_SEGMENT, [48]))) 27 = Inr (p', m)
    \<and> iscsi_request_data_in_send ((sample_connection 64 [])\<lparr>conn_parameter := p'\<rparr>) 7 10 sample_target = Inl DivideByZero"
  by (rule zero_segment_length_divides) (simp add: at_def lit_def mem_of_def)

text \<open>
  C35: The offset of a Data-Out is not checked against the transfer entry. Data that would not lie
  within the entry's array, because the offset is negative or too large, is copied outside of it.
\<close>

theorem data_out_offset_unchecked:
  fixes os :: "'d os" and w :: "'d world"
  defines "req \<equiv> request_of (connection w)"
  assumes "session_reference (connection w) = DefaultSession"
    and "iscsi_pdu_target_transfer_tag req 0 \<noteq> DEFAULT_TARGET_TRANSFER_TAG"
    and "entry_transfer_tag (transfer_entry (default_session w)) = iscsi_pdu_target_transfer_tag req 0"
    and "0 < dsl req 0"
    and "sint (iscsi_request_data_out_buffer_offset req 0) < 0
      \<or> 4194304 < sint (iscsi_request_data_out_buffer_offset req 0) + int (dsl req 0)"
  shows "iscsi_request_data_out_process os w = Inl OutOfBounds"
  using assms by (auto simp: iscsi_request_data_out_process_def the_session_def
      iscsi_session_get_transfer_entry_def Let_def c_memcpy_def sint_dsl)

lemma data_out_offset_unchecked_witness:
  "iscsi_request_data_out_process sample_os (sample_world 4 (sample_header 5 0x80 4 3 0 4194301 @ [1, 2, 3, 4]))
    = Inl OutOfBounds"
  by (rule data_out_offset_unchecked)
    (simp_all add: iscsi_pdu_target_transfer_tag_def iscsi_request_data_out_buffer_offset_def
      DEFAULT_TARGET_TRANSFER_TAG_def, simp add: sample_session_def sample_entry_def)

end
