(* ===== verification/Properties_Session.thy ===== *)
theory Properties_Session
  imports Iscsi_Agreement Iscsi_Service Properties_Transport Properties_Scsi
begin

text \<open>
  Whole reads and writes of a logged in session, from the bytes the initiator sends to the bytes the
  target sends back, as steps of the process.
\<close>

section \<open>A write from the socket to the socket\<close>

text \<open>
  C6: A write over the wire. To a process that waits for requests the initiator sends a write command
  and, when it has got the R2Ts, Data-Outs with the data in order, every PDU in whatever pieces. Then
  the process answers the command with the R2T frames alone and leaves the device alone; it collects
  the Data-Outs without an answer, calls the device once, with the command block of the command, and
  sends one SCSI response with the outcome; and it waits for the next request. The buffer of the call
  begins with as many bytes as the command itself carried, but with what the transfer entry held there
  before, since the code drops the data that comes with the command; after these bytes it has the data of
  all Data-Outs in order.
\<close>

theorem write_over_the_wire:
  fixes os :: "'d os" and p :: "'d process" and f :: "byte list" and ds :: "byte list list"
  defines "w \<equiv> proc_world p"
  defines "tag \<equiv> session_transfer_tag (default_session w) + 1" and "start \<equiv> dsl (mem_of f) 0"
    and "c \<equiv> iscsi_connection_advance_expected_cmd_sn (connection w)"
  assumes p: "quiet p" "to_receive p = f @ concat ds @ rest"
    and ps: "concat ps = f" "\<forall>x \<in> set ps. x \<noteq> [] \<and> length x \<le> 256"
    and pss: "map concat pss = ds" "\<forall>ps \<in> set pss. \<forall>x \<in> set ps. x \<noteq> [] \<and> length x \<le> 256"
    and f: "request_frame SCSI_CMD f" "write_plan (mem_of f) (conn_parameter (connection w)) e mx k"
    and tag: "tag \<noteq> DEFAULT_TARGET_TRANSFER_TAG" and ds: "data_outs tag start ds" "ds \<noteq> []"
    and n: "start + length (payloads ds) = e" "e \<le> 4194304"
    and sense: "\<And>cdb buf s. unat (reply_sb_len_wr (os_ioctl os (device w) sg_request cdb buf s)) \<le> 32"
    and net: "takes_all send"
  shows "\<exists>q q' buf r. exchange os send p ps (messages r2t_message c
        (requested (iscsi_pdu_initiator_task_tag (mem_of f) 0) tag mx e start k)) q \<and> device (proc_world q) = device w
    \<and> r = device_reply os w f buf
    \<and> bytes_of buf 0 e = bytes_of (entry_data (transfer_entry (default_session w))) 0 start @ payloads ds
    \<and> exchange os send q (concat pss) [status_answer (iscsi_pdu_initiator_task_tag (mem_of (last ds)) 0)
        (stat_sn (connection w) + word_of_nat k) (expected_cmd_sn c) r] q'
    \<and> quiet q' \<and> to_receive q' = rest \<and> device (proc_world q') = reply_device r"
proof -
  note wr = write_exchange [OF p ps pss, folded w_def, folded tag_def start_def c_def]
  from wr [OF f tag ds n _ net] sense write_buffer_bytes [OF n(1)] show ?thesis
    unfolding device_reply_def by blast
qed

definition session_process :: "byte list \<Rightarrow> nat process" where
  "session_process bs = \<lparr>proc_world = sample_world 4 [], receiving = True, transmitting = True, to_receive = bs, sent = []\<rparr>"

lemma session_process_sel [simp]:
  "proc_world (session_process bs) = sample_world 4 []" "to_receive (session_process bs) = bs"
  "sent (session_process bs) = []"
  by (simp_all add: session_process_def)

lemma session_process_quiet: "quiet (session_process bs)"
  by (simp add: listening_def awaiting_def session_process_def sample_world_ok sample_logged_in sample_buffer_contents)
    (simp add: sample_session_def sample_entry_def no_r2t_left_def)

lemma sample_request:
  assumes "padn (48 + d) = 48 + length bs" "d < 16777216" "length bs \<le> 4194256" "ucast op AND 0x3F = opcode_value opc"
  shows "request_frame opc (sample_header op fl d w20 w24 w40 @ bs)"
  using assms by (simp add: request_frame_def frame_def)

lemma sample_payload:
  assumes "d < 16777216" "d \<le> length bs"
  shows "payload (sample_header op fl d w20 w24 w40 @ bs) = take d bs"
  unfolding payload_def sample_header_dsl(2) [OF assms(1)]
  using assms(2) by (intro nth_equalityI) (simp_all add: mem_of_def nth_append)

abbreviation sample_data_outs :: "byte list list" where
  "sample_data_outs \<equiv> [sample_header 5 0 4 4 0 0 @ [1, 2, 3, 4], sample_header 5 0x80 4 4 0 4 @ [5, 6, 7, 8]]"

lemma sample_data_outs_ok:
  "data_outs 4 0 sample_data_outs" "payloads sample_data_outs = [1, 2, 3, 4, 5, 6, 7, 8]"
proof -
  have r: "request_frame SCSI_DATA_OUT (sample_header 5 fl 4 4 0 off @ [a, b, c, d])" for fl off a b c d
    by (rule sample_request) (simp_all add: padn_def)
  have p: "payload (sample_header 5 fl 4 4 0 off @ [a, b, c, d]) = [a, b, c, d]" for fl off a b c d
    using sample_payload [of 4 "[a, b, c, d]"] by simp
  show "data_outs 4 0 sample_data_outs" "payloads sample_data_outs = [1, 2, 3, 4, 5, 6, 7, 8]"
    using p by (simp_all add: data_out_def r iscsi_pdu_cmdSN_def iscsi_pdu_target_transfer_tag_def
        iscsi_request_data_out_buffer_offset_def)
qed

lemma write_over_the_wire_witness:
  "\<exists>q. reachable sample_os (session_process (sample_header 1 0xA0 0 8 0 0 @ concat sample_data_outs @ [1])) q
    \<and> quiet q \<and> to_receive q = [1] \<and> device (proc_world q) = 1 \<and> length (sent q) = 148"
proof -
  let ?f = "sample_header 1 0xA0 0 8 0 0" and ?ds = sample_data_outs
  let ?p = "session_process (?f @ concat ?ds @ [1])"
  have p: "quiet ?p" "to_receive ?p = ?f @ concat ?ds @ [1]" by (simp_all add: session_process_quiet)
  have ps: "concat [?f] = ?f" "\<forall>x \<in> set [?f]. x \<noteq> [] \<and> length x \<le> 256"
    by (simp_all flip: length_greater_0_conv)
  have pss: "map concat (map (\<lambda>d. [take 50 d, drop 50 d]) ?ds) = ?ds"
    "\<forall>ps \<in> set (map (\<lambda>d. [take 50 d, drop 50 d]) ?ds). \<forall>x \<in> set ps. x \<noteq> [] \<and> length x \<le> 256"
    by (simp_all flip: length_greater_0_conv)
  have f: "request_frame SCSI_CMD ?f" using sample_request [of 0 "[]"] by (simp add: padn_def)
  have plan: "write_plan (mem_of ?f) (conn_parameter (connection (proc_world ?p))) 8 4 2"
    by (simp add: write_plan_def iscsi_request_cmd_write_def iscsi_request_cmd_exp_data_transfer_def
        byte2bit_eq sample_parameter_def)
  have t: "session_transfer_tag (default_session (proc_world ?p)) + 1 = 4" by (simp add: sample_session_def)
  have tag: "session_transfer_tag (default_session (proc_world ?p)) + 1 \<noteq> DEFAULT_TARGET_TRANSFER_TAG"
    unfolding t by (simp add: DEFAULT_TARGET_TRANSFER_TAG_def)
  have ds: "data_outs (session_transfer_tag (default_session (proc_world ?p)) + 1) (dsl (mem_of ?f) 0) ?ds"
    unfolding t using sample_data_outs_ok(1) by simp
  have n: "dsl (mem_of ?f) 0 + length (payloads ?ds) = 8" unfolding sample_data_outs_ok(2) by simp
  have s: "unat (reply_sb_len_wr (os_ioctl sample_os (device (proc_world ?p)) sg_request cdb buf s)) \<le> 32" for cdb buf s
    by (simp add: sample_os_def)
  have a: "length (status_answer itt sn ec (device_reply sample_os (proc_world ?p) ?f buf)) = 52" for itt sn ec buf
    by (simp add: status_answer_def device_reply_def sample_os_def padn_def)
  have l: "length (concat (messages r2t_message c (requested it tag 4 8 start 2))) = 96" for c it tag start
    by (simp add: length_r2t_messages requested_def)
  have ne: "?ds \<noteq> []" "(8 :: nat) \<le> 4194304" by simp_all
  from write_over_the_wire [OF p ps pss f plan tag ds ne(1) n ne(2) s takes_all_lengths] l a obtain q q' fs a buf where
    q: "exchange sample_os (\<lambda>bs. word_of_nat (length bs)) ?p [?f] fs q"
    "exchange sample_os (\<lambda>bs. word_of_nat (length bs)) q (concat (map (\<lambda>d. [take 50 d, drop 50 d]) ?ds)) [a] q'"
    "quiet q'" "to_receive q' = [1]" "device (proc_world q') = reply_device (device_reply sample_os (proc_world ?p) ?f buf)"
    "length (concat fs) = 96" "length a = 52"
    by blast
  have "reachable sample_os ?p q'" using exchangeD(1) [OF q(2)] exchangeD(1) [OF q(1)] by (rule reachable_trans)
  moreover have "length (sent q') = 148"
    using exchangeD(2) [OF q(1)] exchangeD(2) [OF q(2)] q(6,7) by simp
  moreover have "device (proc_world q') = 1" using q(5) by (simp add: device_reply_def sample_os_def)
  ultimately show ?thesis using q(3,4) by blast
qed

section \<open>A read from the socket to the socket\<close>

text \<open>
  C7: A read over the wire. To a process that waits for requests the initiator sends a read command, in
  whatever pieces. Then the device is called once, with the command block and the buffers of the
  target, and the process sends Data-In frames in order, each of at most the negotiated length, whose
  payloads, as the initiator reads them from the headers, are together exactly the first bytes that
  the device gave, as many as the lesser of what the initiator expects and what the device did not
  leave; and the process waits for the next request.
\<close>

theorem read_over_the_wire:
  fixes os :: "'d os" and p :: "'d process"
  defines "w \<equiv> proc_world p"
  assumes p: "quiet p" "to_receive p = f @ rest" and ps: "concat ps = f" "\<forall>x \<in> set ps. x \<noteq> [] \<and> length x \<le> 256"
    and f: "request_frame SCSI_CMD f" "iscsi_request_cmd_write (mem_of f) 0 = 0"
      "iscsi_request_cmd_read (mem_of f) 0 \<noteq> 0"
  defines "r \<equiv> device_reply os w f (tbuffer (default_target w))"
    and "mx \<equiv> nat (sint (max_receive_data_segment_length (conn_parameter (connection w))))"
  assumes e: "sint (c_min (iscsi_request_cmd_exp_data_transfer (mem_of f) 0) (4194304 - reply_resid r)) = int e"
    and mx: "0 < mx" and fits: "e + 52 * chunk_count e mx \<le> 4194304" and net: "takes_all send"
  shows "\<exists>fs q. exchange os send p ps fs q \<and> quiet q \<and> to_receive q = rest \<and> device (proc_world q) = reply_device r
    \<and> fs = messages data_in_message (iscsi_connection_advance_expected_cmd_sn (connection w))
        (chunks (iscsi_pdu_initiator_task_tag (mem_of f) 0) e mx \<lparr>blk = reply_buffer r, bsz = 4194304, pos = 0\<rparr>)
    \<and> payloads fs = bytes_of (reply_buffer r) 0 e"
  using read_exchange [OF p ps f e [unfolded r_def w_def] mx [unfolded mx_def w_def] fits [unfolded mx_def w_def] net]
  unfolding r_def mx_def w_def by blast

lemma read_over_the_wire_witness:
  "\<exists>fs q. reachable sample_os (session_process (sample_header 1 0xC0 0 10 0 0)) q \<and> quiet q
    \<and> sent q = concat fs \<and> device (proc_world q) = 1 \<and> payloads fs = [0, 1, 2, 3, 4, 5, 6, 7, 8, 9]"
proof -
  let ?f = "sample_header 1 0xC0 0 10 0 0"
  let ?p = "session_process ?f"
  have p: "quiet ?p" "to_receive ?p = ?f @ []" by (simp_all add: session_process_quiet)
  have ps: "concat [?f] = ?f" "\<forall>x \<in> set [?f]. x \<noteq> [] \<and> length x \<le> 256"
    by (simp_all flip: length_greater_0_conv)
  have f: "request_frame SCSI_CMD ?f" using sample_request [of 0 "[]"] by (simp add: padn_def)
  have b: "iscsi_request_cmd_write (mem_of ?f) 0 = 0" "iscsi_request_cmd_read (mem_of ?f) 0 \<noteq> 0"
    by (simp_all add: iscsi_request_cmd_write_def iscsi_request_cmd_read_def byte2bit_eq)
  let ?r = "device_reply sample_os (proc_world ?p) ?f (tbuffer (default_target (proc_world ?p)))"
  have r: "reply_resid ?r = 0" "reply_device ?r = 1" "reply_buffer ?r = of_nat"
    by (simp_all add: device_reply_def sample_os_def)
  have e: "sint (c_min (iscsi_request_cmd_exp_data_transfer (mem_of ?f) 0) (4194304 - reply_resid ?r)) = int 10"
    unfolding r by (simp add: iscsi_request_cmd_exp_data_transfer_def c_min_def)
  have m: "nat (sint (max_receive_data_segment_length (conn_parameter (connection (proc_world ?p))))) = 4"
    by (simp add: sample_parameter_def)
  have bytes: "bytes_of (of_nat :: mem) 0 10 = [0, 1, 2, 3, 4, 5, 6, 7, 8, 9]"
    by (simp add: bytes_of_def upt_rec)
  from read_over_the_wire [OF p ps f b e _ _ takes_all_lengths, unfolded m r bytes] obtain fs q where
    "exchange sample_os (\<lambda>bs. word_of_nat (length bs)) ?p [?f] fs q" "quiet q" "device (proc_world q) = 1"
    "payloads fs = [0, 1, 2, 3, 4, 5, 6, 7, 8, 9]" by (auto simp: chunk_count_def)
  then show ?thesis using exchangeD [of sample_os _ ?p "[?f]" fs q] by auto
qed

section \<open>What is written does not reach the device\<close>

text \<open>
  The \<open>SG_IO\<close> ioctl with \<open>SG_DXFER_FROM_DEV\<close>, as the SCSI generic driver documents it: the data goes from the
  device to the user buffer, so the call only fills the buffer, and what was in the buffer before makes
  no difference to the device, the return value, the status, the residual count or the sense data.
\<close>

definition only_fills :: "'d os \<Rightarrow> bool" where
  "only_fills os \<longleftrightarrow> (\<forall>d hdr cdb buf buf' s. dxfer_direction hdr = SG_DXFER_FROM_DEV \<longrightarrow>
     os_ioctl os d hdr cdb buf' s = (os_ioctl os d hdr cdb buf s)\<lparr>
       reply_buffer := reply_buffer (os_ioctl os d hdr cdb buf' s)\<rparr>)"

lemma only_fills_reply:
  assumes "only_fills os"
  shows "reply_device (device_reply os w f buf') = reply_device (device_reply os w f buf)"
    and "status_answer itt sn ec (device_reply os w f buf') = status_answer itt sn ec (device_reply os w f buf)"
proof -
  have d: "dxfer_direction sg_request = SG_DXFER_FROM_DEV" by (simp add: sg_request_def)
  obtain m where r: "device_reply os w f buf' = (device_reply os w f buf)\<lparr>reply_buffer := m\<rparr>"
    using assms d unfolding only_fills_def device_reply_def by blast
  show "reply_device (device_reply os w f buf') = reply_device (device_reply os w f buf)"
    "status_answer itt sn ec (device_reply os w f buf') = status_answer itt sn ec (device_reply os w f buf)"
    unfolding r by (simp_all add: status_answer_def)
qed

text \<open>
  C8: The data of a write never reaches the device. Every command is passed to the device with the transfer
  direction from the device. So when the ioctl keeps to that direction and only fills the buffer, a whole
  write over the wire, command and Data-Outs in whatever pieces, leaves the device in the state, and
  is answered with the SCSI response, that the same call with any other buffer gives: both do not
  depend on the data that the initiator sent, and the initiator is told the status of that call.
\<close>

theorem written_data_never_stored:
  fixes os :: "'d os" and p :: "'d process" and f :: "byte list" and ds :: "byte list list"
  defines "w \<equiv> proc_world p"
  defines "tag \<equiv> session_transfer_tag (default_session w) + 1" and "start \<equiv> dsl (mem_of f) 0"
  assumes p: "quiet p" "to_receive p = f @ concat ds @ rest"
    and ps: "concat ps = f" "\<forall>x \<in> set ps. x \<noteq> [] \<and> length x \<le> 256"
    and pss: "map concat pss = ds" "\<forall>ps \<in> set pss. \<forall>x \<in> set ps. x \<noteq> [] \<and> length x \<le> 256"
    and f: "request_frame SCSI_CMD f" "write_plan (mem_of f) (conn_parameter (connection w)) e mx k"
    and tag: "tag \<noteq> DEFAULT_TARGET_TRANSFER_TAG" and ds: "data_outs tag start ds" "ds \<noteq> []"
    and n: "start + length (payloads ds) = e" "e \<le> 4194304"
    and sense: "\<And>cdb buf s. unat (reply_sb_len_wr (os_ioctl os (device w) sg_request cdb buf s)) \<le> 32"
    and net: "takes_all send" and driver: "only_fills os"
  shows "\<exists>r2ts q answer q'. exchange os send p ps r2ts q \<and> exchange os send q (concat pss) [answer] q'
    \<and> quiet q' \<and> to_receive q' = rest
    \<and> (\<forall>buf. device (proc_world q') = reply_device (device_reply os w f buf)
        \<and> answer = status_answer (iscsi_pdu_initiator_task_tag (mem_of (last ds)) 0)
            (stat_sn (connection w) + word_of_nat k) (expected_cmd_sn (connection w) + 1) (device_reply os w f buf))"
proof -
  let ?c = "iscsi_connection_advance_expected_cmd_sn (connection w)"
  note wr = write_exchange [OF p ps pss, folded w_def, folded tag_def start_def]
  obtain r2ts q answer q' buf where q: "exchange os send p ps r2ts q" "exchange os send q (concat pss) [answer] q'"
    "quiet q'" "to_receive q' = rest" "device (proc_world q') = reply_device (device_reply os w f buf)"
    "answer = status_answer (iscsi_pdu_initiator_task_tag (mem_of (last ds)) 0) (stat_sn (connection w) + word_of_nat k)
      (expected_cmd_sn ?c) (device_reply os w f buf)"
    using wr [OF f tag ds n _ net] sense unfolding device_reply_def by blast
  have "expected_cmd_sn ?c = expected_cmd_sn (connection w) + 1"
    by (simp add: iscsi_connection_advance_expected_cmd_sn_def)
  with q(5,6) only_fills_reply(1) [OF driver, where w = w and f = f and buf = buf]
    only_fills_reply(2) [OF driver, where w = w and f = f and buf = buf]
  have "device (proc_world q') = reply_device (device_reply os w f buf')
      \<and> answer = status_answer (iscsi_pdu_initiator_task_tag (mem_of (last ds)) 0)
          (stat_sn (connection w) + word_of_nat k) (expected_cmd_sn (connection w) + 1) (device_reply os w f buf')" for buf'
    by metis
  with q(1-4) show ?thesis by blast
qed

text \<open>
  A device that is its memory. With the direction to the device (-2) a command stores the buffer, with the
  direction from the device it fills the buffer with the memory.
\<close>

definition memory_os :: "mem os" where
  "memory_os = \<lparr>os_open = 3, os_ioctl = \<lambda>d hdr cdb buf sense. \<lparr>reply_ret = 0,
     reply_device = (if dxfer_direction hdr = -2 then buf else d), reply_status = 0, reply_sb_len_wr = 0,
     reply_resid = 0, reply_buffer = (if dxfer_direction hdr = SG_DXFER_FROM_DEV then d else buf), reply_sense = sense\<rparr>\<rparr>"

definition memory_process :: "byte list \<Rightarrow> mem process" where
  "memory_process bs = \<lparr>proc_world = \<lparr>connection = sample_connection 4 [], default_session = sample_session,
       default_target = sample_target, device = \<lambda>_. 0\<rparr>,
     receiving = True, transmitting = True, to_receive = bs, sent = []\<rparr>"

lemma memory_process_sel [simp]:
  "connection (proc_world (memory_process bs)) = sample_connection 4 []"
  "default_session (proc_world (memory_process bs)) = sample_session" "to_receive (memory_process bs) = bs"
  "device (proc_world (memory_process bs)) = (\<lambda>_. 0)" "sent (memory_process bs) = []"
  by (simp_all add: memory_process_def)

lemma memory_process_quiet: "quiet (memory_process bs)"
proof -
  have "world_ok (proc_world (memory_process bs))"
    by (simp add: world_ok_def sample_buffer_ok sample_parameter_negotiated) (simp add: sample_session_def)
  moreover have "receiving (memory_process bs)" "transmitting (memory_process bs)" by (simp_all add: memory_process_def)
  ultimately show ?thesis
    by (simp add: listening_def awaiting_def logged_in_def sample_buffer_contents)
      (simp add: sample_session_def sample_entry_def no_r2t_left_def)
qed

lemma written_data_never_stored_witness:
  "\<exists>q. reachable memory_os (memory_process (sample_header 1 0xA0 0 8 0 0 @ concat sample_data_outs)) q \<and> quiet q
    \<and> payloads sample_data_outs = [1, 2, 3, 4, 5, 6, 7, 8] \<and> device (proc_world q) = (\<lambda>_. 0)"
proof -
  let ?f = "sample_header 1 0xA0 0 8 0 0" and ?ds = sample_data_outs
  let ?p = "memory_process (?f @ concat ?ds)" and ?pss = "map (\<lambda>d. [take 50 d, drop 50 d]) ?ds"
  have p: "quiet ?p" "to_receive ?p = ?f @ concat ?ds @ []" by (simp_all add: memory_process_quiet)
  have ps: "concat [?f] = ?f" "\<forall>x \<in> set [?f]. x \<noteq> [] \<and> length x \<le> 256" "map concat ?pss = ?ds"
    "\<forall>ps \<in> set ?pss. \<forall>x \<in> set ps. x \<noteq> [] \<and> length x \<le> 256"
    by (simp_all flip: length_greater_0_conv)
  have f: "request_frame SCSI_CMD ?f" using sample_request [of 0 "[]"] by (simp add: padn_def)
  have plan: "write_plan (mem_of ?f) (conn_parameter (connection (proc_world ?p))) 8 4 2"
    by (simp add: write_plan_def iscsi_request_cmd_write_def iscsi_request_cmd_exp_data_transfer_def
        byte2bit_eq sample_parameter_def)
  have t: "session_transfer_tag (default_session (proc_world ?p)) + 1 = 4" by (simp add: sample_session_def)
  have tag: "session_transfer_tag (default_session (proc_world ?p)) + 1 \<noteq> DEFAULT_TARGET_TRANSFER_TAG"
    unfolding t by (simp add: DEFAULT_TARGET_TRANSFER_TAG_def)
  have ds: "data_outs (session_transfer_tag (default_session (proc_world ?p)) + 1) (dsl (mem_of ?f) 0) ?ds" "?ds \<noteq> []"
    unfolding t using sample_data_outs_ok(1) by simp_all
  have n: "dsl (mem_of ?f) 0 + length (payloads ?ds) = 8" "(8 :: nat) \<le> 4194304"
    unfolding sample_data_outs_ok(2) by simp_all
  have s: "unat (reply_sb_len_wr (os_ioctl memory_os (device (proc_world ?p)) sg_request cdb buf sense)) \<le> 32" for cdb buf sense
    by (simp add: memory_os_def)
  have o: "only_fills memory_os" by (simp add: only_fills_def memory_os_def SG_DXFER_FROM_DEV_def)
  from written_data_never_stored [OF p ps f plan tag ds n s takes_all_lengths o] obtain q q' rs a where
    q: "exchange memory_os (\<lambda>bs. word_of_nat (length bs)) ?p [?f] rs q"
    "exchange memory_os (\<lambda>bs. word_of_nat (length bs)) q (concat ?pss) [a] q'" "quiet q'"
    "\<And>buf. device (proc_world q') = reply_device (device_reply memory_os (proc_world ?p) ?f buf)"
    by blast
  have "reachable memory_os ?p q'" by (rule reachable_trans [OF exchangeD(1) [OF q(2)] exchangeD(1) [OF q(1)]])
  moreover have "device (proc_world q') = (\<lambda>_. 0)"
    using q(4) by (simp add: device_reply_def memory_os_def sg_request_def SG_DXFER_FROM_DEV_def)
  ultimately show ?thesis using q(3) sample_data_outs_ok(2) by blast
qed

section \<open>The session as a service\<close>

text \<open>
  A session in its service, from any state in which it waits for a request. The initiator sends any list of
  pings, logouts, questions for the targets, reads, writes with their Data-Outs and second logins that
  the service takes, every PDU cut into pieces on its own (no piece has bytes of two PDUs: the receiver leaves
  the second of two joined PDUs unanswered until more bytes come). The threads take turns: the receiver takes the
  PDUs up to the next answer, then the transmitter sends the frames. On this schedule the process goes
  through exactly the dialogue of the service and ends, waiting, in the state of the service.
\<close>

theorem session_served:
  fixes os :: "'d os" and p :: "'d process"
  assumes "quiet p" "to_receive p = concat (concat (map pdus rs)) @ rest"
    and "all_admissible os (view (proc_world p)) rs" "service os (view (proc_world p)) rs = (d, v)"
    and "pieces_of d pss" "takes_all send"
  shows "\<exists>q. exchanges os send p (in_pieces d pss) q \<and> reachable os p q \<and> sent q = sent p @ concat (concat (map snd d))
    \<and> quiet q \<and> to_receive q = rest \<and> view (proc_world q) = v"
proof -
  from service_refined [OF assms(1-3,6), unfolded assms(4) fst_conv snd_conv, OF assms(5)] obtain q where
    q: "exchanges os send p (in_pieces d pss) q" "quiet q" "to_receive q = rest" "view (proc_world q) = v"
    by (auto simp: conducted_def)
  from q exchangesD(1,2) [OF q(1)] in_pieces_frames [OF assms(5)] show ?thesis by auto
qed

abbreviation sample_requests :: "request list" where
  "sample_requests \<equiv> [Ping (sample_header 0 0x80 4 9 0 0 @ [1, 2, 3, 4]), Save (sample_header 1 0xA0 0 8 0 0) sample_data_outs,
     Fetch (sample_header 1 0xC0 0 10 0 0), Goodbye (sample_header 6 0x80 0 0 0 0)]"

text \<open>The requests of the witnesses, what the sample device answers, and the numbers of the service.\<close>

lemma sample_service:
  "request_frame SCSI_CMD (sample_header 1 fl 0 w20 0 0)" "request_frame LOGOUT (sample_header 6 0x80 0 0 0 0)"
  "request_frame NOP_OUT (sample_header 0 0x80 4 9 0 0 @ [1, 2, 3, 4])"
  "payload (sample_header 0 0x80 4 9 0 0 @ [1, 2, 3, 4]) = [1, 2, 3, 4]"
  using sample_request [of 0 "[]"] sample_request [of 4 "[1, 2, 3, 4]"] sample_payload [of 4 "[1, 2, 3, 4]"]
  by (simp_all add: padn_def)

lemma sample_call:
  "reply_sb_len_wr (call sample_os x f buf) = 0" "reply_resid (call sample_os x f buf) = 0"
  "reply_device (call sample_os x f buf) = view_disk x + 1"
  "fetched (sample_header 1 0xC0 0 10 0 0) (call sample_os x f buf) = 10" "4 dvd Suc (Suc (Suc (Suc 0)))"
  by (simp_all add: call_def sample_os_def fetched_def iscsi_request_cmd_exp_data_transfer_def c_min_def)
    (simp add: eval_nat_numeral)

lemmas sample_service_facts = sample_service sample_call fetch_reply_def save_reply_def iscsi_request_cmd_write_def
  iscsi_request_cmd_read_def iscsi_request_cmd_exp_data_transfer_def byte2bit_eq view_after_def view_command_def
  chunk_count_def

lemma sample_limits:
  assumes "view_limits x = limits (sample_parameter 4)"
  shows "segment x = 4" "save_rounds x 8 = 2"
  using assms by (simp_all add: save_rounds_def segment_def sample_parameter_def)

lemma session_served_witness:
  "\<exists>q. reachable sample_os (session_process (concat (concat (map pdus sample_requests)) @ [1])) q
    \<and> quiet q \<and> to_receive q = [1] \<and> device (proc_world q) = 2 \<and> stat_sn (connection (proc_world q)) = 13"
proof -
  let ?p = "session_process (concat (concat (map pdus sample_requests)) @ [1])"
  let ?v = "view (proc_world ?p)"
  have v: "?v = \<lparr>view_sn = 5, view_exp = 6, view_tag = 3, view_limits = limits (sample_parameter 4), view_disk = 0,
      view_data = \<lambda>_. 0, view_sense = \<lambda>_. 0\<rparr>"
    by (simp add: view_def sample_connection_def) (simp add: sample_session_def sample_target_def)
  have lim: "sint (max_receive_data_segment_length (sample_parameter 4)) = 4" "initial_r2t (sample_parameter 4) = 1"
    "max_outstanding_r2t (sample_parameter 4) = 10" "DEFAULT_TARGET_TRANSFER_TAG \<noteq> 4"
    by (simp_all add: sample_parameter_def DEFAULT_TARGET_TRANSFER_TAG_def)
  note facts = lim sample_service_facts sample_limits sample_data_outs_ok(1) [simplified]
  have a: "all_admissible sample_os ?v sample_requests"
    unfolding v by (simp add: facts sample_data_outs_ok(2) del: length_concat)
  obtain d w where d: "service sample_os ?v sample_requests = (d, w)" by fastforce
  have w: "view_sn w = 13 \<and> view_disk w = 2"
    using d unfolding v by (auto simp: Let_def split_def facts fetch_data_def chunks_def)
  have "\<forall>f \<in> set (concat (map fst d)). f \<noteq> [] \<and> length f \<le> 256"
    unfolding service_pdus [of sample_os ?v sample_requests, unfolded d fst_conv] by (simp flip: length_greater_0_conv)
  from session_served [OF _ _ a d pieces_whole [OF this] takes_all_lengths, of "[1]"] obtain q where
    "reachable sample_os ?p q" "quiet q" "to_receive q = [1]" "view (proc_world q) = w"
    using session_process_quiet by (simp only: session_process_sel) blast
  with w show ?thesis by (intro exI [of _ q]) auto
qed

text \<open>
  C4: A connection, from \<open>fork\<close> on. A process right after \<open>fork\<close> gets a first login with a text of pairs that
  opens a normal session, and then any list of requests that the service takes, every PDU in whatever
  pieces. Then the process sends exactly the login response, with the offer of the parameters that the
  pairs give, and the frames of the service in order, where the service begins with StatSN 1, transfer
  tag 0 and these parameters; and it ends waiting for the next request in the state of the service.
\<close>

theorem connection_over_the_wire:
  fixes os :: "'d os" and p :: "'d process" and kvs :: "(byte list \<times> byte list) list"
  defines "w \<equiv> proc_world p"
  defines "par \<equiv> login_parameter (connection w) kvs"
  defines "v \<equiv> \<lparr>view_sn = 1, view_exp = 0, view_tag = 0, view_limits = limits par, view_disk = device w,
    view_data = tbuffer (default_target w), view_sense = sense_buffer (default_target w)\<rparr>"
  assumes p: "fresh w" "receiving p" "transmitting p" "to_receive p = f @ concat (concat (map pdus rs)) @ rest"
    and l: "login_request f kvs" "opens_session kvs 0" and os: "0 \<le> sint (os_open os)" "non_negative par" "takes_all send"
    and rs: "all_admissible os v rs" "service os v rs = (d, v')" and pss: "pieces_of (login_talk f par @ d) pss"
  shows "\<exists>q. exchanges os send p (in_pieces (login_talk f par @ d) pss) q \<and> reachable os p q
    \<and> sent q = sent p @ login_answer f par @ concat (concat (map snd d)) \<and> quiet q \<and> to_receive q = rest \<and> view (proc_world q) = v'"
proof -
  have v: "first_view par w = v"
    using p(1) by (auto simp: first_view_def view_def v_def fresh_def iscsi_connection_create_def)
  note c = connection_served [OF p(1) [unfolded w_def] p(2-4) l os(1) os(2) [unfolded par_def w_def] os(3), folded w_def,
    folded par_def, unfolded v, OF rs(1)]
  from c [unfolded rs(2) fst_conv snd_conv, OF pss] obtain q where
    q: "exchanges os send p (in_pieces (login_talk f par @ d) pss) q" "quiet q" "to_receive q = rest" "view (proc_world q) = v'"
    by (auto simp: conducted_def)
  from q exchangesD(1,2) [OF q(1)] in_pieces_frames [OF pss] show ?thesis by (auto simp: login_talk_def)
qed

abbreviation sample_reads :: "request list" where
  "sample_reads \<equiv> [Ping (sample_header 0 0x80 4 9 0 0 @ [1, 2, 3, 4]), Fetch (sample_header 1 0xC0 0 10 0 0),
     Goodbye (sample_header 6 0x80 0 0 0 0)]"

lemma connection_over_the_wire_witness:
  "\<exists>q. reachable sample_os (login_process (sample_login_bytes @ concat (concat (map pdus sample_reads)) @ [1])) q
    \<and> quiet q \<and> to_receive q = [1] \<and> device (proc_world q) = 1 \<and> stat_sn (connection (proc_world q)) = 4"
proof -
  let ?p = "login_process (sample_login_bytes @ concat (concat (map pdus sample_reads)) @ [1])"
  let ?w = "proc_world ?p"
  let ?par = "login_parameter (connection ?w) sample_login_pairs"
  let ?v = "\<lparr>view_sn = 1, view_exp = 0, view_tag = 0, view_limits = limits ?par, view_disk = device ?w,
    view_data = tbuffer (default_target ?w), view_sense = sense_buffer (default_target ?w)\<rparr>"
  have p: "receiving ?p" "transmitting ?p" "to_receive ?p = sample_login_bytes @ concat (concat (map pdus sample_reads)) @ [1]"
    by simp_all
  have seg: "segment x = 1048576" if "view_limits x = limits ?par" for x :: "nat session_view"
    using that by (simp add: segment_def sample_login_non_negative(2))
  have z: "device (proc_world (login_process bs)) = 0" for bs by (simp add: login_process_def)
  note facts = seg sample_service_facts sample_login_non_negative(2)
  have a: "all_admissible sample_os ?v sample_reads" by (simp add: facts)
  obtain d v where d: "service sample_os ?v sample_reads = (d, v)" by fastforce
  have v: "view_sn v = 4 \<and> view_disk v = 1"
    using d by (auto simp: Let_def split_def facts fetch_data_def chunks_def z)
  have "\<forall>f \<in> set (concat (map fst (login_talk sample_login_bytes ?par @ d))). f \<noteq> [] \<and> length f \<le> 256"
    using sample_login_length service_pdus [of sample_os ?v sample_reads, unfolded d fst_conv]
    by (auto simp: login_talk_def simp flip: length_greater_0_conv)
  from connection_over_the_wire [OF login_process_fresh p sample_login_request sample_login_opens sample_login_wire(4,5)
      takes_all_lengths a d pieces_whole [OF this]] obtain q where
    "reachable sample_os ?p q" "quiet q" "to_receive q = [1]" "view (proc_world q) = v" by blast
  with v show ?thesis by (intro exI [of _ q]) auto
qed

section \<open>Ping and logout from the socket to the socket\<close>

text \<open>
  A NOP-Out whose data is within the negotiated limit and a multiple of 4
  long, in whatever pieces it arrives, is answered with one NOP-In that carries both tags and the same
  data back; the device and the session are unchanged, and the process waits for the next request.
\<close>

theorem ping_over_the_wire:
  fixes os :: "'d os" and p :: "'d process"
  defines "w \<equiv> proc_world p"
  assumes p: "quiet p" "to_receive p = f @ rest" and ps: "concat ps = f" "\<forall>x \<in> set ps. x \<noteq> [] \<and> length x \<le> 256"
    and f: "request_frame NOP_OUT f" "4 dvd length (payload f)"
      "int (length (payload f)) \<le> sint (max_receive_data_segment_length (conn_parameter (connection w)))"
    and net: "takes_all send"
  shows "\<exists>q. exchange os send p ps [echo f (stat_sn (connection w)) (expected_cmd_sn (connection w))] q \<and> quiet q
    \<and> to_receive q = rest \<and> device (proc_world q) = device w \<and> default_session (proc_world q) = default_session w
    \<and> payload (echo f (stat_sn (connection w)) (expected_cmd_sn (connection w))) = payload f"
proof -
  have "payload (echo f sn ec @ []) = payload f" for sn ec
    unfolding echo_def append.assoc
    by (rule payload_response) (simp_all add: sint_dsl dsl_bound)
  then show ?thesis using ping_exchange [OF p ps f [unfolded w_def] net, of os] unfolding w_def by auto
qed

text \<open>
  C38: A logout ends nothing. It is answered with one logout response, which has 0 in the place of
  the task tag of the request, and then the process waits for the next request as before: the session
  keeps its full feature phase and its target, the receiver goes on, and the next command is executed.
\<close>

theorem logout_ends_nothing:
  fixes os :: "'d os" and p :: "'d process"
  defines "w \<equiv> proc_world p"
  assumes p: "listening d p" "to_receive p = f @ rest" and ps: "concat ps = f" "\<forall>x \<in> set ps. x \<noteq> [] \<and> length x \<le> 256"
    and f: "request_frame LOGOUT f" and net: "takes_all send"
  shows "\<exists>q. exchange os send p ps [farewell (stat_sn (connection w)) (expected_cmd_sn (connection w))] q \<and> listening d q
    \<and> to_receive q = rest \<and> device (proc_world q) = device w \<and> default_session (proc_world q) = default_session w
    \<and> iscsi_pdu_initiator_task_tag (mem_of (farewell (stat_sn (connection w)) (expected_cmd_sn (connection w)))) 0 = 0"
proof -
  have z: "be32 0 = [0, 0, 0, 0]" "be24 0 = [0, 0, 0]" by (simp_all add: be32_def be24_def)
  have t: "\<exists>t. farewell sn ec = [0x26, 0x80, 0, 0, 0, 0, 0, 0, 0, 0, 0, 0, 0, 0, 0, 0, 0, 0, 0, 0] @ t" for sn ec
    by (simp add: farewell_def response_bhs_def z replicate_8)
  have "iscsi_pdu_initiator_task_tag (mem_of (farewell sn ec)) 0 = 0" for sn ec
  proof -
    obtain t where "farewell sn ec = [0x26, 0x80, 0, 0, 0, 0, 0, 0, 0, 0, 0, 0, 0, 0, 0, 0, 0, 0, 0, 0] @ t" using t by blast
    then show ?thesis by (simp add: iscsi_pdu_initiator_task_tag_def iscsi_byte_byte2int_def mem_of_def)
  qed
  then show ?thesis using logout_exchange [OF p ps f net, of os] unfolding w_def by auto
qed

lemma logout_ends_nothing_witness:
  "\<exists>q. reachable sample_os (session_process (sample_header 6 0x80 0 0 0 0 @ [1])) q \<and> quiet q \<and> to_receive q = [1]
    \<and> length (sent q) = 48 \<and> is_full_feature_phase (default_session (proc_world q)) = 1"
proof -
  let ?f = "sample_header 6 0x80 0 0 0 0"
  let ?p = "session_process (?f @ [1])"
  have p: "quiet ?p" "to_receive ?p = ?f @ [1]" by (simp_all add: session_process_quiet)
  have ps: "concat [?f] = ?f" "\<forall>x \<in> set [?f]. x \<noteq> [] \<and> length x \<le> 256"
    by (simp_all flip: length_greater_0_conv)
  have f: "request_frame LOGOUT ?f" using sample_request [of 0 "[]"] by (simp add: padn_def)
  from logout_ends_nothing [OF p ps f takes_all_lengths, where os = sample_os] obtain sn ec q where
    q: "exchange sample_os (\<lambda>bs. word_of_nat (length bs)) ?p [?f] [farewell sn ec] q" "quiet q" "to_receive q = [1]"
      "default_session (proc_world q) = default_session (proc_world ?p)" by blast
  have "length (farewell sn ec) = 48" by (simp add: farewell_def)
  then have "reachable sample_os ?p q \<and> length (sent q) = 48" using exchangeD [OF q(1)] by simp
  moreover have "is_full_feature_phase (default_session (proc_world q)) = 1" unfolding q(4) by (simp add: sample_session_def)
  ultimately show ?thesis using q(2,3) by blast
qed

section \<open>The agreement of the login lasts\<close>

text \<open>
  C9: What the login agreed on lasts. From a well formed state of a session in the full feature
  phase, after any number of rounds of the threads with any bytes from the peer, further logins and logouts
  included, as long as the transmitter runs: the connection has its session and the session its target,
  it is in the full feature phase, it is of the same kind, and the negotiated parameters are the same.
\<close>

theorem agreement_lasts:
  fixes p q :: "'d process"
  defines "c \<equiv> connection (proc_world p)" and "s \<equiv> default_session (proc_world p)"
    and "c' \<equiv> connection (proc_world q)" and "s' \<equiv> default_session (proc_world q)"
  assumes "reachable os p q" "world_ok (proc_world p)" "session_reference c = DefaultSession"
    and "is_full_feature_phase s \<noteq> 0" "transmitting q"
  shows "session_reference c' = DefaultSession \<and> session_target s' = DefaultTarget \<and> is_full_feature_phase s' \<noteq> 0
    \<and> is_discovery s' = is_discovery s \<and> conn_parameter c' = conn_parameter c"
proof -
  have "agreed (conn_parameter c) (is_discovery s) (proc_world p)"
    using assms(6-8) by (simp add: agreed_def world_ok_def c_def s_def)
  from agreed_reachable [OF assms(5,6) this assms(9)] show ?thesis by (simp add: agreed_def c'_def s'_def)
qed

lemma agreement_lasts_witness:
  "\<exists>q. reachable sample_os (session_process (sample_header 3 0x87 0 0 0 0)) q \<and> to_receive q = []
    \<and> conn_parameter (connection (proc_world q)) = sample_parameter 4"
proof -
  let ?f = "sample_header 3 0x87 0 0 0 0"
  let ?p = "session_process ?f"
  have p: "quiet ?p" "to_receive ?p = ?f @ []" by (simp_all add: session_process_quiet)
  have ps: "concat [?f] = ?f" "\<forall>x \<in> set [?f]. x \<noteq> [] \<and> length x \<le> 256" by (simp_all flip: length_greater_0_conv)
  have f: "request_frame LOGIN ?f" using sample_request [of 0 "[]"] by (simp add: padn_def)
  from relogin.refusal_exchange [OF p(1) TrueI p(2) ps f takes_all_lengths, of sample_os] obtain q where
    q: "reachable sample_os ?p q" "listening 0 q" "to_receive q = []"
    using exchangeD(1) by blast
  have ok: "world_ok (proc_world ?p)" "session_reference (connection (proc_world ?p)) = DefaultSession"
    "is_full_feature_phase (default_session (proc_world ?p)) \<noteq> 0" "transmitting q"
    using p(1) q(2) by (simp_all add: listening_def awaiting_def logged_in_def)
  from agreement_lasts [OF q(1) ok] q(1,3) show ?thesis by auto
qed

section \<open>A discovery session from the socket to the socket\<close>

text \<open>
  C10: A discovery session over the wire. A process right after \<open>fork\<close> gets a login with the session type
  \<open>Discovery\<close>, which names no target, then a text request whose pairs contain \<open>SendTargets\<close>, then a
  SCSI command, every PDU in whatever pieces. It answers with the login response, with one text response whose
  payload is the name of the target, and with a reject for a protocol error; the device is never
  used, and the process waits for the next request of its discovery session.
\<close>

theorem discovery_over_the_wire:
  fixes os :: "'d os" and p :: "'d process" and kvs ts :: "(byte list \<times> byte list) list"
  defines "par \<equiv> login_parameter (connection (proc_world p)) kvs"
  assumes p: "fresh (proc_world p)" "receiving p" "transmitting p" "to_receive p = f @ g @ h @ rest"
    and l: "login_request f kvs" and g: "text_request g ts" "find_pair ts (cstr ''SendTargets'') = Some tg"
    and h: "request_frame SCSI_CMD h"
    and ps: "concat ps1 = f" "concat ps2 = g" "concat ps3 = h"
      "\<forall>x \<in> set (ps1 @ ps2 @ ps3). x \<noteq> [] \<and> length x \<le> 256"
    and k: "find_pair kvs (cstr ''InitiatorName'') = Some i" "find_pair kvs (cstr ''SessionType'') = Some ty"
      "snd ty = cstr ''Discovery''"
    and os: "0 \<le> sint (os_open os)" "non_negative par" "takes_all send"
  shows "\<exists>q1 q2 q3. exchange os send p ps1 [login_answer f par] q1
    \<and> exchange os send q1 ps2 [text_message (mem_of g)] q2 \<and> payload (text_message (mem_of g)) = response_text
    \<and> exchange os send q2 ps3 [refused (proc_world q2)] q3 \<and> listening 1 q3 \<and> to_receive q3 = rest
    \<and> device (proc_world q3) = device (proc_world p)"
proof -
  have s: "\<forall>x \<in> set ps1. x \<noteq> [] \<and> length x \<le> 256" "\<forall>x \<in> set ps2. x \<noteq> [] \<and> length x \<le> 256"
    "\<forall>x \<in> set ps3. x \<noteq> [] \<and> length x \<le> 256" using ps(4) by simp_all
  obtain q1 where q1: "exchange os send p ps1 [login_answer f par] q1" "listening 1 q1" "to_receive q1 = g @ h @ rest"
    "device (proc_world q1) = device (proc_world p)"
    using login_opens [OF p l ps(1) s(1) opens_discovery [OF k] os [unfolded par_def]] unfolding par_def by blast
  obtain q2 where q2: "exchange os send q1 ps2 [text_message (mem_of g)] q2" "listening 1 q2" "to_receive q2 = h @ rest"
    "device (proc_world q2) = device (proc_world q1)"
    using targets_exchange [OF q1(2,3) ps(2) s(2) g(1) _ os(3), where os = os] g(2) by auto
  obtain q3 where "exchange os send q2 ps3 [refused (proc_world q2)] q3" "listening 1 q3" "to_receive q3 = rest"
    "device (proc_world q3) = device (proc_world q2)"
    using barred.refusal_exchange [OF q2(2) _ q2(3) ps(3) s(3) h os(3), where os = os] by auto
  with q1 q2 show ?thesis using payload_text by auto
qed

abbreviation sample_discovery_pairs :: "(byte list \<times> byte list) list" where
  "sample_discovery_pairs \<equiv> [(cstr ''InitiatorName'', cstr ''abc''), (cstr ''SessionType'', cstr ''Discovery'')]"

abbreviation sample_targets_pairs :: "(byte list \<times> byte list) list" where
  "sample_targets_pairs \<equiv> [(cstr ''SendTargets'', cstr ''All'')]"

lemma sample_discovery_text:
  "length (pairs_text sample_discovery_pairs) = 40" "length (pairs_text sample_targets_pairs) = 16"
  "list_all plain_pair sample_discovery_pairs" "list_all plain_pair sample_targets_pairs"
  by (simp_all add: pairs_text_def pair_text_def plain_pair_def plain_def is_sep_def cstr_def)

lemma discovery_over_the_wire_witness:
  fixes f g h :: "byte list"
  defines "f \<equiv> login_pdu 0x87 0 sample_discovery_pairs"
    and "g \<equiv> sample_header 4 0x80 16 0xFFFFFFFF 0 0 @ pairs_text sample_targets_pairs"
    and "h \<equiv> sample_header 1 0xC0 0 10 0 0"
  shows "\<exists>q par m. reachable sample_os (login_process (f @ g @ h)) q \<and> device (proc_world q) = 0 \<and> listening 1 q
    \<and> sent q = login_answer f par @ text_message (mem_of g) @ m \<and> length m = 48"
proof -
  let ?p = "login_process (f @ g @ h @ [])"
  let ?par = "login_parameter (connection (proc_world ?p)) sample_discovery_pairs"
  have p: "receiving ?p" "transmitting ?p" "to_receive ?p = f @ g @ h @ []" by simp_all
  have l: "login_request f sample_discovery_pairs"
    unfolding f_def by (rule login_pdu_request) (simp_all only: sample_discovery_text, simp_all)
  have n: "length g = 64" by (simp add: g_def sample_discovery_text)
  have "request_frame TEXT g"
    unfolding g_def by (rule sample_request) (simp_all add: sample_discovery_text padn_def)
  moreover have "payload g = pairs_text sample_targets_pairs"
    using sample_payload [of 16 "pairs_text sample_targets_pairs"] by (simp add: g_def sample_discovery_text)
  moreover have "mem_of g 2 = 0" unfolding g_def by (subst sample_header_at, simp) (simp add: sample_header_bytes)
  then have "iscsi_pdu_text_continue (mem_of g) 0 = 0" by (simp add: iscsi_pdu_text_continue_def byte2bit_eq numeral_2_eq_2)
  ultimately have t: "text_request g sample_targets_pairs" using sample_discovery_text(4) by (simp add: text_request_def)
  have h: "request_frame SCSI_CMD h" unfolding h_def using sample_request [of 0 "[]"] by (simp add: padn_def)
  have ps: "concat [take 50 f, drop 50 f] = f" "concat [g] = g" "concat [h] = h" by simp_all
  have s: "\<forall>x \<in> set ([take 50 f, drop 50 f] @ [g] @ [h]). x \<noteq> [] \<and> length x \<le> 256"
    using n by (simp add: f_def h_def login_pdu_def sample_discovery_text flip: length_greater_0_conv)
  have k: "find_pair sample_discovery_pairs (cstr ''InitiatorName'') = Some (cstr ''InitiatorName'', cstr ''abc'')"
    "find_pair sample_discovery_pairs (cstr ''SessionType'') = Some (cstr ''SessionType'', cstr ''Discovery'')"
    "find_pair sample_targets_pairs (cstr ''SendTargets'') = Some (cstr ''SendTargets'', cstr ''All'')"
    by (simp_all add: find_pair_def cstr_def)
  have e: "apply_pair q (cstr ''InitiatorName'', v) = q" "apply_pair q (cstr ''SessionType'', v) = q" for q v
    by (simp_all add: apply_pair_def keep_or_def parameter_keys cstr_def)
  have nn: "non_negative ?par" by (simp add: login_parameter_def e non_negative_def set_default_parameter_def)
  have m: "length (refused w) = 48" for w :: "nat world" by (simp add: reject_message_def rej_bytes_def padn_def)
  from discovery_over_the_wire [OF login_process_fresh p l t k(3) h ps s k(1,2) _ _ nn takes_all_lengths, of sample_os]
  obtain q1 q2 q3 where q: "exchange sample_os (\<lambda>bs. word_of_nat (length bs)) ?p [take 50 f, drop 50 f] [login_answer f ?par] q1"
    "exchange sample_os (\<lambda>bs. word_of_nat (length bs)) q1 [g] [text_message (mem_of g)] q2"
    "exchange sample_os (\<lambda>bs. word_of_nat (length bs)) q2 [h] [refused (proc_world q2)] q3"
    "listening 1 q3" "device (proc_world q3) = device (proc_world ?p)" by (auto simp: sample_os_def)
  have "reachable sample_os ?p q3"
    by (rule reachable_trans [OF exchangeD(1) [OF q(3)] reachable_trans [OF exchangeD(1) [OF q(2)] exchangeD(1) [OF q(1)]]])
  moreover have "sent q3 = login_answer f ?par @ text_message (mem_of g) @ refused (proc_world q2)"
    using exchangeD(2) [OF q(1)] exchangeD(2) [OF q(2)] exchangeD(2) [OF q(3)] by simp
  moreover have "device (proc_world ?p) = 0" by (simp add: login_process_def)
  ultimately show ?thesis using q(4,5) m by (intro exI [of _ q3] exI [of _ ?par] exI [of _ "refused (proc_world q2)"]) simp
qed

end
