(* ===== verification/Properties_Data.thy ===== *)
theory Properties_Data
  imports Iscsi_Samples
begin

text \<open>
  The properties of the data layer: numbers and bytes, the login text and the parameters, and the
  byte buffers. Each is followed by its application at concrete data.
\<close>

section \<open>Login parameters\<close>

text \<open>
  C21: The login text is parsed as its pairs. For a data segment that is a sequence of
  \<open>key=value\<close> pairs, each ended by a NUL, \<open>iscsi_connection_parameter_create\<close> runs without leaving
  an array, keeps the text, copies it into the parameter buffer and gives the parameters that come
  from the defaults by applying the pairs in order.
\<close>

theorem login_text_negotiates:
  assumes "at data 0 (pairs_text kvs)" "list_all wf_pair kvs"
    and "length (pairs_text kvs) \<le> 1048576" "sint len = int (length (pairs_text kvs))"
  shows "iscsi_connection_parameter_create p data len =
    Inr (foldl apply_pair (set_default_parameter (p\<lparr>
           pbuffer := blit (pbuffer p) 0 (\<lambda>i. blk data (pos data + i)) (length (pairs_text kvs)),
           plength := len\<rparr>)) kvs, blk data)"
  using assms by (rule create_text)

definition sample_pairs :: "(byte list \<times> byte list) list" where
  "sample_pairs = [(INITIAL_R2T, cstr ''No''), (MAX_BURST_LENGTH, cstr ''4096'')]"

lemma at_lit: "at (lit bs) 0 bs"
  by (simp add: at_def lit_def mem_of_def)

lemma sample_pairs_wf: "list_all wf_pair sample_pairs"
  by (simp add: sample_pairs_def wf_pair_def INITIAL_R2T_def MAX_BURST_LENGTH_def cstr_def)

lemma sample_pairs_length: "length (pairs_text sample_pairs) = 34"
  by (simp add: sample_pairs_def pairs_text_def pair_text_def INITIAL_R2T_def MAX_BURST_LENGTH_def)

lemma login_text_negotiates_witness:
  "\<exists>p'. iscsi_connection_parameter_create (sample_parameter 64) (lit (pairs_text sample_pairs)) 34
      = Inr (p', mem_of (pairs_text sample_pairs)) \<and> initial_r2t p' = 1 \<and> max_burst_length p' = 4096"
proof -
  have e: "iscsi_connection_parameter_create (sample_parameter 64) (lit (pairs_text sample_pairs)) 34 =
    Inr (foldl apply_pair (set_default_parameter ((sample_parameter 64)\<lparr>
           pbuffer := blit (pbuffer (sample_parameter 64)) 0
             (\<lambda>i. blk (lit (pairs_text sample_pairs)) (pos (lit (pairs_text sample_pairs)) + i))
             (length (pairs_text sample_pairs)),
           plength := 34\<rparr>)) sample_pairs, blk (lit (pairs_text sample_pairs)))"
    by (rule login_text_negotiates [OF at_lit sample_pairs_wf]) (simp_all add: sample_pairs_length)
  have v: "digits_value 0 (cstr ''4096'') = 4096" by (simp add: cstr_def)
  show ?thesis unfolding e
    by (simp add: sample_pairs_def apply_pair_numbers apply_pair_booleans v c_min_def lit_def)
qed

text \<open>
  C22: Whatever bytes a login text holds, well formed or not, \<open>iscsi_connection_parameter_create\<close>
  never leaves a parameter outside the limits of the target, and the text it writes NULs into while
  it scans is the same afterwards.
\<close>

theorem parameters_bounded:
  assumes "iscsi_connection_parameter_create p data len = Inr (p', m)"
  shows "negotiated p' \<and> m = blk data"
  using create_negotiated [OF assms] create_restores [OF assms] by simp

lemma parameters_bounded_witness:
  "\<exists>p' m. iscsi_connection_parameter_create (sample_parameter 64) (lit (pairs_text sample_pairs)) 34 = Inr (p', m)
     \<and> negotiated p' \<and> m = mem_of (pairs_text sample_pairs)"
proof -
  obtain p' m where r: "iscsi_connection_parameter_create (sample_parameter 64)
      (lit (pairs_text sample_pairs)) 34 = Inr (p', m)"
    using create_text [OF at_lit sample_pairs_wf, of 34 "sample_parameter 64"] by (simp add: sample_pairs_length)
  show ?thesis using r parameters_bounded [OF r] by (simp add: lit_def)
qed

text \<open>
  C24: The look-up of a key. \<open>iscsi_parameter_get\<close> reads nothing outside the text and the key, and
  returns the position after the first \<open>=\<close> whose item, cut by commas and NULs, has a key part that is
  a prefix of the requested key; it returns the null pointer exactly when no item has one.
\<close>

theorem key_lookup_first_match:
  assumes "at data 0 bs" "str_at key k" "sint len = int (length bs)"
  shows "\<exists>r. iscsi_parameter_get data len key = Inr r \<and> first_match bs k r"
  using assms by (rule get_first_match)

lemma key_lookup_first_match_witness:
  "\<exists>r. iscsi_parameter_get (lit (pairs_text sample_pairs)) 34 (lit (cstr ''SendTargets'')) = Inr r
     \<and> first_match (pairs_text sample_pairs) (cstr ''SendTargets'') r"
  by (rule key_lookup_first_match [OF at_lit str_at_lit]) (simp_all add: sample_pairs_length cstr_def)

text \<open>
  The offer of the target. From parameters within the limits and not negative,
  \<open>iscsi_connection_parameter_generate_operational_data\<close> succeeds, replaces the parameter buffer by the
  text of exactly the ten pairs of \<open>offered\<close>, and changes no negotiated value.
\<close>

theorem offer_written:
  assumes "negotiated q" "non_negative q"
  shows "\<exists>m n. iscsi_connection_parameter_generate_operational_data q = Inr (q\<lparr>pbuffer := m, plength := n\<rparr>)
    \<and> bytes_of m 0 (nat (sint n)) = pairs_text (offered q)"
  using generate_operational_data_ok [OF assms] by (metis nat_int)

lemma offer_written_witness:
  "\<exists>m n. iscsi_connection_parameter_generate_operational_data (sample_parameter 64)
      = Inr ((sample_parameter 64)\<lparr>pbuffer := m, plength := n\<rparr>)
    \<and> bytes_of m 0 (nat (sint n)) = pairs_text (offered (sample_parameter 64))"
  by (rule offer_written [OF sample_parameter_negotiated sample_parameter_non_negative]) simp

text \<open>
  C23: Round trip of the offer. The text that
  \<open>iscsi_connection_parameter_generate_operational_data\<close> writes is accepted by
  \<open>iscsi_connection_parameter_create\<close>, from any previous parameters, and gives back every value
  it was printed from.
\<close>

theorem offer_survives:
  assumes "negotiated q" "non_negative q"
  shows "\<exists>m n p'. iscsi_connection_parameter_generate_operational_data q = Inr (q\<lparr>pbuffer := m, plength := n\<rparr>)
    \<and> iscsi_connection_parameter_create p (iscsi_connection_parameter_data (q\<lparr>pbuffer := m, plength := n\<rparr>)) n
        = Inr (p', m)
    \<and> same_offer p' q"
proof -
  obtain m n where g: "iscsi_connection_parameter_generate_operational_data q = Inr (q\<lparr>pbuffer := m, plength := n\<rparr>)"
    and n: "sint n = int (length (pairs_text (offered q)))"
    and b: "bytes_of m 0 (length (pairs_text (offered q))) = pairs_text (offered q)"
    by (rule generate_operational_data_ok [OF assms])
  let ?d = "iscsi_connection_parameter_data (q\<lparr>pbuffer := m, plength := n\<rparr>)"
  have "\<forall>i < length (pairs_text (offered q)). m i = pairs_text (offered q) ! i"
    using b by (metis add_0 nth_bytes_of)
  then have "at ?d 0 (pairs_text (offered q))"
    using length_offered [of q] by (simp add: at_def iscsi_connection_parameter_data_def)
  then have "\<exists>r. iscsi_connection_parameter_create p ?d n = Inr (foldl apply_pair r (offered q), m)"
    using create_text [OF _ offered_wf _ n, of ?d p] length_offered [of q]
    by (simp add: iscsi_connection_parameter_data_def) blast
  then show ?thesis using g foldl_offered [OF assms] by blast
qed

lemma offer_survives_witness:
  "\<exists>m n p'. iscsi_connection_parameter_generate_operational_data (sample_parameter 64)
      = Inr ((sample_parameter 64)\<lparr>pbuffer := m, plength := n\<rparr>)
    \<and> iscsi_connection_parameter_create (sample_parameter 9)
        (iscsi_connection_parameter_data ((sample_parameter 64)\<lparr>pbuffer := m, plength := n\<rparr>)) n = Inr (p', m)
    \<and> same_offer p' (sample_parameter 64)"
  by (rule offer_survives [OF sample_parameter_negotiated sample_parameter_non_negative]) simp

section \<open>Buffers\<close>

text \<open>
  C15: The buffer is a bounded queue. Any sequence of insertions through \<open>iscsi_buffer_receive\<close> and
  removals through \<open>iscsi_buffer_flush\<close>, of at most the capacity each, gives the same result as on
  a list: the same bytes, the same waiting for space, the same failed assertion.
\<close>

theorem buffer_refines_queue:
  assumes "buffer_ok b" "short_ops 4194304 ops"
  shows "map_sum id contents (run_ops buffer_put buffer_drop b ops)
    = run_ops (list_put 4194304) list_drop (contents b) ops"
  using assms by (rule iscsi_queue.run_refines)

lemma buffer_refines_queue_witness:
  "map_sum id contents (run_ops buffer_put buffer_drop (sample_buffer [1]) [Enq [2, 3], Deq 2, Enq [4]]) = Inr [3, 4]
    \<and> map_sum id contents (run_ops buffer_put buffer_drop (sample_buffer [1]) [Enq [2, 3], Deq 4]) = Inl AssertFailed"
  using buffer_refines_queue [OF sample_buffer_ok, of "[1]" "[Enq [2, 3], Deq 2, Enq [4]]"]
    buffer_refines_queue [OF sample_buffer_ok, of "[1]" "[Enq [2, 3], Deq 4]"]
  by (simp add: sample_buffer_contents list_put_def list_drop_def)

text \<open>
  First in, first out. After any successful sequence of insertions and removals the buffer holds
  what it held before followed by everything inserted, without as many bytes from the front as
  were removed; no byte is lost, repeated or reordered.
\<close>

theorem buffer_fifo:
  assumes "buffer_ok b" "short_ops 4194304 ops" "run_ops buffer_put buffer_drop b ops = Inr b'"
  shows "contents b' = drop (dequeued ops) (contents b @ enqueued ops)"
  using assms by (rule iscsi_queue.run_fifo)

lemma buffer_fifo_witness:
  "\<exists>b'. run_ops buffer_put buffer_drop (sample_buffer [1]) [Enq [2, 3], Deq 2, Enq [4]] = Inr b'
    \<and> contents b' = drop 2 ([1] @ [2, 3, 4])"
proof -
  let ?ops = "[Enq [2, 3], Deq 2, Enq [4 :: byte]]"
  have "map_sum id contents (run_ops buffer_put buffer_drop (sample_buffer [1]) ?ops) = Inr [3, 4]"
    using iscsi_queue.run_refines [OF sample_buffer_ok, of "[1]" ?ops]
    by (simp add: sample_buffer_contents list_put_def list_drop_def)
  then obtain b' where r: "run_ops buffer_put buffer_drop (sample_buffer [1]) ?ops = Inr b'"
    by (cases "run_ops buffer_put buffer_drop (sample_buffer [1]) ?ops") auto
  have "contents b' = drop 2 ([1] @ [2, 3, 4])"
    using buffer_fifo [OF sample_buffer_ok _ r] by (simp add: sample_buffer_contents)
  with r show ?thesis by blast
qed

text \<open>
  \<open>iscsi_buffer_receive\<close> on every length that is not negative: a piece longer than the buffer is
  refused with -1 and nothing changes, a piece with no space left waits, and any other is appended
  and leaves the buffer well formed.
\<close>

theorem receive_outcomes:
  assumes "buffer_ok b" "sint len = int n" "pos src + n \<le> bsz src"
  shows "if 4194304 < n then iscsi_buffer_receive b src len = Inr (-1, b)
    else if 4194304 < fill b + n then iscsi_buffer_receive b src len = Inl Blocked
    else \<exists>b'. iscsi_buffer_receive b src len = Inr (0, b') \<and> buffer_ok b'
      \<and> contents b' = contents b @ bytes_of (blk src) (pos src) n"
proof -
  have "room b n" if "fill b + n \<le> 4194304" using that assms by (simp add: room_def)
  then show ?thesis
    using assms receive_too_long [of len b src] receive_blocked [of b len src]
    by (cases "fill b + n \<le> 4194304") (auto elim: receive_ok [of b n len src])
qed

lemma receive_outcomes_witness:
  "\<exists>b'. iscsi_buffer_receive (sample_buffer [7]) (lit [8, 9]) 2 = Inr (0, b') \<and> contents b' = [7, 8, 9]"
  using receive_outcomes [OF sample_buffer_ok, of "[7]" 2 2 "lit [8, 9]"]
  by (auto simp: sample_buffer_fill sample_buffer_contents bytes_of_lit lit_def mem_of_def bytes_of_def)

text \<open>
  \<open>iscsi_buffer_flush\<close> on every length that is not negative: more bytes than the buffer holds fail
  the assertion, otherwise exactly the first bytes are removed and the rest moves to the front.
\<close>

theorem flush_outcomes:
  assumes "buffer_ok b" "sint len = int n"
  shows "if fill b < n then iscsi_buffer_flush b len = Inl AssertFailed
    else \<exists>b'. iscsi_buffer_flush b len = Inr b' \<and> buffer_ok b' \<and> contents b' = drop n (contents b)"
  using assms flush_assert [of b len] by (auto simp: sint_fill elim: flush_ok [of b len n])

lemma flush_outcomes_witness:
  "iscsi_buffer_flush (sample_buffer [7]) 2 = Inl AssertFailed
    \<and> (\<exists>b'. iscsi_buffer_flush (sample_buffer [7, 8, 9]) 2 = Inr b' \<and> contents b' = [9])"
  using flush_outcomes [OF sample_buffer_ok, of "[7]" 2 2]
    flush_outcomes [OF sample_buffer_ok, of "[7, 8, 9]" 2 2]
  by (auto simp: sample_buffer_fill sample_buffer_contents)

section \<open>Numbers and bytes\<close>

text \<open>
  A number printed by \<open>int_to_string\<close> and read by \<open>string_to_int\<close> comes back, for every \<open>int\<close>
  that is not negative; a negative one is printed as the empty string, which reads as 0.
\<close>

theorem number_round_trip:
  "string_to_int (static_ptr (int_to_string m s)) = Inr (if 0 \<le> sint s then s else 0)"
  by (rule string_to_int_int_to_string)

text \<open>
  Big-endian words. \<open>iscsi_byte_byte2int\<close> and \<open>iscsi_byte_int2byte\<close> are inverse to each other on
  every array, and the setter writes the four bytes from the most significant one on and no other.
\<close>

theorem word_round_trip:
  "iscsi_byte_byte2int (iscsi_byte_int2byte m a v) a = v
    \<and> iscsi_byte_int2byte m a (iscsi_byte_byte2int m a) = m
    \<and> iscsi_byte_int2byte m a v i =
        (if i = a then byte_at v 24 else if i = a + 1 then byte_at v 16
         else if i = a + 2 then byte_at v 8 else if i = a + 3 then byte_at v 0 else m i)"
  by (simp add: int2byte_apply)

text \<open>
  Single bits. After \<open>iscsi_byte_bit2byte\<close> the bit it wrote, counted from the most significant
  one, is the low bit of the value, and the other seven bits are as before.
\<close>

theorem bit_round_trip:
  assumes "p < 8" "q < 8"
  shows "iscsi_byte_byte2bit (iscsi_byte_bit2byte m a p v a) q =
     (if q = p then v AND 1 else iscsi_byte_byte2bit (m a) q)"
  using assms by (rule byte2bit_bit2byte)

lemma bit_round_trip_witness:
  "iscsi_byte_byte2bit (iscsi_byte_bit2byte (\<lambda>_. 0x81) 3 1 1 3) 1 = 1
    \<and> iscsi_byte_byte2bit (iscsi_byte_bit2byte (\<lambda>_. 0x81) 3 1 1 3) 7 = iscsi_byte_byte2bit 0x81 7"
  using bit_round_trip [of 1 1 "\<lambda>_. 0x81" 3 1] bit_round_trip [of 1 7 "\<lambda>_. 0x81" 3 1] by simp

text \<open>
  \<open>divide_round_up\<close> is the quotient rounded up, for a dividend that is not negative, a positive
  divisor and a sum that does not overflow: the least number of pieces of \<open>b\<close> that holds \<open>a\<close>.
\<close>

theorem round_up_pieces:
  assumes "0 \<le> sint a" "0 < sint b" "sint a + sint b \<le> 2147483647"
  shows "\<exists>q. divide_round_up a b = Inr q \<and> sint a \<le> sint q * sint b \<and> (sint q - 1) * sint b < max 1 (sint a)"
proof -
  obtain q where q: "divide_round_up a b = Inr q" "sint q = (sint a + sint b - 1) div sint b"
    using divide_round_up_spec [OF assms] by auto
  have "sint a + sint b - 1 = sint b * sint q + (sint a + sint b - 1) mod sint b"
    by (simp add: q(2))
  moreover have "0 \<le> (sint a + sint b - 1) mod sint b" "(sint a + sint b - 1) mod sint b < sint b"
    using assms(2) by simp_all
  ultimately have "sint a \<le> sint q * sint b" "sint q * sint b - sint b < sint a"
    by (simp_all add: mult.commute)
  then have "sint a \<le> sint q * sint b" "(sint q - 1) * sint b < max 1 (sint a)"
    by (simp_all add: left_diff_distrib)
  with q(1) show ?thesis by blast
qed

lemma round_up_pieces_witness:
  "\<exists>q. divide_round_up 10 4 = Inr q \<and> 10 \<le> sint q * 4 \<and> (sint q - 1) * 4 < 10"
  using round_up_pieces [of 10 4] by simp

end
