(* ===== verification/Properties_Wire.thy ===== *)
theory Properties_Wire
  imports Iscsi_Samples
begin

text \<open>
  The properties of the wire format: the fields and lengths of a PDU header, and the messages the
  handlers without a SCSI device append to the response buffer.
\<close>

section \<open>Headers\<close>

text \<open>
  What a setter of a header field writes, its getter reads: the opcode of every kind of PDU, with
  the immediate bit kept, the final bit, the data segment length in its 24 bits, and both tags.
\<close>

theorem header_round_trip:
  "iscsi_pdu_opcode (iscsi_pdu_set_opcode m a opc) a = opcode_value opc
    \<and> iscsi_pdu_immediate (iscsi_pdu_set_opcode m a opc) a = iscsi_pdu_immediate m a
    \<and> iscsi_pdu_final (iscsi_pdu_set_final m a f) a = f AND 1
    \<and> iscsi_pdu_data_segment_length (iscsi_pdu_set_data_segment_length m a len) a = len AND 0xFFFFFF
    \<and> iscsi_pdu_initiator_task_tag (iscsi_pdu_set_initiator_task_tag m a tag) a = tag
    \<and> iscsi_pdu_target_transfer_tag (iscsi_pdu_set_target_transfer_tag m a tag) a = tag"
  by (simp add: opcode_set_opcode immediate_set_opcode data_segment_length_low
      iscsi_pdu_final_def iscsi_pdu_set_final_def iscsi_pdu_initiator_task_tag_def
      iscsi_pdu_set_initiator_task_tag_def iscsi_pdu_target_transfer_tag_def
      iscsi_pdu_set_target_transfer_tag_def byte2bit_bit2byte)

text \<open>
  C40: The length of a PDU. On every header \<open>iscsi_pdu_length\<close> is the 48 bytes of the basic header, the
  additional header length it reads (in bytes) and the data segment length, rounded up to a multiple
  of 4 without overflow, and is between 48 and 16777600; \<open>iscsi_pdu_valid\<close> tests that this many
  bytes are there.
\<close>

theorem pdu_length_bounds:
  "sint (iscsi_pdu_length m a) = int (plen m a) \<and> 4 dvd plen m a
    \<and> plen m a = padn (48 + unat (m (a + 4)) + (65536 * unat (m (a + 5)) + 256 * unat (m (a + 6)) + unat (m (a + 7))))
    \<and> 48 \<le> plen m a \<and> plen m a \<le> 16777600
    \<and> (iscsi_pdu_valid m a len \<longleftrightarrow> int (plen m a) \<le> sint len)"
proof -
  have "int (dsl m a) = int (65536 * unat (m (a + 5)) + 256 * unat (m (a + 6)) + unat (m (a + 7)))"
    by (simp add: sint_dsl [symmetric] sint_data_segment_length)
  then have "dsl m a = 65536 * unat (m (a + 5)) + 256 * unat (m (a + 6)) + unat (m (a + 7))"
    by (simp only: of_nat_eq_iff)
  then show ?thesis
    using plen_bounds [of m a] by (simp add: sint_pdu_length pdu_valid_iff) (simp add: plen_def padn_def)
qed

section \<open>Answers\<close>

text \<open>
  Logout. On a connection with a session and with 48 bytes of room, the answer to a logout is the
  48-byte response of \<open>logout_message\<close>, appended to the response buffer with the current StatSN,
  which advances by one; nothing else of the connection changes.
\<close>

theorem logout_answer:
  assumes "session_reference c \<noteq> NoSession" "room (response_buffer c) 48"
  shows "\<exists>v b. iscsi_request_logout_process c = Inr (v, c\<lparr>response_buffer := b, stat_sn := stat_sn c + 1\<rparr>)
    \<and> buffer_ok b \<and> contents b = contents (response_buffer c) @ logout_message c ()
    \<and> frame (logout_message c ())"
proof -
  have g: "logout_good c ()" using assms(1) by (simp add: logout_good_def)
  have "room (response_buffer c) (length (logout_message c ()))"
    using assms(2) by (simp add: logout_message_def)
  from after_pairD [OF logout.sends [OF g this, unfolded logout_send_def]] logout.framed [OF g]
  show ?thesis by simp
qed

lemma logout_answer_witness:
  "\<exists>v b. iscsi_request_logout_process (sample_connection 64 [])
      = Inr (v, (sample_connection 64 [])\<lparr>response_buffer := b, stat_sn := 6\<rparr>)
    \<and> contents b = logout_message (sample_connection 64 []) ()"
  using logout_answer [of "sample_connection 64 []"]
  by (auto simp: sample_buffer_room sample_buffer_contents) (auto simp: sample_connection_def)

text \<open>
  Ping. A NOP-Out whose data is within the negotiated limit and a multiple of 4 long is answered
  with a NOP-In that carries both tags and the same data back.
\<close>

theorem nop_echo:
  assumes "nop_good c ()" "room (response_buffer c) (48 + dsl (request_of c) 0)"
  shows "\<exists>v b. iscsi_request_nop_out_process c = Inr (v, c\<lparr>response_buffer := b, stat_sn := stat_sn c + 1\<rparr>)
    \<and> buffer_ok b \<and> contents b = contents (response_buffer c) @ nop_message c ()
    \<and> drop 48 (nop_message c ()) = bytes_of (request_of c) 48 (dsl (request_of c) 0)
    \<and> frame (nop_message c ())"
proof -
  have "room (response_buffer c) (length (nop_message c ()))"
    using assms by (simp add: nop_data_length)
  from after_pairD [OF nop.sends [OF assms(1) this, unfolded nop_send_def]] nop.framed [OF assms(1)]
  show ?thesis by (simp add: nop_message_def Let_def)
qed

lemma nop_echo_witness:
  "\<exists>v b. iscsi_request_nop_out_process (sample_connection 64 (sample_header 0 0x80 4 9 0 0 @ [1, 2, 3, 4]))
      = Inr (v, (sample_connection 64 (sample_header 0 0x80 4 9 0 0 @ [1, 2, 3, 4]))\<lparr>response_buffer := b, stat_sn := 6\<rparr>)
    \<and> drop 48 (contents b) = [1, 2, 3, 4]"
proof -
  let ?c = "sample_connection 64 (sample_header 0 0x80 4 9 0 0 @ [1, 2, 3, 4])"
  have g: "nop_good ?c ()" by (simp add: nop_good_def sample_parameter_def)
  have r: "room (response_buffer ?c) (48 + dsl (request_of ?c) 0)" by (simp add: sample_buffer_room)
  have "bytes_of (request_of ?c) 48 4 = [1, 2, 3, 4]"
    by (rule nth_equalityI) (auto simp: mem_of_def nth_append numeral_eq_Suc less_Suc_eq)
  moreover have "stat_sn ?c = 5" by (simp add: sample_connection_def)
  moreover obtain v b where "iscsi_request_nop_out_process ?c
      = Inr (v, ?c\<lparr>response_buffer := b, stat_sn := stat_sn ?c + 1\<rparr>)"
    "contents b = contents (response_buffer ?c) @ nop_message ?c ()"
    "drop 48 (nop_message ?c ()) = bytes_of (request_of ?c) 48 (dsl (request_of ?c) 0)"
    using nop_echo [OF g r] by blast
  ultimately show ?thesis by (intro exI [of _ v] exI [of _ b]) (simp add: sample_buffer_contents)
qed

text \<open>
  Reject. Every reject, with or without data, is one frame of reason, data and padding, appended
  with the next StatSN when it fits; when it does not fit the handler waits.
\<close>

theorem reject_answer:
  assumes g: "reject_good c \<lparr>rej_reason = reason, rej_data = d, rej_length = len\<rparr>" (is "reject_good c ?r")
    and b: "buffer_ok (response_buffer c)"
  shows "if room (response_buffer c) (length (reject_message c ?r))
    then \<exists>v b. iscsi_request_reject c reason d len = Inr (v, c\<lparr>response_buffer := b, stat_sn := stat_sn c + 1\<rparr>)
      \<and> buffer_ok b \<and> contents b = contents (response_buffer c) @ reject_message c ?r
      \<and> frame (reject_message c ?r)
    else iscsi_request_reject c reason d len = Inl Blocked"
proof (cases "room (response_buffer c) (length (reject_message c ?r))")
  case True
  from after_pairD [OF reject.sends [OF g True, unfolded reject_send_def]] reject.framed [OF g] True
  show ?thesis by simp
next
  case False
  from reject.waits [OF g b False] False show ?thesis
    by (cases "iscsi_request_reject c reason d len") (auto simp: reject_send_def)
qed

end
