(* ===== verification/Spec2Isabelle.thy ===== *)
theory Spec2Isabelle
  imports Iscsi_Termination Iscsi_System Iscsi_Logger Properties_Session Properties_Data Properties_Wire Properties_Scsi Properties_Login
begin

text \<open>
  A model of an iSCSI target in C, with the theorems that make it correct.

  THE PROGRAM. The target accepts a TCP connection and forks a process for it (\<^verbatim>\<open>main.c\<close>). In that
  process a receiver thread hands what \<open>recv\<close> returned to \<open>incoming_request\<close>
  (\<^verbatim>\<open>iscsi_connection.c\<close>), which appends it to the receive buffer (\<^verbatim>\<open>iscsi_buffer.c\<close>) and, when a whole
  PDU is at its start, calls the dispatcher \<open>iscsi_server_process\<close> (\<^verbatim>\<open>iscsi_server.c\<close>) and then flushes
  the PDU. The dispatcher chooses a handler by the state of the session and the opcode: login, text,
  logout, NOP, reject, SCSI command, Data-Out (\<^verbatim>\<open>request/*.c\<close>). A handler builds its answer in place
  behind the bytes that wait in the response buffer and commits it; the transmitter thread sends the
  first PDU of that buffer and flushes it. SCSI commands reach the device through one SG_IO ioctl
  (\<^verbatim>\<open>iscsi_target.c\<close>); the session (\<^verbatim>\<open>iscsi_session.c\<close>) holds the target and the one transfer entry
  of an incomplete write (\<^verbatim>\<open>iscsi_transfer_entry.c\<close>); the negotiated parameters and their text are in
  \<^verbatim>\<open>iscsi_connection_parameter.c\<close>.

  THE MODEL. A C \<open>int\<close> is a \<open>32 word\<close> with wrapping arithmetic, read with \<open>sint\<close>; a byte is an
  \<open>8 word\<close>. Arrays are functions on offsets; every access outside the array, null pointer, division
  by zero, failed \<open>assert\<close>, \<open>exit\<close> and every wait that only another thread can end is a value of
  \<open>c_error\<close>, so a result \<open>Inr\<close> says that none of them happened. Definitions carry the names of the C
  functions and constants (the inline functions that read one field are opened by the simplifier);
  an answer under construction is the array and the position that
  \<open>iscsi_buffer_acquire_lock_for_length\<close> returned.
    \<^item> \<open>Iscsi_Prelude\<close>: machine types, constants (\<^verbatim>\<open>iscsi_define.h\<close>), errors, memory, C strings.
    \<^item> \<open>Iscsi_Byte\<close> (\<^verbatim>\<open>iscsi_byte.h\<close>), \<open>Iscsi_Utility\<close> (\<^verbatim>\<open>iscsi_utility.c\<close>), \<open>Iscsi_Buffer\<close>
      (\<^verbatim>\<open>iscsi_buffer.c\<close>), \<open>Iscsi_Parameter\<close> (\<^verbatim>\<open>iscsi_connection_parameter.c\<close>), \<open>Iscsi_State\<close> (transfer
      entry, target, session, connection), \<open>Iscsi_Pdu\<close> (\<^verbatim>\<open>iscsi_pdu.h\<close>, \<^verbatim>\<open>iscsi_pdu.c\<close>): data and
      operations.
    \<^item> \<open>Iscsi_Control\<close> (reject, logout, NOP, text), \<open>Iscsi_Login\<close>, \<open>Iscsi_Scsi\<close> (R2T, Data-In, command,
      Data-Out): the handlers. \<open>Iscsi_Server\<close>: dispatcher and receiver.
    \<^item> \<open>Iscsi_Main\<close>: one round of each thread, the process as the step relation \<open>step\<close>, reachability.
      \<open>Iscsi_Interleaving\<close>: the statements of the transmitter (\<^verbatim>\<open>start_transmit\<close>, its polling included)
      and of an answering handler on the response buffer (the loop of
      \<open>iscsi_buffer_acquire_lock_for_length\<close> that tests the space and asks again included), as the step
      relations \<open>transmitter_step\<close> and \<open>handler_step\<close>, and \<open>interleaved\<close>, a step of either.
      \<open>Iscsi_Delivery\<close>: the receiver over the pieces that \<^verbatim>\<open>recv\<close> returns. \<open>Iscsi_System\<close>: the loop of \<^verbatim>\<open>main\<close> that accepts and
      forks, and all the processes on the one device, as the step relation \<open>server\<close>.
    \<^item> \<open>Iscsi_Logger\<close>: the output for the operator (\<^verbatim>\<open>iscsi_logger.c\<close>, the report of \<^verbatim>\<open>iscsi_target.c\<close> on a
      failed command), with the proof that the hexadecimal dump can be read back and that the report
      stays within the sense buffer.
  A \<open>world\<close> is the connection, the two global objects of the process and the state of the device. The
  device (\<open>os_ioctl\<close>), the descriptor it is opened with (\<open>os_open\<close>) and the network (the argument
  \<open>send\<close> of \<open>transmit_round\<close>, the bytes \<open>to_receive\<close>) are parameters, unrestricted in every theorem
  that does not say otherwise. The model passes the transfer direction of the code, from the device, to
  the ioctl; what the driver makes of the buffer is its own, and C8 assumes what its documentation says.

  THE LEMMAS.
    \<^item> \<open>Iscsi_Negotiation\<close>, \<open>Iscsi_Lookup\<close>, \<open>Iscsi_Offer\<close>: the login text as pairs, the limits of the
      parameters, what a look-up finds, the text of the offer and its reading back.
    \<^item> \<open>Iscsi_Buffer\<close> states the contract of a bounded queue as the locale \<open>byte_queue\<close>, interpreted on
      the buffer; its client lemmas refine any run of operations to lists.
    \<^item> \<open>Iscsi_Response\<close> states the contract of a handler that answers as the locale \<open>sender\<close> (with room
      the message is appended, without it the handler waits, the message is a frame), with the lemmas
      on series of messages; \<open>Iscsi_Senders\<close> interprets it on logout, R2T, Data-In, reject, NOP and SCSI
      response; \<open>Iscsi_Commands\<close> obtains reads, writes and Data-Out from it.
    \<^item> \<open>Iscsi_Sessions\<close>, \<open>Iscsi_Setup\<close>, \<open>Iscsi_Text\<close>: the login and text messages byte by byte, the session
      setup as a function of the pairs, the login that reaches the full feature phase.
    \<^item> \<open>Iscsi_Invariant\<close>: the invariant \<open>world_ok\<close>, kept by every handler, the dispatcher and the
      receiver on every request. \<open>Iscsi_Main\<close>: its consequence for reachable states, and the
      transmitter. \<open>Iscsi_Termination\<close>: the fuel is never used up, and more fuel changes nothing.
    \<^item> \<open>Iscsi_Interleaving\<close> refines the two threads to the abstract relation \<open>channel\<close>, a queue of whole
      messages, by the invariant \<open>line_ok\<close>; each handler under the contract \<open>sender\<close>, and each round of
      the transmitter, is a run of it, and the value \<open>Blocked\<close> of
      \<open>iscsi_buffer_acquire_lock_for_length\<close> is the endless retry of its loop (\<open>blocked_is_retry\<close>).
      \<open>Iscsi_Fairness\<close> takes the endless runs of the two threads and shows with \<open>rank\<close> that every fair
      one delivers all answers (\<open>fair_delivers\<close>): fair means that a thread which can step infinitely
      often does, and that a handler which writes an answer finishes it.
      \<open>Iscsi_Delivery\<close> takes a PDU from the socket to the dispatcher and a first login from the
      socket back to the socket. \<open>Iscsi_Exchange\<close> and \<open>Iscsi_Write\<close> do the same for the requests of a
      logged in session: the state \<open>listening\<close> between two requests (\<open>quiet\<close> in a normal session), the
      locale \<open>request_handler\<close> with what the dispatcher and the receiver need of the handler of an opcode,
      its extension \<open>connection_handler\<close> for handlers that work on the connection alone, interpreted on
      the handlers of SCSI commands, Data-Out, NOP-Out, text and logout, and from it whole reads,
      writes, pings and logouts. \<open>Iscsi_Discovery\<close> adds discovery sessions, with the locale
      \<open>refused_request\<close> for what a session rejects. \<open>Iscsi_Agreement\<close>: in the full feature phase no
      step changes the negotiated parameters or the kind of the session. \<open>Iscsi_Service\<close> is the
      abstract specification of a normal session: the state \<open>session_view\<close>, requests of six kinds, what
      each is answered with (\<open>talk\<close>) and the next state (\<open>upshot\<close>), and the proof that the process
      goes through it for every list of requests (\<open>service_refined\<close>), also right from \<open>fork\<close> through the
      login (\<open>connection_served\<close>), on the schedule on which the threads take turns and with every PDU
      cut into pieces on its own.
      \<open>Iscsi_System\<close> carries the invariant over to every process that the
      first one forked.
    \<^item> \<open>Iscsi_Samples\<close> and the theories \<open>Properties_Data\<close>, \<open>Properties_Wire\<close>, \<open>Properties_Scsi\<close>,
      \<open>Properties_Login\<close>, \<open>Properties_Transport\<close>, \<open>Properties_Session\<close>: the properties, each with its
      application to concrete data. The properties that span components are below.

  BOUNDS AND FUEL. The only loop with fuel is that of \<open>iscsi_request_data_in_send\<close>. It gets the expected
  length and one round more; each round after the first moves the offset on by at least one byte or
  fails, so this is enough for every argument, which \<open>processing_terminates\<close> proves. All other
  loops are structural or have a measure.

  ABSTRACTIONS. In \<open>step\<close> a round of a thread is one step, and a round that would wait is no step, since
  the other thread has to act first. The threads share the response buffer only, and \<open>interleaved\<close> has
  their accesses to it in any order, between the responses of one handler and at the reads of the
  transmitter without the semaphore too, with the rounds that poll and that find no space as steps of
  their own; there an answer is what the contract \<open>sender\<close> says, a message
  that does not depend on the buffer, written between the two calls that take and give back the
  semaphore. \<open>iscsi_buffer_flush\<close> and the two calls with the semaphore are one step each: the other
  thread cannot see their inside. A \<open>send\<close> is a function of the bytes it is given.
  \<open>malloc\<close> leaves the connection unspecified; a fresh process is one whose buffer lengths happen to
  be 0, as the program relies on. Pointers passed to a handler are always the start of the receive
  buffer of the connection.

  NOT MODELLED. The single messages that the functions log (they have no effect on the protocol), the
  address that \<^verbatim>\<open>main.c\<close> binds its socket to and the pauses of its loops, code that is commented out,
  the generated Makefile and the test scripts.
\<close>

section \<open>The process of a connection\<close>

text \<open>
  C1: Every reachable state of a process is safe. From the state after \<open>fork\<close>, after any number of
  rounds of the receiver and the transmitter in any order, with any bytes from the peer cut in any
  pieces, any device and any behaviour of the network: as long as the transmitter runs, both buffers
  are free and within their arrays, a connection with a session has its target and parameters within
  the limits, one without has no full feature phase, and the device is as it was until the session
  is in the full feature phase.
\<close>

theorem process_safe:
  assumes "fresh (proc_world p)" "reachable os p q" "transmitting q"
  shows "world_ok (proc_world q)
    \<and> (is_full_feature_phase (default_session (proc_world q)) = 0 \<longrightarrow> device (proc_world q) = device (proc_world p))"
  using safe_reachable [OF assms(2) fresh_safe [OF assms(1)]] assms(3) by (simp add: safe_def)

definition sample_process :: "nat process" where
  "sample_process = \<lparr>proc_world = (sample_world 64 [])\<lparr>
       connection := iscsi_connection_create (sample_connection 64 []) 4 NoSession,
       default_session := sample_session\<lparr>session_max_connections := 0, is_full_feature_phase := 0\<rparr>\<rparr>,
     receiving = True, transmitting = True, to_receive = [1, 2], sent = []\<rparr>"

lemma sample_process_fresh: "fresh (proc_world sample_process)"
  unfolding fresh_def
  by (intro conjI exI [of _ "sample_connection 64 []"] exI [of _ 4])
    (simp_all add: sample_process_def sample_session_def sample_buffer_def sample_entry_def)

lemma sample_round: "\<exists>w. receive_round sample_os (proc_world sample_process) [1] = Inr (True, w)"
proof -
  let ?w = "proc_world sample_process"
  have ok: "world_ok ?w" by (rule fresh_ok [OF sample_process_fresh])
  have e: "contents (receive_buffer (connection ?w)) = []" and
    r: "room (receive_buffer (connection ?w)) 1"
    by (simp_all add: sample_process_def iscsi_connection_create_def iscsi_buffer_new_def sample_buffer_def
        contents_def fill_def room_def buffer_ok_def)
  show ?thesis
    by (rule incoming_request_steps [OF ok r, of 1 "recv_ptr [1]" sample_os])
      (auto simp: receive_round_def recv_ptr_def complete_def e)
qed

lemma process_safe_witness:
  "\<exists>q. reachable sample_os sample_process q \<and> to_receive q = [2] \<and> transmitting q \<and> world_ok (proc_world q)"
proof -
  obtain w where w: "receive_round sample_os (proc_world sample_process) [1] = Inr (True, w)"
    using sample_round by auto
  let ?q = "sample_process\<lparr>proc_world := w, receiving := True, to_receive := [2]\<rparr>"
  have "step sample_os sample_process ?q"
    by (rule step_receive [OF _ _ _ _ w]) (simp_all add: sample_process_def)
  then have q: "reachable sample_os sample_process ?q" by (rule reachable_step [OF reachable_start])
  have t: "transmitting ?q" by (simp add: sample_process_def)
  show ?thesis using process_safe [OF sample_process_fresh q t] q t by (intro exI [of _ ?q]) simp
qed

text \<open>
  C3: The receiver takes one PDU at a time. When \<open>incoming_request\<close> returns, the invariant of the world
  is kept, nothing waiting in the response buffer was removed, the receive buffer is what it held
  followed by the new bytes, without its first PDU when that was complete, the full feature phase is
  never left, and the device was used at most once and only in the full feature phase.
\<close>

theorem incoming_takes_one_pdu:
  assumes "world_ok w" "room (receive_buffer (connection w)) n" "sint len = int n"
    and "pos buf + n \<le> bsz buf" "incoming_request os w buf len = Inr (v, w')"
  shows "world_ok w' \<and> fill (response_buffer (connection w)) \<le> fill (response_buffer (connection w'))
    \<and> contents (receive_buffer (connection w')) =
        consumed (contents (receive_buffer (connection w)) @ bytes_of (blk buf) (pos buf) n)
    \<and> (is_full_feature_phase (default_session w) \<noteq> 0 \<longrightarrow> is_full_feature_phase (default_session w') \<noteq> 0)
    \<and> (device w' = device w \<or> driven os (device w) (device w') \<and> is_full_feature_phase (default_session w) \<noteq> 0)"
  using incoming_progress [OF assms] by blast

lemma incoming_takes_one_pdu_witness:
  "\<exists>v w'. incoming_request sample_os (sample_world 64 []) (lit [1, 2]) 2 = Inr (v, w')
    \<and> contents (receive_buffer (connection w')) = [1, 2]"
proof -
  let ?w = "sample_world 64 []"
  have ok: "world_ok ?w" by (rule sample_world_ok) simp_all
  have r: "room (receive_buffer (connection ?w)) 2" by (simp add: sample_buffer_room)
  have b: "bytes_of (blk (lit [1, 2])) (pos (lit [1, 2])) 2 = [1, 2]"
    using bytes_of_lit [of "[1, 2]"] by (simp add: numeral_2_eq_2)
  have s: "pos (lit [1, 2]) + 2 \<le> bsz (lit [1, 2])" by (simp add: lit_def)
  obtain v w' where i: "incoming_request sample_os ?w (lit [1, 2]) 2 = Inr (v, w')"
    by (rule incoming_request_steps [OF ok r _ s, of 2 sample_os])
      (auto simp: complete_def sample_buffer_contents b)
  from incoming_takes_one_pdu [OF ok r _ s i] i show ?thesis
    by (auto simp: b sample_buffer_contents consumed_def complete_def)
qed

text \<open>
  C5: The dispatcher, on every PDU. Whatever bytes the request holds, when \<open>iscsi_server_process\<close>
  returns the invariant of the world is kept, the receive buffer is untouched and the response buffer
  has not shrunk; the bytes that wait in it are still there, in order and unchanged, before what was
  added, unless the request is a ping with more data than the limit of the connection; and the
  device is used, at most once, only for a SCSI command or a Data-Out of a normal session in the full
  feature phase.
\<close>

theorem dispatcher_safe:
  assumes "iscsi_server_process os w = Inr (v, w')" "world_ok w"
  shows "progress w w'
    \<and> (\<not> cut_ping (connection w) \<longrightarrow>
        prefix (contents (response_buffer (connection w))) (contents (response_buffer (connection w'))))
    \<and> (device w' = device w \<or> driven os (device w) (device w') \<and> scsi_allowed w)"
  using server_progress [OF assms] server_appends [OF assms] by blast

lemma dispatcher_safe_witness:
  "\<exists>v w'. iscsi_server_process sample_os (sample_world 64 (sample_header 6 0x80 0 0 0 0)) = Inr (v, w')
    \<and> progress (sample_world 64 (sample_header 6 0x80 0 0 0 0)) w'
    \<and> prefix (contents (response_buffer (sample_connection 64 (sample_header 6 0x80 0 0 0 0))))
        (contents (response_buffer (connection w')))"
proof -
  let ?w = "sample_world 64 (sample_header 6 0x80 0 0 0 0)" and ?c = "sample_connection 64 (sample_header 6 0x80 0 0 0 0)"
  have ok: "world_ok ?w" by (rule sample_world_ok) simp_all
  have n: "valid_command_numbering ?w = (True, ?w)"
    by (simp add: valid_command_numbering_def iscsi_pdu_has_cmdSN_def)
  have g: "logout_good ?c ()" by (simp add: logout_good_def)
  have "room (response_buffer ?c) (length (logout_message ?c ()))"
    by (simp add: logout_message_def sample_buffer_room)
  from after_pairD [OF logout.sends [OF g this, unfolded logout_send_def]]
  obtain v c where l: "iscsi_request_logout_process ?c = Inr (v, c)" by auto
  have "is_full_feature_phase sample_session \<noteq> 0" by (simp add: sample_session_def)
  then have s: "iscsi_server_process sample_os ?w = Inr (v, ?w\<lparr>connection := c\<rparr>)"
    by (simp add: iscsi_server_process_def n with_connection_def l)
  have "\<not> cut_ping (connection ?w)" by (simp add: cut_ping_def)
  with dispatcher_safe [OF s ok] s show ?thesis by auto
qed

section \<open>All connections of the server\<close>

text \<open>
  C2: Every connection that the first process serves is safe, whatever the others do. In every state of
  the server, with any number of connections, their processes interleaved in any way on the one
  device: a process that the first one forked has, as long as its transmitter runs, a well formed
  world, and each of its steps leaves the device alone or drives it by one command, in the full
  feature phase of its own session.
\<close>

theorem connections_safe:
  assumes "main_start socket_desc w = Some s0" "zero_globals w" "serves os s0 s"
    and "0 < i" "i < length (tasks s)" "forked_by (tasks s ! i) = 0" "transmitting (process_of (tasks s ! i))"
  shows "world_ok (proc_world (process_of (tasks s ! i)))
    \<and> (\<forall>q. step os (with_disk (disk s) (process_of (tasks s ! i))) q \<longrightarrow> device (proc_world q) = disk s
        \<or> driven os (disk s) (device (proc_world q))
          \<and> is_full_feature_phase (default_session (proc_world (process_of (tasks s ! i)))) \<noteq> 0)"
proof -
  have g: "guarded (process_of (tasks s ! i))"
    using serving.always [OF assms(3) main_start_ok [OF assms(1,2)]] assms(4-6) by (simp add: system_ok_def)
  have "world_ok (proc_world (process_of (tasks s ! i)))" using g assms(7) by (simp add: guarded_def)
  then show ?thesis using guarded_disk [OF g assms(7)] by blast
qed

definition sample_server :: "nat system" where
  "sample_server = \<lparr>tasks = [\<lparr>process_of = (login_process [])\<lparr>receiving := False, transmitting := False\<rparr>,
     serving = False, forked_by = 0\<rparr>], disk = 0\<rparr>"

definition sample_serving :: "byte list \<Rightarrow> nat system" where
  "sample_serving bs = sample_server\<lparr>tasks := tasks sample_server
     @ [\<lparr>process_of = login_process bs, serving = True, forked_by = 0\<rparr>]\<rparr>"

lemma sample_server_started:
  "main_start 3 (proc_world (login_process [])) = Some sample_server" "zero_globals (proc_world (login_process []))"
  by (simp_all add: main_start_def sample_server_def zero_globals_def login_process_def sample_session_def sample_entry_def)

lemma sample_empty_buffers:
  "blength (receive_buffer (sample_connection 64 [])) = 0" "blength (response_buffer (sample_connection 64 [])) = 0"
  by (simp_all add: sample_buffer_def)

lemma sample_accept: "serves sample_os sample_server (sample_serving bs)"
proof -
  have c: "start_connection 0 0 (child (process_of (tasks sample_server ! 0)) (sample_connection 64 []) 4 bs)
      = Some (login_process bs)"
    by (simp add: start_connection_def child_def sample_server_def login_process_def)
  have "server sample_os sample_server (sample_server\<lparr>tasks := tasks sample_server
     @ [\<lparr>process_of = login_process bs, serving = True, forked_by = 0\<rparr>]\<rparr>)"
    using sample_empty_buffers by (rule accept_fork [OF _ _ _ _ c, rotated 2]) (simp_all add: sample_server_def)
  then show ?thesis by (intro r_into_rtranclp) (simp add: sample_serving_def)
qed

lemma connections_safe_witness:
  "world_ok (proc_world (process_of (tasks (sample_serving [1, 2]) ! 1)))
    \<and> is_full_feature_phase (default_session (proc_world (process_of (tasks (sample_serving [1, 2]) ! 1)))) = 0"
  using connections_safe [OF sample_server_started sample_accept, of 1 "[1, 2]"]
  by (simp add: sample_serving_def sample_server_def) (simp add: login_process_def)

text \<open>
  C31: A process that has served a connection hands its session on. When both threads have ended, the
  child of \<open>main\<close> returns to the loop that accepts connections, and the process it forks for the next
  connection starts without a session reference but with the session object of the previous
  connection, full feature phase, target and transfer entry included; with a session that was in the
  full feature phase its world is not well formed.
\<close>

theorem stale_session_inherited:
  assumes "i < length (tasks s)" "serving (tasks s ! i)"
    and "\<not> receiving (process_of (tasks s ! i))" "\<not> transmitting (process_of (tasks s ! i))"
    and "is_full_feature_phase (default_session (proc_world (process_of (tasks s ! i)))) \<noteq> 0"
  shows "\<exists>t p. serves os s t \<and> length (tasks t) = Suc (length (tasks s)) \<and> p = process_of (last (tasks t))
    \<and> serving (last (tasks t)) \<and> receiving p \<and> transmitting p
    \<and> session_reference (connection (proc_world p)) = NoSession
    \<and> default_session (proc_world p) = default_session (proc_world (process_of (tasks s ! i)))
    \<and> \<not> world_ok (proc_world p)"
proof -
  from leave_and_fork [OF assms(1-4) sample_empty_buffers, of os 4 "[]"] obtain t q where t: "serves os s t"
    "start_connection 0 0 (child (process_of (tasks s ! i)) (sample_connection 64 []) 4 []) = Some q"
    "tasks t = (tasks s)[i := (tasks s ! i)\<lparr>serving := False\<rparr>] @ [\<lparr>process_of = q, serving = True, forked_by = i\<rparr>]"
    by blast
  have "session_reference (connection (proc_world q)) = NoSession" "receiving q" "transmitting q"
    "default_session (proc_world q) = default_session (proc_world (process_of (tasks s ! i)))"
    using t(2) by (auto simp: start_connection_def child_def iscsi_connection_create_def)
  then show ?thesis using t(1,3) assms(5) by (intro exI [of _ t] exI [of _ q]) (simp add: world_ok_def)
qed

lemma stale_session_inherited_witness:
  "\<exists>t p. serves sample_os sample_server t \<and> p = process_of (last (tasks t)) \<and> receiving p
    \<and> session_reference (connection (proc_world p)) = NoSession
    \<and> is_full_feature_phase (default_session (proc_world p)) = 1"
proof -
  let ?p = "login_process sample_login_bytes" and ?s = "sample_serving sample_login_bytes"
  from login_dropped [OF login_process_fresh _ _ _ sample_login_request sample_login_wire(1,2)
      sample_login_opens sample_login_wire(4,5)]
  obtain q where q: "reachable sample_os ?p q" "\<not> receiving q" "\<not> transmitting q"
    "is_full_feature_phase (default_session (proc_world q)) = 1" by auto
  have "1 < length (tasks ?s)" "serving (tasks ?s ! 1)" "process_of (tasks ?s ! 1) = ?p"
    "device (proc_world ?p) = disk ?s"
    by (simp_all add: sample_serving_def sample_server_def login_process_def)
  from reachable_serves [OF q(1) this] obtain t where t: "serves sample_os ?s t"
    "tasks t = (tasks ?s)[1 := (tasks ?s ! 1)\<lparr>process_of := q\<rparr>]" by blast
  have i: "1 < length (tasks t)" "serving (tasks t ! 1)" "process_of (tasks t ! 1) = q"
    by (simp_all add: t(2) sample_serving_def sample_server_def)
  from stale_session_inherited [of 1 t sample_os] i q obtain u where u: "serves sample_os t u"
    "receiving (process_of (last (tasks u)))"
    "session_reference (connection (proc_world (process_of (last (tasks u))))) = NoSession"
    "default_session (proc_world (process_of (last (tasks u)))) = default_session (proc_world q)" by auto
  have "serves sample_os sample_server u" using sample_accept t(1) u(1) by (meson rtranclp_trans)
  then show ?thesis using u q(4) by (intro exI [of _ u] exI [of _ "process_of (last (tasks u))"]) simp
qed

section \<open>Termination\<close>

text \<open>
  C14: The loops of the processing end. For every request, negotiated parameters and answers of the device,
  lengths that are negative, zero or overflow included: the one loop whose rounds the model counts, over
  the Data-In PDUs of a read, never uses up its count, so \<open>incoming_request\<close> is never \<open>OutOfFuel\<close>; and the
  send of Data-Ins is, whenever its first division does not trap, the same with any larger count, so it
  is what the loop of the code, which has no count, does. Every other loop of the processing is
  structurally bounded, but for the wait for the semaphore and for space, which only the other thread can end:
  that is the value \<open>Blocked\<close>, and C27, C32 and C36 say when it is for ever.
\<close>

theorem processing_terminates:
  "incoming_request os w buf len \<noteq> Inl OutOfFuel
   \<and> (case divide_round_up e (max_receive_data_segment_length (conn_parameter c)) of
        Inl trap \<Rightarrow> iscsi_request_data_in_send c tag e t = Inl trap
      | Inr n \<Rightarrow> \<forall>k. iscsi_request_data_in_send c tag e t = data_in_loop (nat (sint e) + 1 + k) c tag e
          (max_receive_data_segment_length (conn_parameter c)) (iscsi_target_buffer t) 0 0)"
  using fueled_incoming [of os w buf len] data_in_send_rounds [of e c _ tag t]
  by (auto simp: fueled_def iscsi_request_data_in_send_def split: sum.splits)

section \<open>Receiving what does not fit\<close>

text \<open>
  C36: A PDU that is longer than the receive buffer is never processed and never rejected. Once a header
  that announces it is at the front of the buffer, every further piece is only appended, with the
  status \<open>PDU_INCOMPLETE\<close>, until there is no space left, and then the receiver waits for ever: nothing
  else removes bytes from its buffer.
\<close>

theorem oversized_pdu_stuck:
  assumes w: "world_ok w" and f: "48 \<le> fill (receive_buffer (connection w))"
    and big: "4194304 < plen (bdata (receive_buffer (connection w))) 0"
    and l: "sint len = int n" "n \<le> 4194304" and src: "pos buf + n \<le> bsz buf"
  shows "if fill (receive_buffer (connection w)) + n \<le> 4194304
    then \<exists>b. incoming_request os w buf len = Inr (pdu_status_value PDU_INCOMPLETE,
          w\<lparr>connection := (connection w)\<lparr>receive_buffer := b\<rparr>\<rparr>)
      \<and> contents b = contents (receive_buffer (connection w)) @ bytes_of (blk buf) (pos buf) n
      \<and> 4194304 < plen (bdata b) 0
    else incoming_request os w buf len = Inl Blocked"
proof (cases "fill (receive_buffer (connection w)) + n \<le> 4194304")
  case True
  let ?r = "receive_buffer (connection w)"
  have room: "room ?r n" using True w by (simp add: room_def world_ok_def)
  show ?thesis
  proof (rule incoming_request_steps [OF w room l(1) src, of os])
    fix b assume b: "buffer_ok b" "contents b = contents ?r @ bytes_of (blk buf) (pos buf) n"
      and r: "incoming_request os w buf len =
        (if complete (contents b) then
          bindR (iscsi_server_process os (w\<lparr>connection := (connection w)\<lparr>receive_buffer := b\<rparr>\<rparr>)) (\<lambda>(v, w).
          bindR (iscsi_buffer_flush (receive_buffer (connection w))
                   (iscsi_pdu_length (bdata (receive_buffer (connection w))) 0)) (\<lambda>b.
            Inr (v, w\<lparr>connection := (connection w)\<lparr>receive_buffer := b\<rparr>\<rparr>)))
         else Inr (pdu_status_value PDU_INCOMPLETE, w\<lparr>connection := (connection w)\<lparr>receive_buffer := b\<rparr>\<rparr>))"
    have n: "fill b = fill ?r + n" using b(2) by (simp add: fill_length del: length_contents)
    have "bdata b i = bdata ?r i" if "i < 8" for i
    proof -
      have "bdata b i = contents b ! i" "bdata ?r i = contents ?r ! i"
        using that f n by (simp_all add: contents_nth)
      then show ?thesis using that f by (simp add: b(2) nth_append)
    qed
    then have p: "plen (bdata b) 0 = plen (bdata ?r) 0" by (intro plen_cong) simp
    have "\<not> complete (contents b)"
      using big True n f by (simp add: complete_def p flip: plen_contents)
    then have "incoming_request os w buf len = Inr (pdu_status_value PDU_INCOMPLETE,
          w\<lparr>connection := (connection w)\<lparr>receive_buffer := b\<rparr>\<rparr>)"
      using r by simp
    moreover have "4194304 < plen (bdata b) 0" using big p by simp
    ultimately show ?thesis using True b(2) by auto
  qed
next
  case False
  then show ?thesis using incoming_blocked [OF w l] by simp
qed

lemma oversized_pdu_stuck_witness:
  "\<exists>w'. incoming_request sample_os (sample_world 64 (sample_header 1 0x80 0x500000 0 0 0)) (lit [1, 2]) 2 = Inr (-3, w')
    \<and> device w' = 0"
proof -
  let ?w = "sample_world 64 (sample_header 1 0x80 0x500000 0 0 0)"
  have ok: "world_ok ?w" by (rule sample_world_ok) simp_all
  have f: "48 \<le> fill (receive_buffer (connection ?w))" by (simp add: sample_buffer_fill)
  have p: "4194304 < plen (bdata (receive_buffer (connection ?w))) 0" by (simp add: padn_def)
  have s: "pos (lit [1, 2]) + 2 \<le> bsz (lit [1, 2])" by (simp add: lit_def)
  from oversized_pdu_stuck [OF ok f p _ _ s, of 2 sample_os] show ?thesis
    by (auto simp: sample_buffer_fill)
qed

end
